(* ===== verification/Prelude.thy ===== *)
theory Prelude
  imports Complex_Main "HOL-Library.Word" "HOL-Library.Sublist"
begin

text \<open>
  Shared vocabulary of the development: Go's 64-bit duration arithmetic, points in time,
  the few functions of package strings the code calls, error values, and the lemmas about
  index loops and boolean masks that several components need.
\<close>

named_theorems go_arith \<open>range facts of wrapped and saturated 64-bit arithmetic\<close>
named_theorems mask_simps \<open>index sets of boolean masks under updates\<close>

section \<open>Durations and points in time\<close>

text \<open>
  A duration is Go's time.Duration, a signed 64-bit count of nanoseconds, kept as an integer;
  multiplication and addition of durations wrap around. A point in time is an integer count of
  nanoseconds since Go's zero time; subtracting two of them saturates, as Time.Sub does.
\<close>

type_synonym duration = int
type_synonym time = int
type_synonym bytes = "8 word list"

definition wrap64 :: "int \<Rightarrow> int" where
  "wrap64 x = (x + 2 ^ 63) mod 2 ^ 64 - 2 ^ 63"

definition sat64 :: "int \<Rightarrow> int" where
  "sat64 x = max (- (2 ^ 63)) (min (2 ^ 63 - 1) x)"

definition timeSub :: "time \<Rightarrow> time \<Rightarrow> duration" where
  "timeSub t u = sat64 (t - u)"

definition zeroTime :: time where "zeroTime = 0"
definition second :: duration where "second = 1000000000"
definition millisecond :: duration where "millisecond = 1000000"
definition hour :: duration where "hour = 3600 * second"

text \<open>time.UnixMilli: the Unix epoch is 62135596800 seconds after Go's zero time.\<close>

definition unixMilli :: "int \<Rightarrow> time" where
  "unixMilli ms = 62135596800 * second + ms * millisecond"

text \<open>Go's integer division truncates towards zero.\<close>

definition goDiv :: "int \<Rightarrow> int \<Rightarrow> int" where
  "goDiv a b = sgn a * sgn b * (\<bar>a\<bar> div \<bar>b\<bar>)"

lemma wrap64_range [go_arith]: "- (2 ^ 63) \<le> wrap64 x" "wrap64 x < 2 ^ 63"
  by (simp_all add: wrap64_def)

lemma wrap64_id [go_arith]: "- (2 ^ 63) \<le> x \<Longrightarrow> x < 2 ^ 63 \<Longrightarrow> wrap64 x = x"
  by (simp add: wrap64_def)

lemma sat64_pos [simp]: "0 < sat64 x \<longleftrightarrow> 0 < x"
  by (auto simp: sat64_def)

lemma sat64_le_iff: "- (2 ^ 63) \<le> c \<Longrightarrow> c < 2 ^ 63 - 1 \<Longrightarrow> c < sat64 x \<longleftrightarrow> c < x"
  by (auto simp: sat64_def)

lemma timeSub_pos [simp]: "0 < timeSub t u \<longleftrightarrow> u < t"
  by (simp add: timeSub_def)

section \<open>Floating-point numbers\<close>

text \<open>
  The code only compares its float64 values, and comparison with NaN is false both ways, so a
  float64 is a rational number, an infinity or NaN.
\<close>

datatype float64 = Finite rat | PosInf | NegInf | NaN

fun fltLess :: "float64 \<Rightarrow> float64 \<Rightarrow> bool" where
  "fltLess (Finite a) (Finite b) = (a < b)"
| "fltLess NegInf (Finite b) = True"
| "fltLess NegInf PosInf = True"
| "fltLess (Finite a) PosInf = True"
| "fltLess _ _ = False"

lemma fltLess_NaN [simp]: "\<not> fltLess NaN x" "\<not> fltLess x NaN"
  by (cases x; simp)+

section \<open>Errors\<close>

text \<open>
  Error values: the sentinels the code compares with, and formatted messages. A panic ends
  the process; it is a result of its own, so no theorem can confuse it with an error value.
\<close>

datatype go_error =
    ContextCanceled
  | ContextDeadlineExceeded
  | QuorumMetCause
  | Errorf string

datatype 'a outcome = Ok 'a | Err go_error | Panic

fun errorString :: "go_error \<Rightarrow> string" where
  "errorString ContextCanceled = ''context canceled''"
| "errorString ContextDeadlineExceeded = ''context deadline exceeded''"
| "errorString QuorumMetCause = ''quorum met''"
| "errorString (Errorf s) = s"

section \<open>Strings\<close>

fun showNat :: "nat \<Rightarrow> string" where
  "showNat n = (if n < 10 then [char_of (48 + n)] else showNat (n div 10) @ [char_of (48 + n mod 10)])"

declare showNat.simps [simp del]

definition showInt :: "int \<Rightarrow> string" where
  "showInt i = (if i < 0 then ''-'' @ showNat (nat (- i)) else showNat (nat i))"

text \<open>
  strings.Contains, strings.ToLower on ASCII letters, strings.TrimPrefix, strings.TrimRight with
  a one-byte cutset, strings.Join.
\<close>

fun strContains :: "string \<Rightarrow> string \<Rightarrow> bool" where
  "strContains [] n = (n = [])"
| "strContains (c # cs) n = (prefix n (c # cs) \<or> strContains cs n)"

definition toLowerChar :: "char \<Rightarrow> char" where
  "toLowerChar c =
     (let n = (of_char c :: nat) in if 65 \<le> n \<and> n \<le> 90 then char_of (n + 32) else c)"

definition toLower :: "string \<Rightarrow> string" where
  "toLower = map toLowerChar"

definition trimPrefix :: "string \<Rightarrow> string \<Rightarrow> string" where
  "trimPrefix s p = (if prefix p s then drop (length p) s else s)"

definition trimRight :: "string \<Rightarrow> char \<Rightarrow> string" where
  "trimRight s c = rev (dropWhile (\<lambda>x. x = c) (rev s))"

fun joinWith :: "string \<Rightarrow> string list \<Rightarrow> string" where
  "joinWith sep [] = []"
| "joinWith sep [s] = s"
| "joinWith sep (s # t # ss) = s @ sep @ joinWith sep (t # ss)"

lemma strContains_iff: "strContains h n \<longleftrightarrow> (\<exists>a b. h = a @ n @ b)"
proof (induction h)
  case Nil
  then show ?case by simp
next
  case (Cons c cs)
  show ?case
  proof
    assume "strContains (c # cs) n"
    then consider "prefix n (c # cs)" | "strContains cs n" by auto
    then show "\<exists>a b. c # cs = a @ n @ b"
    proof cases
      case 1
      then show ?thesis by (metis append_Nil prefixE)
    next
      case 2
      with Cons.IH obtain a b where "cs = a @ n @ b" by blast
      then have "c # cs = (c # a) @ n @ b" by simp
      then show ?thesis by blast
    qed
  next
    assume "\<exists>a b. c # cs = a @ n @ b"
    then obtain a b where ab: "c # cs = a @ n @ b" by blast
    then have "prefix n (c # cs) \<or> (\<exists>a' b. cs = a' @ n @ b)"
      by (cases a) auto
    then show "strContains (c # cs) n"
      using Cons.IH by auto
  qed
qed

lemma trimRight_not_last: "trimRight s c \<noteq> [] \<Longrightarrow> last (trimRight s c) \<noteq> c"
  using hd_dropWhile [of "\<lambda>x. x = c" "rev s"]
  by (auto simp: trimRight_def last_rev)

section \<open>Hexadecimal\<close>

definition hexDigit :: "nat \<Rightarrow> char" where
  "hexDigit n = (if n < 10 then char_of (48 + n) else char_of (87 + n))"

definition hexEncode :: "bytes \<Rightarrow> string" where
  "hexEncode bs = concat (map (\<lambda>b. [hexDigit (unat b div 16), hexDigit (unat b mod 16)]) bs)"

definition toUpperChar :: "char \<Rightarrow> char" where
  "toUpperChar c =
     (let n = (of_char c :: nat) in if 97 \<le> n \<and> n \<le> 122 then char_of (n - 32) else c)"

definition toUpper :: "string \<Rightarrow> string" where
  "toUpper = map toUpperChar"

definition hexValue :: "char \<Rightarrow> nat option" where
  "hexValue c =
     (let n = (of_char c :: nat) in
      if 48 \<le> n \<and> n \<le> 57 then Some (n - 48)
      else if 97 \<le> n \<and> n \<le> 102 then Some (n - 87)
      else if 65 \<le> n \<and> n \<le> 70 then Some (n - 55)
      else None)"

fun hexDecode :: "string \<Rightarrow> bytes option" where
  "hexDecode [] = Some []"
| "hexDecode [c] = None"
| "hexDecode (c # d # cs) =
     (case (hexValue c, hexValue d, hexDecode cs) of
        (Some h, Some l, Some bs) \<Rightarrow> Some (of_nat (16 * h + l) # bs)
      | _ \<Rightarrow> None)"

definition hexUpper :: "bytes \<Rightarrow> string" where
  "hexUpper bs = toUpper (hexEncode bs)"

text \<open>strconv.FormatUint with base 16.\<close>

fun showHex :: "nat \<Rightarrow> string" where
  "showHex n = (if n < 16 then [hexDigit n] else showHex (n div 16) @ [hexDigit (n mod 16)])"

declare showHex.simps [simp del]

text \<open>Decoding undoes encoding in either case, so a key identifier is determined by its key.\<close>

lemma hexValue_digit:
  assumes "n < 16"
  shows "hexValue (hexDigit n) = Some n" and "hexValue (toUpperChar (hexDigit n)) = Some n"
  using assms by (auto simp: hexValue_def hexDigit_def toUpperChar_def Let_def)

lemma byte_split: "of_nat (16 * (unat b div 16) + unat b mod 16) = (b :: 8 word)"
  by simp

lemma byte_nibbles: "unat (b :: 8 word) div 16 < 16" "unat (b :: 8 word) mod 16 < 16"
proof -
  have "unat b < 2 ^ 8" using unsigned_less [of b] by simp
  then show "unat b div 16 < 16" by simp
qed simp

lemma hexDecode_hexEncode: "hexDecode (hexEncode bs) = Some bs"
proof (induction bs)
  case Nil
  then show ?case by (simp add: hexEncode_def)
next
  case (Cons b bs)
  then show ?case using hexValue_digit [OF byte_nibbles(1) [of b]] hexValue_digit [OF byte_nibbles(2) [of b]] byte_split [of b]
    by (simp add: hexEncode_def)
qed

lemma hexDecode_hexUpper: "hexDecode (hexUpper bs) = Some bs"
proof (induction bs)
  case Nil
  then show ?case by (simp add: hexEncode_def hexUpper_def toUpper_def)
next
  case (Cons b bs)
  then show ?case using hexValue_digit [OF byte_nibbles(1) [of b]] hexValue_digit [OF byte_nibbles(2) [of b]] byte_split [of b]
    by (simp add: hexEncode_def hexUpper_def toUpper_def)
qed

lemma showHex_inj: "showHex m = showHex n \<Longrightarrow> m = n"
proof (induction m arbitrary: n rule: showHex.induct)
  case (1 m)
  have digit: "a mod 16 = b mod 16" if "hexDigit (a mod 16) = hexDigit (b mod 16)" for a b :: nat
  proof -
    have "Some (a mod 16) = hexValue (hexDigit (a mod 16))" by (rule hexValue_digit(1) [symmetric]) simp
    also have "\<dots> = hexValue (hexDigit (b mod 16))" by (simp only: that)
    also have "\<dots> = Some (b mod 16)" by (rule hexValue_digit(1)) simp
    finally show ?thesis by simp
  qed
  have nonempty: "showHex k \<noteq> []" for k by (subst showHex.simps) simp
  have step: "\<exists>p. showHex k = p @ [hexDigit (k mod 16)] \<and> (if k < 16 then p = [] else p = showHex (k div 16))" for k
    by (subst showHex.simps) simp
  obtain p where p: "showHex m = p @ [hexDigit (m mod 16)]" "if m < 16 then p = [] else p = showHex (m div 16)"
    using step by blast
  obtain q where q: "showHex n = q @ [hexDigit (n mod 16)]" "if n < 16 then q = [] else q = showHex (n div 16)"
    using step by blast
  have eq: "p = q" "m mod 16 = n mod 16"
    using 1(2) p(1) q(1) digit [of m n] by simp_all
  show ?case
  proof (cases "m < 16")
    case True
    then have "q = []" using p(2) eq(1) by simp
    then have "n < 16" using q(2) nonempty [of "n div 16"] by (metis (full_types))
    then show ?thesis using True eq(2) by simp
  next
    case False
    then have "q = showHex (m div 16)" using p(2) eq(1) by simp
    moreover from this have "\<not> n < 16" using q(2) nonempty [of "m div 16"] by (metis (full_types))
    ultimately have "m div 16 = n div 16" using q(2) 1(1) [OF False, of "n div 16"] by simp
    then show ?thesis using eq(2) by (metis div_mult_mod_eq)
  qed
qed

section \<open>Loops that stop at the first hit\<close>

text \<open>
  A loop \<open>for i := range xs \<dots> { if P(i) { \<dots>; break } }\<close> acts on the first index with
  \<open>P\<close>; \<open>findIdx P n\<close> is that index, if there is one, and \<open>findIdxDown\<close> is the
  same for a loop that counts down from \<open>n - 1\<close>.
\<close>

definition findIdx :: "(nat \<Rightarrow> bool) \<Rightarrow> nat \<Rightarrow> nat option" where
  "findIdx P n = List.find P [0..<n]"

definition findIdxDown :: "(nat \<Rightarrow> bool) \<Rightarrow> nat \<Rightarrow> nat option" where
  "findIdxDown P n = List.find P (rev [0..<n])"

lemma findIdx_SomeD: "findIdx P n = Some i \<Longrightarrow> i < n \<and> P i"
  by (auto simp: findIdx_def find_Some_iff)

lemma findIdx_least: "findIdx P n = Some i \<Longrightarrow> j < i \<Longrightarrow> \<not> P j"
  by (auto simp: findIdx_def find_Some_iff)

lemma findIdx_None: "findIdx P n = None \<longleftrightarrow> (\<forall>i < n. \<not> P i)"
  by (auto simp: findIdx_def find_None_iff)

lemma findIdxDown_SomeD: "findIdxDown P n = Some i \<Longrightarrow> i < n \<and> P i"
  by (force simp: findIdxDown_def find_Some_iff in_set_conv_nth rev_nth)

lemma findIdxDown_None: "findIdxDown P n = None \<longleftrightarrow> (\<forall>i < n. \<not> P i)"
  by (auto simp: findIdxDown_def find_None_iff)

text \<open>Reading a list after a write, when the read is in range.\<close>

lemma nth_list_update_read: "j < length xs \<Longrightarrow> xs[i := x] ! j = (if i = j then x else xs ! j)"
  by (cases "i < length xs") (auto simp: nth_list_update)

section \<open>Boolean masks\<close>

definition chosen :: "bool list \<Rightarrow> nat set" where
  "chosen sel = {i. i < length sel \<and> sel ! i}"

definition keep :: "bool list \<Rightarrow> 'a list \<Rightarrow> 'a list" where
  "keep sel xs = map snd (filter fst (zip sel xs))"

lemma chosen_finite [simp, intro]: "finite (chosen sel)"
  by (simp add: chosen_def)

lemma chosen_lt: "i \<in> chosen sel \<Longrightarrow> i < length sel"
  by (simp add: chosen_def)

lemma chosen_iff: "i < length sel \<Longrightarrow> i \<in> chosen sel \<longleftrightarrow> sel ! i"
  by (simp add: chosen_def)

lemma chosen_set_True [mask_simps]: "i < length sel \<Longrightarrow> chosen (sel[i := True]) = insert i (chosen sel)"
  by (auto simp: chosen_def nth_list_update)

lemma chosen_set_False [mask_simps]: "i < length sel \<Longrightarrow> chosen (sel[i := False]) = chosen sel - {i}"
  by (auto simp: chosen_def nth_list_update)

lemma chosen_Nil [mask_simps]: "chosen [] = {}"
  by (simp add: chosen_def)

lemma chosen_replicate_False [mask_simps]: "chosen (replicate n False) = {}"
  by (simp add: chosen_def)

lemma chosen_Cons: "chosen (b # bs) = (if b then {0} else {}) \<union> Suc ` chosen bs"
proof (rule set_eqI)
  fix i
  show "i \<in> chosen (b # bs) \<longleftrightarrow> i \<in> (if b then {0} else {}) \<union> Suc ` chosen bs"
    by (cases i) (auto simp: chosen_def)
qed

lemma card_chosen_Cons [mask_simps]: "card (chosen (b # bs)) = (if b then 1 else 0) + card (chosen bs)"
proof -
  have "card (Suc ` chosen bs) = card (chosen bs)"
    by (simp add: card_image)
  then show ?thesis
    by (auto simp: chosen_Cons card_insert_if)
qed

lemma card_chosen_le [simp]: "card (chosen sel) \<le> length sel"
  by (induction sel) (simp_all add: mask_simps)

lemma keep_Cons [mask_simps]: "keep (b # bs) (x # xs) = (if b then x # keep bs xs else keep bs xs)"
  by (simp add: keep_def)

lemma keep_Nil [mask_simps]: "keep [] xs = []" "keep sel [] = []"
  by (simp_all add: keep_def)

lemma length_keep: "length sel = length xs \<Longrightarrow> length (keep sel xs) = card (chosen sel)"
  by (induction sel xs rule: list_induct2) (simp_all add: mask_simps)

lemma set_keep: "length sel = length xs \<Longrightarrow> set (keep sel xs) = (\<lambda>i. xs ! i) ` chosen sel"
proof (induction sel xs rule: list_induct2)
  case Nil
  then show ?case by (simp add: mask_simps)
next
  case (Cons b bs x xs)
  then show ?case by (auto simp: mask_simps chosen_Cons image_image)
qed

lemma set_keep_subset: "set (keep sel xs) \<subseteq> set xs"
  by (auto simp: keep_def dest: set_zip_rightD)

lemma keep_map: "keep sel (map f xs) = map f (keep sel xs)"
proof (induction sel arbitrary: xs)
  case Nil
  then show ?case by (simp add: mask_simps)
next
  case (Cons b bs)
  then show ?case by (cases xs) (auto simp: mask_simps)
qed

section \<open>Sublists\<close>

lemma subseq_set: "subseq xs ys \<Longrightarrow> set xs \<subseteq> set ys"
  by (induction rule: list_emb.induct) auto

lemma distinct_subseq: "subseq xs ys \<Longrightarrow> distinct ys \<Longrightarrow> distinct xs"
  by (induction rule: list_emb.induct) (auto dest: subseq_set)

end
