(* ===== verification/CT_Types.thy ===== *)
theory CT_Types
  imports Prelude
begin

text \<open>
  The data the submitter package works on. The first records carry the fields the code uses of
  the types of certificate-transparency-go (log lists, SCTs, add-chain responses, parsed
  certificates); the rest are the package's own types: log types, priority buckets, strategy
  members (strategy.go), submission requests (request.go) and responses (response.go).
  Parsed keys, hashes and DER blobs are byte strings.
\<close>

section \<open>Log lists\<close>

record temporalInterval =
  ti_StartInclusive :: time
  ti_EndExclusive :: time

text \<open>The log states the code reads: each is present with its timestamp, or absent (nil).\<close>

record logStates =
  ls_Usable :: "time option"
  ls_ReadOnly :: "time option"
  ls_Retired :: "time option"
  ls_Rejected :: "time option"

record ctLog =
  log_Description :: string
  log_LogID :: bytes
  log_Key :: bytes
  log_URL :: string
  log_MMD :: int
  log_Type :: string
  log_State :: "logStates option"
  log_TemporalInterval :: "temporalInterval option"

record tiledLog =
  tl_Description :: string
  tl_LogID :: bytes
  tl_Key :: bytes
  tl_SubmissionURL :: string
  tl_MonitoringURL :: string
  tl_MMD :: int
  tl_Type :: string
  tl_State :: "logStates option"
  tl_TemporalInterval :: "temporalInterval option"

record operator =
  op_Name :: string
  op_Logs :: "ctLog list"
  op_TiledLogs :: "tiledLog list"

type_synonym logList = "operator list"

section \<open>Certificates, SCTs and log responses\<close>

record certificate =
  cert_Raw :: bytes
  cert_RawIssuer :: bytes
  cert_RawSubject :: bytes
  cert_RawSubjectPublicKeyInfo :: bytes
  cert_AuthorityKeyId :: bytes
  cert_SubjectKeyId :: bytes
  cert_NotBefore :: time
  cert_NotAfter :: time
  cert_IsPrecertificate :: bool
  cert_UnknownExtKeyUsage :: "nat list list"

record addChainResponse =
  acr_SCTVersion :: nat
  acr_ID :: bytes
  acr_Timestamp :: "64 word"
  acr_Extensions :: string
  acr_Signature :: bytes

record sct =
  sct_SCTVersion :: nat
  sct_KeyID :: bytes
  sct_Timestamp :: "64 word"
  sct_Extensions :: bytes
  sct_Signature :: bytes

datatype logEntryType = X509LogEntryType | PrecertLogEntryType | OtherLogEntryType int

section \<open>Log types and buckets (logType.go, bucket.go)\<close>

datatype LogType = LOGTYPE_RFC6962 | LOGTYPE_STATIC

fun logTypeJSON :: "LogType \<Rightarrow> string" where
  "logTypeJSON LOGTYPE_RFC6962 = ''RFC6962''"
| "logTypeJSON LOGTYPE_STATIC = ''STATIC''"

datatype Bucket =
    EXCLUDED
  | DISPREFERRED_MMDBLOWN
  | DISPREFERRED_LOWUPTIME
  | DISPREFERRED_RECENTBADRESPONSE
  | DISPREFERRED_RECENTTIMEOUT
  | DISPREFERRED_RECENT5XX
  | DISPREFERRED_RECENT4XX
  | DISPREFERRED_SLOWRESPONSES
  | NEUTRAL
  | PREFERRED_BYCONFIG

text \<open>The iota value of a bucket, by which buckets are compared.\<close>

fun bucketIota :: "Bucket \<Rightarrow> nat" where
  "bucketIota EXCLUDED = 0"
| "bucketIota DISPREFERRED_MMDBLOWN = 1"
| "bucketIota DISPREFERRED_LOWUPTIME = 2"
| "bucketIota DISPREFERRED_RECENTBADRESPONSE = 3"
| "bucketIota DISPREFERRED_RECENTTIMEOUT = 4"
| "bucketIota DISPREFERRED_RECENT5XX = 5"
| "bucketIota DISPREFERRED_RECENT4XX = 6"
| "bucketIota DISPREFERRED_SLOWRESPONSES = 7"
| "bucketIota NEUTRAL = 8"
| "bucketIota PREFERRED_BYCONFIG = 9"

fun bucketJSON :: "Bucket \<Rightarrow> string" where
  "bucketJSON EXCLUDED = ''EXCLUDED''"
| "bucketJSON DISPREFERRED_MMDBLOWN = ''DISPREFERRED_MMDBLOWN''"
| "bucketJSON DISPREFERRED_LOWUPTIME = ''DISPREFERRED_LOWUPTIME''"
| "bucketJSON DISPREFERRED_RECENTBADRESPONSE = ''DISPREFERRED_RECENTBADRESPONSE''"
| "bucketJSON DISPREFERRED_RECENTTIMEOUT = ''DISPREFERRED_RECENTTIMEOUT''"
| "bucketJSON DISPREFERRED_RECENT5XX = ''DISPREFERRED_RECENT5XX''"
| "bucketJSON DISPREFERRED_RECENT4XX = ''DISPREFERRED_RECENT4XX''"
| "bucketJSON DISPREFERRED_SLOWRESPONSES = ''DISPREFERRED_SLOWRESPONSES''"
| "bucketJSON NEUTRAL = ''NEUTRAL''"
| "bucketJSON PREFERRED_BYCONFIG = ''PREFERRED_BYCONFIG''"

lemma bucketIota_inject [simp]: "bucketIota a = bucketIota b \<longleftrightarrow> a = b"
  by (cases a; cases b) simp_all

instantiation Bucket :: linorder
begin

definition less_eq_Bucket :: "Bucket \<Rightarrow> Bucket \<Rightarrow> bool" where
  "less_eq_Bucket a b \<longleftrightarrow> bucketIota a \<le> bucketIota b"

definition less_Bucket :: "Bucket \<Rightarrow> Bucket \<Rightarrow> bool" where
  "less_Bucket a b \<longleftrightarrow> bucketIota a < bucketIota b"

instance
  by standard (auto simp: less_eq_Bucket_def less_Bucket_def)

end

lemma EXCLUDED_least [simp]: "EXCLUDED \<le> b"
  by (simp add: less_eq_Bucket_def)

lemma PREFERRED_greatest [simp]: "b \<le> PREFERRED_BYCONFIG"
  by (cases b) (simp_all add: less_eq_Bucket_def)

section \<open>Strategy members, requests and responses\<close>

record StrategyMember =
  sm_SubmissionURL :: string
  sm_MonitoringURL :: string
  sm_Operator :: string
  sm_LogName :: string
  sm_LogType :: LogType
  sm_MMD :: int
  sm_Bucket :: Bucket
  sm_DispreferredDetail :: string
  sm_RandomWeight :: int
  sm_Outcome :: string
  sm_BeganAfter :: duration
  sm_TimeTaken :: duration

record SubmissionRequest =
  sr_Chain :: "bytes list"
  sr_DiscoverChain :: bool
  sr_PolicyCompliant :: bool
  sr_Mimics :: bool
  sr_TestLogs :: bool
  sr_Operators :: int
  sr_SCTs :: int
  sr_RequireAtLeastOneRFC6962SCT :: bool
  sr_PreferAtLeastOneStaticSCT :: bool
  sr_Verbose :: bool

definition NewSubmissionRequest :: SubmissionRequest where
  "NewSubmissionRequest =
     \<lparr>sr_Chain = [], sr_DiscoverChain = False, sr_PolicyCompliant = True, sr_Mimics = False,
      sr_TestLogs = False, sr_Operators = 1, sr_SCTs = 1, sr_RequireAtLeastOneRFC6962SCT = False,
      sr_PreferAtLeastOneStaticSCT = False, sr_Verbose = False\<rparr>"

record CTLintResult =
  lint_Finding :: string
  lint_Severity :: string

record SubmissionResponse =
  resp_LogResponse :: "addChainResponse list"
  resp_SCTListB64 :: string
  resp_FinalTBSCertB64 :: string
  resp_CTLint :: "CTLintResult list"
  resp_Strategy :: "StrategyMember list"

definition emptyResponse :: SubmissionResponse where
  "emptyResponse =
     \<lparr>resp_LogResponse = [], resp_SCTListB64 = [], resp_FinalTBSCertB64 = [], resp_CTLint = [],
      resp_Strategy = []\<rparr>"

text \<open>The fields of a strategy member that identify its log, which no later step changes.\<close>

definition sameLog :: "StrategyMember \<Rightarrow> StrategyMember \<Rightarrow> bool" where
  "sameLog a b \<longleftrightarrow>
     sm_SubmissionURL a = sm_SubmissionURL b \<and> sm_MonitoringURL a = sm_MonitoringURL b \<and>
     sm_Operator a = sm_Operator b \<and> sm_LogName a = sm_LogName b \<and> sm_LogType a = sm_LogType b \<and>
     sm_MMD a = sm_MMD b"

end
