(* ===== verification/Quorum.thy ===== *)
theory Quorum
  imports CT_Types
begin

text \<open>
  submitter/quorum.go: the quorum state that the coordinator fills as SCTs arrive, the quorum
  test and its failure message, the two predicates that decide whether one more log can help,
  and trimToQuorum, which selects the SCTs that are returned. Loops over the collected SCTs are
  functions on a boolean mask \<open>selected\<close> with its running \<open>count\<close>, one function per loop.
\<close>

section \<open>Quorum state and quorum test\<close>

record quorumState =
  qs_responses :: "addChainResponse list"
  qs_scts :: "sct list"
  qs_operators :: "string set"
  qs_hasRFC6962SCT :: bool
  qs_hasStaticSCT :: bool
  qs_strategyIndices :: "nat list"

definition newQuorumState :: quorumState where
  "newQuorumState =
     \<lparr>qs_responses = [], qs_scts = [], qs_operators = {}, qs_hasRFC6962SCT = False,
      qs_hasStaticSCT = False, qs_strategyIndices = []\<rparr>"

definition addSuccess ::
  "quorumState \<Rightarrow> StrategyMember list \<Rightarrow> nat \<Rightarrow> addChainResponse \<Rightarrow> sct \<Rightarrow> quorumState" where
  "addSuccess qs strategy strategyIdx response s =
     (let sm = strategy ! strategyIdx in
      qs\<lparr>qs_responses := qs_responses qs @ [response],
         qs_scts := qs_scts qs @ [s],
         qs_strategyIndices := qs_strategyIndices qs @ [strategyIdx],
         qs_operators := insert (sm_Operator sm) (qs_operators qs),
         qs_hasRFC6962SCT := (if sm_LogType sm = LOGTYPE_RFC6962 then True else qs_hasRFC6962SCT qs),
         qs_hasStaticSCT := (if sm_LogType sm = LOGTYPE_STATIC then True else qs_hasStaticSCT qs)\<rparr>)"

definition isQuorumMet :: "quorumState \<Rightarrow> SubmissionRequest \<Rightarrow> bool" where
  "isQuorumMet qs sr \<longleftrightarrow>
     (if int (length (qs_responses qs)) < sr_SCTs sr then False
      else if int (card (qs_operators qs)) < sr_Operators sr then False
      else if sr_RequireAtLeastOneRFC6962SCT sr \<and> \<not> qs_hasRFC6962SCT qs then False
      else True)"

definition quorumFailureReason :: "quorumState \<Rightarrow> SubmissionRequest \<Rightarrow> string" where
  "quorumFailureReason qs sr =
     joinWith ''; ''
       ((if int (length (qs_responses qs)) < sr_SCTs sr
         then [''need '' @ showInt (sr_SCTs sr) @ '' SCTs but got '' @ showInt (int (length (qs_responses qs)))]
         else []) @
        (if int (card (qs_operators qs)) < sr_Operators sr
         then [''need '' @ showInt (sr_Operators sr) @ '' distinct operators but got '' @
               showInt (int (card (qs_operators qs)))]
         else []) @
        (if sr_RequireAtLeastOneRFC6962SCT sr \<and> \<not> qs_hasRFC6962SCT qs
         then [''require at least one RFC6962 SCT but got none''] else []))"

definition helpsQuorum :: "quorumState \<Rightarrow> SubmissionRequest \<Rightarrow> StrategyMember \<Rightarrow> bool" where
  "helpsQuorum qs sr sm \<longleftrightarrow>
     (if int (length (qs_responses qs)) < sr_SCTs sr then True
      else if int (card (qs_operators qs)) < sr_Operators sr \<and> sm_Operator sm \<notin> qs_operators qs then True
      else if sr_RequireAtLeastOneRFC6962SCT sr \<and> \<not> qs_hasRFC6962SCT qs \<and> sm_LogType sm = LOGTYPE_RFC6962
        then True
      else if sr_PreferAtLeastOneStaticSCT sr \<and> \<not> qs_hasStaticSCT qs \<and> sm_LogType sm = LOGTYPE_STATIC
        then True
      else False)"

definition wouldHelp ::
  "quorumState \<Rightarrow> SubmissionRequest \<Rightarrow> StrategyMember \<Rightarrow> StrategyMember list \<Rightarrow> nat set \<Rightarrow> bool" where
  "wouldHelp qs sr sm strategy inFlightIndices \<longleftrightarrow>
     (let optimisticSCTs = int (length (qs_responses qs)) + int (card inFlightIndices);
          optimisticOperators =
            qs_operators qs \<union> (\<lambda>idx. sm_Operator (strategy ! idx)) ` inFlightIndices;
          optimisticRFC6962 =
            (qs_hasRFC6962SCT qs \<or> (\<exists>idx \<in> inFlightIndices. sm_LogType (strategy ! idx) = LOGTYPE_RFC6962));
          optimisticStatic =
            (qs_hasStaticSCT qs \<or> (\<exists>idx \<in> inFlightIndices. sm_LogType (strategy ! idx) = LOGTYPE_STATIC));
          needMoreSCTs = optimisticSCTs < sr_SCTs sr;
          needMoreOperators = int (card optimisticOperators) < sr_Operators sr;
          needRFC6962 = (sr_RequireAtLeastOneRFC6962SCT sr \<and> \<not> optimisticRFC6962);
          preferStatic = (sr_PreferAtLeastOneStaticSCT sr \<and> \<not> optimisticStatic)
      in if needMoreSCTs then True
         else if needMoreOperators \<and> sm_Operator sm \<notin> optimisticOperators then True
         else if needRFC6962 \<and> sm_LogType sm = LOGTYPE_RFC6962 then True
         else if preferStatic \<and> sm_LogType sm = LOGTYPE_STATIC then True
         else False)"

section \<open>Trimming to the quorum\<close>

text \<open>The first loop: one entry per operator not seen before, until \<open>k\<close> are selected.\<close>

fun pickOperators ::
  "StrategyMember list \<Rightarrow> int \<Rightarrow> nat list \<Rightarrow> int \<Rightarrow> string set \<Rightarrow> bool list \<times> int" where
  "pickOperators strategy k [] count seenOperators = ([], count)"
| "pickOperators strategy k (si # sis) count seenOperators =
     (if k \<le> count then (replicate (length (si # sis)) False, count)
      else let oper = sm_Operator (strategy ! si) in
        if oper \<notin> seenOperators
        then (case pickOperators strategy k sis (count + 1) (insert oper seenOperators) of
                (sel, c) \<Rightarrow> (True # sel, c))
        else (case pickOperators strategy k sis count seenOperators of (sel, c) \<Rightarrow> (False # sel, c)))"

text \<open>canDropSafely, over the selected entries \<open>j\<close> other than \<open>dropIdx\<close>.\<close>

definition canDropSafely ::
  "nat list \<Rightarrow> nat \<Rightarrow> bool list \<Rightarrow> StrategyMember list \<Rightarrow> SubmissionRequest \<Rightarrow> bool" where
  "canDropSafely indices dropIdx selected strategy sr \<longleftrightarrow>
     (let oper = (\<lambda>j. sm_Operator (strategy ! (indices ! j)));
          others = {j \<in> {0..<length indices}. j \<noteq> dropIdx \<and> selected ! j}
      in if \<exists>j \<in> others. oper j = oper dropIdx then True
         else sr_Operators sr \<le> int (card (oper ` others)))"

definition hasSelected :: "LogType \<Rightarrow> nat list \<Rightarrow> bool list \<Rightarrow> StrategyMember list \<Rightarrow> bool" where
  "hasSelected lt indices selected strategy \<longleftrightarrow>
     (\<exists>i \<in> {0..<length indices}. selected ! i \<and> sm_LogType (strategy ! (indices ! i)) = lt)"

text \<open>The loop that selects the first unselected entry of a log type, if there is one.\<close>

definition addFirst ::
  "LogType \<Rightarrow> nat list \<Rightarrow> StrategyMember list \<Rightarrow> bool list \<times> int \<Rightarrow> bool list \<times> int" where
  "addFirst lt indices strategy sc =
     (case sc of (selected, count) \<Rightarrow>
       (case findIdx (\<lambda>i. \<not> selected ! i \<and> sm_LogType (strategy ! (indices ! i)) = lt) (length indices) of
          None \<Rightarrow> (selected, count)
        | Some i \<Rightarrow> (selected[i := True], count + 1)))"

text \<open>The loop, from the last entry down, that drops the first entry that passes a test.\<close>

definition dropLast :: "(bool list \<Rightarrow> nat \<Rightarrow> bool) \<Rightarrow> nat \<Rightarrow> bool list \<times> int \<Rightarrow> bool list \<times> int" where
  "dropLast droppable n sc =
     (case sc of (selected, count) \<Rightarrow>
       (case findIdxDown (\<lambda>i. selected ! i \<and> droppable selected i) n of
          None \<Rightarrow> (selected, count)
        | Some i \<Rightarrow> (selected[i := False], count - 1)))"

definition ensureRFC6962 ::
  "SubmissionRequest \<Rightarrow> nat list \<Rightarrow> StrategyMember list \<Rightarrow> bool list \<times> int \<Rightarrow> bool list \<times> int" where
  "ensureRFC6962 sr indices strategy sc =
     (if sr_RequireAtLeastOneRFC6962SCT sr \<and> \<not> hasSelected LOGTYPE_RFC6962 indices (fst sc) strategy
      then let sc' = addFirst LOGTYPE_RFC6962 indices strategy sc in
        if sr_SCTs sr < snd sc'
        then dropLast (\<lambda>selected i. sm_LogType (strategy ! (indices ! i)) \<noteq> LOGTYPE_RFC6962 \<and>
                                   canDropSafely indices i selected strategy sr)
               (length indices) sc'
        else sc'
      else sc)"

definition onlyRFC6962 :: "nat list \<Rightarrow> StrategyMember list \<Rightarrow> bool list \<Rightarrow> nat \<Rightarrow> bool" where
  "onlyRFC6962 indices strategy selected i \<longleftrightarrow>
     \<not> (\<exists>j \<in> {0..<length indices}. j \<noteq> i \<and> selected ! j \<and>
            sm_LogType (strategy ! (indices ! j)) = LOGTYPE_RFC6962)"

definition preferStatic ::
  "SubmissionRequest \<Rightarrow> nat list \<Rightarrow> StrategyMember list \<Rightarrow> bool list \<times> int \<Rightarrow> bool list \<times> int" where
  "preferStatic sr indices strategy sc =
     (if sr_PreferAtLeastOneStaticSCT sr \<and> \<not> hasSelected LOGTYPE_STATIC indices (fst sc) strategy
      then let sc' = addFirst LOGTYPE_STATIC indices strategy sc in
        if sr_SCTs sr < snd sc'
        then dropLast (\<lambda>selected i.
                 \<not> (sr_RequireAtLeastOneRFC6962SCT sr \<and>
                    sm_LogType (strategy ! (indices ! i)) = LOGTYPE_RFC6962 \<and>
                    onlyRFC6962 indices strategy selected i) \<and>
                 sm_LogType (strategy ! (indices ! i)) \<noteq> LOGTYPE_STATIC \<and>
                 canDropSafely indices i selected strategy sr)
               (length indices) sc'
        else sc'
      else sc)"

fun fillRemaining :: "int \<Rightarrow> bool list \<Rightarrow> int \<Rightarrow> bool list" where
  "fillRemaining k [] count = []"
| "fillRemaining k (b # bs) count =
     (if k \<le> count then b # bs
      else if \<not> b then True # fillRemaining k bs (count + 1)
      else b # fillRemaining k bs count)"

text \<open>The mask of the entries trimToQuorum keeps.\<close>

definition trimSelection :: "quorumState \<Rightarrow> SubmissionRequest \<Rightarrow> StrategyMember list \<Rightarrow> bool list" where
  "trimSelection qs sr strategy =
     (let indices = qs_strategyIndices qs;
          sc1 = pickOperators strategy (sr_SCTs sr) indices 0 {};
          sc2 = ensureRFC6962 sr indices strategy sc1;
          sc3 = preferStatic sr indices strategy sc2
      in fillRemaining (sr_SCTs sr) (fst sc3) (snd sc3))"

definition notNeeded :: string where
  "notNeeded = ''Submission successful, but not needed for quorum''"

definition trimToQuorum ::
  "quorumState \<Rightarrow> SubmissionRequest \<Rightarrow> StrategyMember list \<Rightarrow> quorumState \<times> StrategyMember list" where
  "trimToQuorum qs sr strategy =
     (if int (length (qs_responses qs)) \<le> sr_SCTs sr then (qs, strategy)
      else let selected = trimSelection qs sr strategy in
        (qs\<lparr>qs_responses := keep selected (qs_responses qs),
            qs_scts := keep selected (qs_scts qs),
            qs_strategyIndices := keep selected (qs_strategyIndices qs)\<rparr>,
         fold (\<lambda>si strat. strat[si := (strat ! si)\<lparr>sm_Outcome := notNeeded\<rparr>])
           (keep (map Not selected) (qs_strategyIndices qs)) strategy))"

end
