(* ===== verification/Orchestrate.thy ===== *)
theory Orchestrate
  imports Quorum
begin

text \<open>
  submitter/orchestrate.go: the coordinator of one submission. Its local variables are the record
  \<open>submitState\<close>; the point its goroutine has reached is \<open>control\<close>. Launching a goroutine
  appends its strategy index to \<open>st_spawned\<close>; the goroutines themselves and the event channel
  are in Submit_Log and Submit_System. \<open>elapsed n\<close> is the reading of \<open>time.Since(start)\<close> at
  the \<open>n\<close>-th launch.
\<close>

section \<open>Events and state\<close>

datatype submissionEventType = eventSuccess | eventFailure | eventTryNext | eventSlow

text \<open>Response and SCT are read for successes only; other events carry zero values there.\<close>

record submissionEvent =
  ev_strategyIdx :: nat
  ev_eventType :: submissionEventType
  ev_response :: addChainResponse
  ev_sct :: sct
  ev_outcome :: string
  ev_timeTaken :: duration

type_synonym submitResult = "(addChainResponse list \<times> sct list) outcome"

datatype control =
    Looping
  | DrainingQuorum
  | DrainingCtx go_error
  | Returned submitResult

record submitState =
  st_strategy :: "StrategyMember list"
  st_qs :: quorumState
  st_inFlight :: int
  st_inFlightIndices :: "nat set"
  st_slowInFlightIndices :: "nat set"
  st_launchSeq :: nat
  st_spawned :: "nat list"
  st_slowRecorded :: "string list"
  st_cancelCause :: "go_error option"
  st_control :: control

definition isFinal :: "submissionEvent \<Rightarrow> bool" where
  "isFinal ev \<longleftrightarrow> ev_eventType ev = eventSuccess \<or> ev_eventType ev = eventFailure"

text \<open>Writing one field of strategy[idx].\<close>

definition setBeganAfter :: "nat \<Rightarrow> duration \<Rightarrow> StrategyMember list \<Rightarrow> StrategyMember list" where
  "setBeganAfter idx d strategy = strategy[idx := (strategy ! idx)\<lparr>sm_BeganAfter := d\<rparr>]"

definition setTimeTaken :: "nat \<Rightarrow> duration \<Rightarrow> StrategyMember list \<Rightarrow> StrategyMember list" where
  "setTimeTaken idx d strategy = strategy[idx := (strategy ! idx)\<lparr>sm_TimeTaken := d\<rparr>]"

definition setOutcome :: "nat \<Rightarrow> string \<Rightarrow> StrategyMember list \<Rightarrow> StrategyMember list" where
  "setOutcome idx msg strategy = strategy[idx := (strategy ! idx)\<lparr>sm_Outcome := msg\<rparr>]"

text \<open>Writing the outcome of every position of a set, in whatever order the map is ranged over.\<close>

definition setOutcomes :: "nat set \<Rightarrow> string \<Rightarrow> StrategyMember list \<Rightarrow> StrategyMember list" where
  "setOutcomes A msg strategy =
     map (\<lambda>idx. if idx \<in> A then (strategy ! idx)\<lparr>sm_Outcome := msg\<rparr> else strategy ! idx)
       [0..<length strategy]"

section \<open>Launching\<close>

definition launchEligible :: "(nat \<Rightarrow> duration) \<Rightarrow> nat list \<Rightarrow> nat \<Rightarrow> submitState \<Rightarrow> submitState" where
  "launchEligible elapsed eligible eligibleIdx s =
     (let strategyIdx = eligible ! eligibleIdx in
      s\<lparr>st_inFlight := st_inFlight s + 1,
        st_inFlightIndices := insert strategyIdx (st_inFlightIndices s),
        st_launchSeq := st_launchSeq s + 1,
        st_strategy := setBeganAfter strategyIdx (elapsed (st_launchSeq s + 1)) (st_strategy s),
        st_spawned := st_spawned s @ [strategyIdx]\<rparr>)"

text \<open>BeganAfter is zero exactly for the logs no submission was started to.\<close>

definition unattempted :: "nat list \<Rightarrow> submitState \<Rightarrow> nat \<Rightarrow> bool" where
  "unattempted eligible s i \<longleftrightarrow> sm_BeganAfter (st_strategy s ! (eligible ! i)) = 0"

definition ensureLogType ::
  "(nat \<Rightarrow> duration) \<Rightarrow> nat list \<Rightarrow> int \<Rightarrow> LogType \<Rightarrow> submitState \<Rightarrow> submitState" where
  "ensureLogType elapsed eligible initialBatch logType s =
     (if initialBatch \<le> int (st_launchSeq s) then s
      else case findIdx (\<lambda>i. unattempted eligible s i \<and>
                sm_LogType (st_strategy s ! (eligible ! i)) = logType) (length eligible) of
        None \<Rightarrow> s
      | Some i \<Rightarrow> launchEligible elapsed eligible i s)"

fun launchInOrder :: "(nat \<Rightarrow> duration) \<Rightarrow> nat list \<Rightarrow> int \<Rightarrow> nat list \<Rightarrow> submitState \<Rightarrow> submitState" where
  "launchInOrder elapsed eligible initialBatch [] s = s"
| "launchInOrder elapsed eligible initialBatch (i # is) s =
     (if int (st_launchSeq s) < initialBatch
      then launchInOrder elapsed eligible initialBatch is
             (if unattempted eligible s i then launchEligible elapsed eligible i s else s)
      else s)"

definition initialBatchSize :: "SubmissionRequest \<Rightarrow> nat list \<Rightarrow> int" where
  "initialBatchSize sr eligible =
     (if int (length eligible) < sr_SCTs sr then int (length eligible) else sr_SCTs sr)"

definition launchInitialBatch ::
  "SubmissionRequest \<Rightarrow> (nat \<Rightarrow> duration) \<Rightarrow> nat list \<Rightarrow> submitState \<Rightarrow> submitState" where
  "launchInitialBatch sr elapsed eligible s =
     (let n = initialBatchSize sr eligible;
          s1 = (if sr_RequireAtLeastOneRFC6962SCT sr
                then ensureLogType elapsed eligible n LOGTYPE_RFC6962 s else s);
          s2 = (if sr_PreferAtLeastOneStaticSCT sr
                then ensureLogType elapsed eligible n LOGTYPE_STATIC s1 else s1)
      in launchInOrder elapsed eligible n [0..<length eligible] s2)"

definition startNextEligible ::
  "SubmissionRequest \<Rightarrow> (nat \<Rightarrow> duration) \<Rightarrow> nat list \<Rightarrow> submitState \<Rightarrow> submitState" where
  "startNextEligible sr elapsed eligible s =
     (let strategy = st_strategy s; qs = st_qs s; inFlightIndices = st_inFlightIndices s;
          needRFC6962 = (sr_RequireAtLeastOneRFC6962SCT sr \<and> \<not> qs_hasRFC6962SCT qs \<and>
            \<not> (\<exists>idx \<in> inFlightIndices. sm_LogType (strategy ! idx) = LOGTYPE_RFC6962));
          needStatic = (sr_PreferAtLeastOneStaticSCT sr \<and> \<not> qs_hasStaticSCT qs \<and>
            \<not> (\<exists>idx \<in> inFlightIndices. sm_LogType (strategy ! idx) = LOGTYPE_STATIC));
          helps = (\<lambda>i. wouldHelp qs sr (strategy ! (eligible ! i)) strategy inFlightIndices);
          preferred =
            (if needRFC6962 \<or> needStatic
             then findIdx (\<lambda>i. unattempted eligible s i \<and>
               (needRFC6962 \<and> sm_LogType (strategy ! (eligible ! i)) = LOGTYPE_RFC6962 \<or>
                needStatic \<and> sm_LogType (strategy ! (eligible ! i)) = LOGTYPE_STATIC) \<and> helps i)
               (length eligible)
             else None)
      in case preferred of
           Some i \<Rightarrow> launchEligible elapsed eligible i s
         | None \<Rightarrow>
             (case findIdx (\<lambda>i. unattempted eligible s i \<and> helps i) (length eligible) of
                Some i \<Rightarrow> launchEligible elapsed eligible i s
              | None \<Rightarrow> s))"

section \<open>Returning\<close>

text \<open>The deferred function: eligible logs without an outcome were not contacted.\<close>

definition annotateUnattempted :: "nat list \<Rightarrow> StrategyMember list \<Rightarrow> StrategyMember list" where
  "annotateUnattempted eligible strategy =
     fold (\<lambda>idx strat. if sm_Outcome (strat ! idx) = []
                       then setOutcome idx ''Submission not attempted'' strat else strat)
       eligible strategy"

definition returnWith :: "nat list \<Rightarrow> submitResult \<Rightarrow> submitState \<Rightarrow> submitState" where
  "returnWith eligible r s =
     s\<lparr>st_strategy := annotateUnattempted eligible (st_strategy s), st_control := Returned r\<rparr>"

definition returnTrimmed :: "SubmissionRequest \<Rightarrow> nat list \<Rightarrow> submitState \<Rightarrow> submitState" where
  "returnTrimmed sr eligible s =
     (case trimToQuorum (st_qs s) sr (st_strategy s) of
        (qs, strategy) \<Rightarrow>
          returnWith eligible (Ok (qs_responses qs, qs_scts qs)) (s\<lparr>st_qs := qs, st_strategy := strategy\<rparr>))"

text \<open>After the loop: the safety check for a met quorum, or the failure.\<close>

definition loopExit :: "SubmissionRequest \<Rightarrow> nat list \<Rightarrow> submitState \<Rightarrow> submitState" where
  "loopExit sr eligible s =
     (if isQuorumMet (st_qs s) sr then returnTrimmed sr eligible s
      else returnWith eligible
             (Err (Errorf (''quorum not achieved: '' @ quorumFailureReason (st_qs s) sr))) s)"

definition loopCheck :: "SubmissionRequest \<Rightarrow> nat list \<Rightarrow> submitState \<Rightarrow> submitState" where
  "loopCheck sr eligible s = (if 0 < st_inFlight s then s else loopExit sr eligible s)"

section \<open>The event loop\<close>

definition completeInFlight :: "submissionEvent \<Rightarrow> submitState \<Rightarrow> submitState" where
  "completeInFlight ev s =
     s\<lparr>st_inFlight := st_inFlight s - 1,
       st_inFlightIndices := st_inFlightIndices s - {ev_strategyIdx ev},
       st_slowInFlightIndices := st_slowInFlightIndices s - {ev_strategyIdx ev},
       st_strategy := setTimeTaken (ev_strategyIdx ev) (ev_timeTaken ev) (st_strategy s)\<rparr>"

definition recordSuccess :: "SubmissionRequest \<Rightarrow> submissionEvent \<Rightarrow> submitState \<Rightarrow> submitState" where
  "recordSuccess sr ev s =
     (let idx = ev_strategyIdx ev in
      if helpsQuorum (st_qs s) sr (st_strategy s ! idx)
      then let strategy = setOutcome idx (ev_outcome ev) (st_strategy s) in
        s\<lparr>st_strategy := strategy, st_qs := addSuccess (st_qs s) strategy idx (ev_response ev) (ev_sct ev)\<rparr>
      else s\<lparr>st_strategy :=
             setOutcome idx ''Submission successful, but doesn't help quorum'' (st_strategy s)\<rparr>)"

text \<open>The quorum is met: mark what is in flight, cancel, drain, trim, return.\<close>

definition quorumReached :: "SubmissionRequest \<Rightarrow> nat list \<Rightarrow> submitState \<Rightarrow> submitState" where
  "quorumReached sr eligible s =
     (let s' = s\<lparr>st_strategy := setOutcomes (st_inFlightIndices s \<union> st_slowInFlightIndices s)
                   ''Submission cancelled (quorum met)'' (st_strategy s),
                 st_cancelCause := Some QuorumMetCause\<rparr>
      in if 0 < st_inFlight s' then s'\<lparr>st_control := DrainingQuorum\<rparr>
         else returnTrimmed sr eligible s')"

definition handleSuccess ::
  "SubmissionRequest \<Rightarrow> (nat \<Rightarrow> duration) \<Rightarrow> nat list \<Rightarrow> submissionEvent \<Rightarrow> submitState \<Rightarrow> submitState" where
  "handleSuccess sr elapsed eligible ev s =
     (let s1 = recordSuccess sr ev (completeInFlight ev s) in
      if isQuorumMet (st_qs s1) sr then quorumReached sr eligible s1
      else loopCheck sr eligible
             (if st_inFlight s1 = 0 then startNextEligible sr elapsed eligible s1 else s1))"

definition handleFailure ::
  "SubmissionRequest \<Rightarrow> (nat \<Rightarrow> duration) \<Rightarrow> nat list \<Rightarrow> submissionEvent \<Rightarrow> submitState \<Rightarrow> submitState" where
  "handleFailure sr elapsed eligible ev s =
     (let s0 = completeInFlight ev s;
          s1 = s0\<lparr>st_strategy := setOutcome (ev_strategyIdx ev) (ev_outcome ev) (st_strategy s0)\<rparr>
      in loopCheck sr eligible
           (if st_inFlight s1 = 0 then startNextEligible sr elapsed eligible s1 else s1))"

definition handleTryNext ::
  "SubmissionRequest \<Rightarrow> (nat \<Rightarrow> duration) \<Rightarrow> nat list \<Rightarrow> submissionEvent \<Rightarrow> submitState \<Rightarrow> submitState" where
  "handleTryNext sr elapsed eligible ev s =
     (let s1 = s\<lparr>st_inFlightIndices := st_inFlightIndices s - {ev_strategyIdx ev},
                 st_slowInFlightIndices := insert (ev_strategyIdx ev) (st_slowInFlightIndices s)\<rparr>
      in loopCheck sr eligible (startNextEligible sr elapsed eligible s1))"

definition handleSlow :: "SubmissionRequest \<Rightarrow> nat list \<Rightarrow> submissionEvent \<Rightarrow> submitState \<Rightarrow> submitState" where
  "handleSlow sr eligible ev s =
     loopCheck sr eligible
       (s\<lparr>st_slowRecorded := st_slowRecorded s @
            [sm_SubmissionURL (st_strategy s ! ev_strategyIdx ev)]\<rparr>)"

text \<open>The two drain loops. The one after a cancelled request also fills empty outcomes.\<close>

definition drainQuorum :: "SubmissionRequest \<Rightarrow> nat list \<Rightarrow> submissionEvent \<Rightarrow> submitState \<Rightarrow> submitState" where
  "drainQuorum sr eligible ev s =
     (let s1 = (if isFinal ev
                then s\<lparr>st_inFlight := st_inFlight s - 1,
                       st_strategy := setTimeTaken (ev_strategyIdx ev) (ev_timeTaken ev) (st_strategy s)\<rparr>
                else s)
      in if 0 < st_inFlight s1 then s1 else returnTrimmed sr eligible s1)"

definition drainCtx :: "go_error \<Rightarrow> nat list \<Rightarrow> submissionEvent \<Rightarrow> submitState \<Rightarrow> submitState" where
  "drainCtx e eligible ev s =
     (let idx = ev_strategyIdx ev;
          s1 = (if isFinal ev
                then let strategy = setTimeTaken idx (ev_timeTaken ev) (st_strategy s) in
                  s\<lparr>st_inFlight := st_inFlight s - 1,
                    st_strategy := (if sm_Outcome (strategy ! idx) = []
                                    then setOutcome idx (ev_outcome ev) strategy else strategy)\<rparr>
                else s)
      in if 0 < st_inFlight s1 then s1 else returnWith eligible (Err e) s1)"

text \<open>One event received from the channel.\<close>

definition receiveEvent ::
  "SubmissionRequest \<Rightarrow> (nat \<Rightarrow> duration) \<Rightarrow> nat list \<Rightarrow> submissionEvent \<Rightarrow> submitState \<Rightarrow> submitState" where
  "receiveEvent sr elapsed eligible ev s =
     (case st_control s of
        Looping \<Rightarrow>
          (case ev_eventType ev of
             eventSuccess \<Rightarrow> handleSuccess sr elapsed eligible ev s
           | eventFailure \<Rightarrow> handleFailure sr elapsed eligible ev s
           | eventTryNext \<Rightarrow> handleTryNext sr elapsed eligible ev s
           | eventSlow \<Rightarrow> handleSlow sr eligible ev s)
      | DrainingQuorum \<Rightarrow> drainQuorum sr eligible ev s
      | DrainingCtx e \<Rightarrow> drainCtx e eligible ev s
      | Returned r \<Rightarrow> s)"

text \<open>The select sees ctx.Done() with error \<open>e\<close>.\<close>

definition ctxDone :: "go_error \<Rightarrow> submitState \<Rightarrow> submitState" where
  "ctxDone e s =
     (case st_control s of
        Looping \<Rightarrow> s\<lparr>st_cancelCause := Some e, st_control := DrainingCtx e\<rparr>
      | _ \<Rightarrow> s)"

section \<open>Starting\<close>

definition eligibleLogs :: "StrategyMember list \<Rightarrow> nat list" where
  "eligibleLogs strategy = filter (\<lambda>i. sm_Bucket (strategy ! i) \<noteq> EXCLUDED) [0..<length strategy]"

fun apiPathOf :: "logEntryType \<Rightarrow> string option" where
  "apiPathOf X509LogEntryType = Some ''ct/v1/add-chain''"
| "apiPathOf PrecertLogEntryType = Some ''ct/v1/add-pre-chain''"
| "apiPathOf (OtherLogEntryType n) = None"

definition initState :: "StrategyMember list \<Rightarrow> submitState" where
  "initState strategy =
     \<lparr>st_strategy = strategy, st_qs = newQuorumState, st_inFlight = 0, st_inFlightIndices = {},
      st_slowInFlightIndices = {}, st_launchSeq = 0, st_spawned = [], st_slowRecorded = [],
      st_cancelCause = None, st_control = Looping\<rparr>"

text \<open>
  submit up to the first receive: the early errors (which leave the strategy alone), then the
  initial batch. \<open>ctxErr\<close> is ctx.Err() on entry, \<open>marshal\<close> the JSON encoding of the chain.
\<close>

definition submitStart ::
  "go_error option \<Rightarrow> (bytes list \<Rightarrow> go_error + bytes) \<Rightarrow> (nat \<Rightarrow> duration) \<Rightarrow>
     SubmissionRequest \<Rightarrow> StrategyMember list \<Rightarrow> logEntryType \<Rightarrow> submitState" where
  "submitStart ctxErr marshal elapsed sr strategy entryType =
     (let s = initState strategy; eligible = eligibleLogs strategy in
      case ctxErr of
        Some e \<Rightarrow> s\<lparr>st_control := Returned (Err e)\<rparr>
      | None \<Rightarrow>
          (case apiPathOf entryType of
             None \<Rightarrow> s\<lparr>st_control := Returned (Err (Errorf ''unsupported log entry type''))\<rparr>
           | Some apiPath \<Rightarrow>
               (case marshal (sr_Chain sr) of
                  Inl e \<Rightarrow> s\<lparr>st_control := Returned (Err (Errorf (''failed to marshal submission request: '' @ errorString e)))\<rparr>
                | Inr requestBody \<Rightarrow>
                    if eligible = []
                    then s\<lparr>st_control := Returned (Err (Errorf ''no eligible logs in strategy''))\<rparr>
                    else loopCheck sr eligible (launchInitialBatch sr elapsed eligible s))))"

text \<open>A run of the coordinator over what its select receives.\<close>

datatype submitInput = Received submissionEvent | CtxDone go_error

fun submitStep ::
  "SubmissionRequest \<Rightarrow> (nat \<Rightarrow> duration) \<Rightarrow> nat list \<Rightarrow> submitInput \<Rightarrow> submitState \<Rightarrow> submitState" where
  "submitStep sr elapsed eligible (Received ev) s = receiveEvent sr elapsed eligible ev s"
| "submitStep sr elapsed eligible (CtxDone e) s = ctxDone e s"

definition submitRun ::
  "SubmissionRequest \<Rightarrow> (nat \<Rightarrow> duration) \<Rightarrow> nat list \<Rightarrow> submitInput list \<Rightarrow> submitState \<Rightarrow> submitState" where
  "submitRun sr elapsed eligible inputs s = fold (submitStep sr elapsed eligible) inputs s"

end
