(* ===== verification/Config.thy ===== *)
theory Config
  imports Prelude
begin

text \<open>
  config/config.go: the settings, their defaults, validation and the response format names.
  The nested structs are one record whose field names are the paths of the fields. Reading the
  file and the environment is viper's; what the code adds are the defaults and validate.
\<close>

record Settings =
  server_WebserverPort :: int
  server_WebserverPath :: string
  server_MonitoringPort :: int
  server_MonitoringAddress :: string
  server_MonitoringPath :: string
  server_EnableDebugEndpoints :: bool
  server_SocketPermissions :: nat
  server_ReadTimeout :: duration
  server_IdleTimeout :: duration
  server_DisableKeepalive :: bool
  server_RequestTimeout :: duration
  server_LivezTimeout :: duration
  server_ReadyzTimeout :: duration
  server_RememberBusyTimeout :: duration
  server_MetricsTimeout :: duration
  excluded_Operators :: "string list"
  excluded_LogURLRegex :: "string list"
  preferred_Operators :: "string list"
  preferred_LogURLRegex :: "string list"
  uptime_SubmitEndpoint24h :: float64
  uptime_LowestEndpoint90d :: float64
  backoff_BadResponsePeriod :: duration
  backoff_TimeoutPeriod :: duration
  backoff_Default5xxPeriod :: duration
  backoff_Default4xxPeriod :: duration
  backoff_SlowResponsePeriod :: duration
  submission_TryNextResponseThreshold :: duration
  submission_SlowResponseThreshold :: duration
  submission_HTTPTimeout :: duration
  strategy_TestLogListFilename :: string
  sthMonitor_RefreshInterval :: duration
  sthMonitor_HTTPTimeout :: duration
  uptimeFetcher_RefreshInterval :: duration
  uptimeFetcher_HTTPTimeout :: duration
  response_DefaultFormat :: string
  response_JsonPrettyPrint :: bool
  response_IncludeLogResponses :: bool
  response_IncludeSCTList :: bool
  response_ProduceFinalTBSCert :: bool
  logging_IsDevelopment :: bool
  logging_Level :: string
  logging_SamplingInitial :: int
  logging_SamplingThereafter :: int
  logging_XFFUseFirstIPAddress :: bool

text \<open>validate returns the message of the first check that fails, in the order of the switch.\<close>

definition validate :: "Settings \<Rightarrow> string option" where
  "validate s =
     (if fltLess (uptime_SubmitEndpoint24h s) (Finite 0) \<or> fltLess (Finite 100) (uptime_SubmitEndpoint24h s)
      then Some ''strategy.uptimeThreshold.submitEndpoint24h must be between 0 and 100''
      else if fltLess (uptime_LowestEndpoint90d s) (Finite 99) \<or> fltLess (Finite 100) (uptime_LowestEndpoint90d s)
      then Some ''strategy.uptimeThreshold.lowestEndpoint90d must be between 99 and 100''
      else if backoff_BadResponsePeriod s < 0
      then Some ''strategy.backoff.badResponsePeriod must be non-negative''
      else if backoff_TimeoutPeriod s < 0
      then Some ''strategy.backoff.timeoutPeriod must be non-negative''
      else if backoff_Default5xxPeriod s < 0
      then Some ''strategy.backoff.default5xxPeriod must be non-negative''
      else if backoff_Default4xxPeriod s < 0
      then Some ''strategy.backoff.default4xxPeriod must be non-negative''
      else if backoff_SlowResponsePeriod s < 0
      then Some ''strategy.backoff.slowResponsePeriod must be non-negative''
      else if submission_TryNextResponseThreshold s \<le> 0
      then Some ''strategy.submission.tryNextResponseThreshold must be positive''
      else if submission_SlowResponseThreshold s \<le> 0
      then Some ''strategy.submission.slowResponseThreshold must be positive''
      else if submission_HTTPTimeout s \<le> 0
      then Some ''strategy.submission.httpTimeout must be positive''
      else if sthMonitor_RefreshInterval s \<le> 0
      then Some ''sthMonitor.refreshInterval must be positive''
      else if sthMonitor_HTTPTimeout s \<le> 0
      then Some ''sthMonitor.httpTimeout must be positive''
      else if uptimeFetcher_RefreshInterval s \<le> 0
      then Some ''uptimeFetcher.refreshInterval must be positive''
      else if uptimeFetcher_HTTPTimeout s \<le> 0
      then Some ''uptimeFetcher.httpTimeout must be positive''
      else if \<not> response_IncludeLogResponses s \<and> \<not> response_IncludeSCTList s \<and> \<not> response_ProduceFinalTBSCert s
      then Some (''at least one of response.includeLogResponses, response.includeSCTList, '' @
                 ''response.produceFinalTBSCert must be true'')
      else None)"

definition minute :: duration where "minute = 60 * second"

definition maxInt :: int where "maxInt = 2 ^ 63 - 1"

text \<open>The values initViper sets as defaults; keys without a default keep Go's zero value.\<close>

definition defaultSettings :: Settings where
  "defaultSettings =
     \<lparr>server_WebserverPort = 8080, server_WebserverPath = [], server_MonitoringPort = 8081,
      server_MonitoringAddress = [], server_MonitoringPath = [], server_EnableDebugEndpoints = False,
      server_SocketPermissions = 384, server_ReadTimeout = 30 * second, server_IdleTimeout = 30 * second,
      server_DisableKeepalive = False, server_RequestTimeout = 30 * second,
      server_LivezTimeout = 500 * millisecond, server_ReadyzTimeout = 500 * millisecond,
      server_RememberBusyTimeout = 5 * second, server_MetricsTimeout = 8 * second,
      excluded_Operators = [], excluded_LogURLRegex = [], preferred_Operators = [],
      preferred_LogURLRegex = [], uptime_SubmitEndpoint24h = Finite 95,
      uptime_LowestEndpoint90d = Finite (9925 / 100), backoff_BadResponsePeriod = minute,
      backoff_TimeoutPeriod = minute, backoff_Default5xxPeriod = minute,
      backoff_Default4xxPeriod = minute, backoff_SlowResponsePeriod = minute,
      submission_TryNextResponseThreshold = 500 * millisecond,
      submission_SlowResponseThreshold = 2 * second, submission_HTTPTimeout = 15 * second,
      strategy_TestLogListFilename = [], sthMonitor_RefreshInterval = 30 * second,
      sthMonitor_HTTPTimeout = 15 * second, uptimeFetcher_RefreshInterval = 30 * minute,
      uptimeFetcher_HTTPTimeout = 15 * second, response_DefaultFormat = [],
      response_JsonPrettyPrint = False, response_IncludeLogResponses = True,
      response_IncludeSCTList = False, response_ProduceFinalTBSCert = False,
      logging_IsDevelopment = False, logging_Level = [], logging_SamplingInitial = maxInt,
      logging_SamplingThereafter = maxInt, logging_XFFUseFirstIPAddress = False\<rparr>"

text \<open>Load: the settings viper unmarshals (or its error), then validate.\<close>

definition Load :: "go_error + Settings \<Rightarrow> go_error + Settings" where
  "Load unmarshalled =
     (case unmarshalled of
        Inl e \<Rightarrow> Inl e
      | Inr s \<Rightarrow> (case validate s of Some msg \<Rightarrow> Inl (Errorf msg) | None \<Rightarrow> Inr s))"

text \<open>The zero value of ResponseFormat is HTML; -1 is the invalid format.\<close>

datatype ResponseFormat = RESPONSEFORMAT_HTML | RESPONSEFORMAT_JSON | RESPONSEFORMAT_INVALID

definition DefaultResponseFormat :: ResponseFormat where
  "DefaultResponseFormat = RESPONSEFORMAT_JSON"

definition ParseResponseFormat :: "string \<Rightarrow> ResponseFormat" where
  "ParseResponseFormat format =
     (if toLower format = ''html'' then RESPONSEFORMAT_HTML
      else if toLower format = ''json'' then RESPONSEFORMAT_JSON
      else RESPONSEFORMAT_INVALID)"

text \<open>What the rest of the program may rely on once Load has returned the settings.\<close>

definition settingsOK :: "Settings \<Rightarrow> bool" where
  "settingsOK s \<longleftrightarrow>
     0 \<le> backoff_BadResponsePeriod s \<and> 0 \<le> backoff_TimeoutPeriod s \<and> 0 \<le> backoff_Default5xxPeriod s \<and>
     0 \<le> backoff_Default4xxPeriod s \<and> 0 \<le> backoff_SlowResponsePeriod s \<and>
     0 < submission_TryNextResponseThreshold s \<and> 0 < submission_SlowResponseThreshold s \<and>
     0 < submission_HTTPTimeout s \<and> 0 < sthMonitor_RefreshInterval s \<and> 0 < sthMonitor_HTTPTimeout s \<and>
     0 < uptimeFetcher_RefreshInterval s \<and> 0 < uptimeFetcher_HTTPTimeout s \<and>
     (response_IncludeLogResponses s \<or> response_IncludeSCTList s \<or> response_ProduceFinalTBSCert s)"

lemma validate_None_settingsOK: "validate s = None \<Longrightarrow> settingsOK s"
  by (simp add: validate_def settingsOK_def split: if_splits)

lemma Load_settingsOK: "Load u = Inr s \<Longrightarrow> settingsOK s"
  by (auto simp: Load_def validate_None_settingsOK split: sum.splits option.splits)

lemma Load_default: "Load (Inr defaultSettings) = Inr defaultSettings"
  by (simp add: Load_def validate_def defaultSettings_def minute_def second_def millisecond_def)

definition percentFrom :: "rat \<Rightarrow> float64 \<Rightarrow> bool" where
  "percentFrom lo p \<longleftrightarrow> p = NaN \<or> (\<exists>q. p = Finite q \<and> lo \<le> q \<and> q \<le> 100)"

text \<open>
  Load returns settings exactly when they could be read and every range holds: the thresholds
  are percentages in their range (or NaN, which the range checks let through), the back-off periods
  are not negative, the timers and time-outs are positive and at least one kind of output is on.
\<close>

theorem load_settings:
  "Load unmarshalled = Inr s \<longleftrightarrow>
     unmarshalled = Inr s \<and> settingsOK s \<and> percentFrom 0 (uptime_SubmitEndpoint24h s) \<and> percentFrom 99 (uptime_LowestEndpoint90d s)"
proof -
  have range: "\<not> fltLess p (Finite lo) \<and> \<not> fltLess (Finite 100) p \<longleftrightarrow> percentFrom lo p" for p lo
    by (cases p) (auto simp: percentFrom_def)
  have "validate s = None \<longleftrightarrow> settingsOK s \<and> percentFrom 0 (uptime_SubmitEndpoint24h s) \<and> percentFrom 99 (uptime_LowestEndpoint90d s)"
    unfolding range [symmetric] by (auto simp: validate_def settingsOK_def)
  then show ?thesis by (auto simp: Load_def split: sum.split option.split)
qed

end
