(* ===== verification/Monitor_State.thy ===== *)
theory Monitor_State
  imports CT_Types Config
begin

text \<open>
  monitor/monitor.go: the runtime state the monitor keeps per log URL, one map per Go map, and
  its construction. The entries of the maps are the records of backoffHandler.go, sthMonitor.go,
  uptimeFetcher.go and metrics.go. A map entry of EndpointUptimes that is present but nil is
  \<open>Some None\<close>. url.JoinPath(u, "/") is the parameter \<open>joinSlash\<close>.
\<close>

record backoffEntry =
  bo_BackoffUntil :: time
  bo_BackoffPeriod :: duration
  bo_StatusCode :: int

definition emptyBackoff :: backoffEntry where
  "emptyBackoff = \<lparr>bo_BackoffUntil = zeroTime, bo_BackoffPeriod = 0, bo_StatusCode = 0\<rparr>"

text \<open>The key and the verifier of a log are kept as its public key bytes.\<close>

record STHData =
  sth_IsRFC6962Log :: bool
  sth_SubmissionURL :: string
  sth_KeyName :: string
  sth_Verifier :: bytes
  sth_TreeSize :: nat
  sth_Timestamp :: "time option"
  sth_LastFetched :: "time option"

record EndpointUptimes =
  up_Lowest :: float64
  up_AddChain :: float64
  up_AddPreChain :: float64
  up_GetEntries :: float64
  up_GetProofByHash :: float64
  up_GetRoots :: float64
  up_GetSTH :: float64
  up_GetSTHConsistency :: float64
  up_Checkpoint :: float64
  up_Tile :: float64

record outcomeSample =
  os_at :: time
  os_success :: bool

record responseTimeSample =
  rs_at :: time
  rs_duration :: duration

record Monitor =
  mon_cfg :: Settings
  mon_backoffBadResponse :: "string \<rightharpoonup> backoffEntry"
  mon_backoffTimeout :: "string \<rightharpoonup> backoffEntry"
  mon_backoff5xx :: "string \<rightharpoonup> backoffEntry"
  mon_backoff4xx :: "string \<rightharpoonup> backoffEntry"
  mon_backoffSlowResponse :: "string \<rightharpoonup> backoffEntry"
  mon_sthData :: "string \<rightharpoonup> STHData"
  mon_uptime24h :: "string \<rightharpoonup> EndpointUptimes option"
  mon_uptime90d :: "string \<rightharpoonup> EndpointUptimes option"
  mon_outcomeSamples :: "string \<rightharpoonup> outcomeSample list"
  mon_responseTimeSamples :: "string \<rightharpoonup> responseTimeSample list"

text \<open>The log lists whose logs are monitored, in order: crt.sh active, then the custom test list.\<close>

definition monitoredLogLists :: "logList \<Rightarrow> logList option \<Rightarrow> logList list" where
  "monitoredLogLists crtshActive customTestLogs =
     [crtshActive] @ (case customTestLogs of None \<Rightarrow> [] | Some ll \<Rightarrow> [ll])"

text \<open>The submission URLs of all monitored logs, in the order of the nested loops.\<close>

definition monitoredSubmissionURLs :: "(string \<Rightarrow> string) \<Rightarrow> logList list \<Rightarrow> string list" where
  "monitoredSubmissionURLs joinSlash lls =
     concat (map (\<lambda>ll. concat (map (\<lambda>oper.
       map (\<lambda>l. joinSlash (log_URL l)) (op_Logs oper) @
       map (\<lambda>t. joinSlash (tl_SubmissionURL t)) (op_TiledLogs oper)) ll)) lls)"

definition initBackoffEntries :: "Monitor \<Rightarrow> string \<Rightarrow> Monitor" where
  "initBackoffEntries m u =
     m\<lparr>mon_backoffBadResponse := (mon_backoffBadResponse m)(u \<mapsto> emptyBackoff),
       mon_backoffTimeout := (mon_backoffTimeout m)(u \<mapsto> emptyBackoff),
       mon_backoff5xx := (mon_backoff5xx m)(u \<mapsto> emptyBackoff),
       mon_backoff4xx := (mon_backoff4xx m)(u \<mapsto> emptyBackoff),
       mon_backoffSlowResponse := (mon_backoffSlowResponse m)(u \<mapsto> emptyBackoff)\<rparr>"

definition initBackoffMaps :: "(string \<Rightarrow> string) \<Rightarrow> logList list \<Rightarrow> Monitor \<Rightarrow> Monitor" where
  "initBackoffMaps joinSlash lls m =
     fold (\<lambda>u m. initBackoffEntries m u) (monitoredSubmissionURLs joinSlash lls) m"

definition initializeUptimeMap ::
  "(string \<Rightarrow> string) \<Rightarrow> logList list \<Rightarrow> (string \<rightharpoonup> EndpointUptimes option) \<Rightarrow> (string \<rightharpoonup> EndpointUptimes option)" where
  "initializeUptimeMap joinSlash lls up =
     fold (\<lambda>u up. up(u \<mapsto> None)) (monitoredSubmissionURLs joinSlash lls) up"

definition initUptimeMaps :: "(string \<Rightarrow> string) \<Rightarrow> logList list \<Rightarrow> Monitor \<Rightarrow> Monitor" where
  "initUptimeMaps joinSlash lls m =
     m\<lparr>mon_uptime24h := initializeUptimeMap joinSlash lls (mon_uptime24h m),
       mon_uptime90d := initializeUptimeMap joinSlash lls (mon_uptime90d m)\<rparr>"

text \<open>checkpointKeyName (sthMonitor.go): the origin a static log's checkpoints must name.\<close>

definition checkpointKeyName :: "string \<Rightarrow> string" where
  "checkpointKeyName submissionURL =
     trimRight (trimPrefix (trimPrefix submissionURL ''https://'') ''http://'') CHR ''/''"

text \<open>
  initSTHData (sthMonitor.go). \<open>rfcKeyOK\<close> says that a log's key parses and yields a signature
  verifier, \<open>staticKeyOK\<close> that it does so under the expected checkpoint name; logs whose key
  does not are skipped.
\<close>

definition initSTHLog ::
  "(string \<Rightarrow> string) \<Rightarrow> (bytes \<Rightarrow> bool) \<Rightarrow> ctLog \<Rightarrow> (string \<rightharpoonup> STHData) \<Rightarrow> (string \<rightharpoonup> STHData)" where
  "initSTHLog joinSlash rfcKeyOK l sths =
     (if \<not> rfcKeyOK (log_Key l) then sths
      else let logURL = joinSlash (log_URL l) in
        sths(logURL \<mapsto> \<lparr>sth_IsRFC6962Log = True, sth_SubmissionURL = logURL, sth_KeyName = [],
                        sth_Verifier = log_Key l, sth_TreeSize = 0, sth_Timestamp = None,
                        sth_LastFetched = None\<rparr>))"

definition initSTHTiledLog ::
  "(string \<Rightarrow> string) \<Rightarrow> (string \<Rightarrow> bytes \<Rightarrow> bool) \<Rightarrow> tiledLog \<Rightarrow> (string \<rightharpoonup> STHData) \<Rightarrow> (string \<rightharpoonup> STHData)" where
  "initSTHTiledLog joinSlash staticKeyOK t sths =
     (let submissionURL = joinSlash (tl_SubmissionURL t);
          monitoringURL = joinSlash (tl_MonitoringURL t);
          keyName = checkpointKeyName (tl_SubmissionURL t)
      in if \<not> staticKeyOK keyName (tl_Key t) then sths
         else sths(monitoringURL \<mapsto> \<lparr>sth_IsRFC6962Log = False, sth_SubmissionURL = submissionURL,
                        sth_KeyName = keyName, sth_Verifier = tl_Key t, sth_TreeSize = 0,
                        sth_Timestamp = None, sth_LastFetched = None\<rparr>))"

definition initSTHData ::
  "(string \<Rightarrow> string) \<Rightarrow> (bytes \<Rightarrow> bool) \<Rightarrow> (string \<Rightarrow> bytes \<Rightarrow> bool) \<Rightarrow> logList list \<Rightarrow> Monitor \<Rightarrow> Monitor" where
  "initSTHData joinSlash rfcKeyOK staticKeyOK lls m =
     m\<lparr>mon_sthData :=
       fold (\<lambda>ll. fold (\<lambda>oper sths.
           fold (initSTHTiledLog joinSlash staticKeyOK) (op_TiledLogs oper)
             (fold (initSTHLog joinSlash rfcKeyOK) (op_Logs oper) sths)) ll)
         lls (mon_sthData m)\<rparr>"

definition newMonitor ::
  "Settings \<Rightarrow> (string \<Rightarrow> string) \<Rightarrow> (bytes \<Rightarrow> bool) \<Rightarrow> (string \<Rightarrow> bytes \<Rightarrow> bool) \<Rightarrow> logList list \<Rightarrow> Monitor" where
  "newMonitor cfg joinSlash rfcKeyOK staticKeyOK lls =
     initUptimeMaps joinSlash lls
       (initSTHData joinSlash rfcKeyOK staticKeyOK lls
         (initBackoffMaps joinSlash lls
           \<lparr>mon_cfg = cfg, mon_backoffBadResponse = Map.empty, mon_backoffTimeout = Map.empty,
            mon_backoff5xx = Map.empty, mon_backoff4xx = Map.empty,
            mon_backoffSlowResponse = Map.empty, mon_sthData = Map.empty,
            mon_uptime24h = Map.empty, mon_uptime90d = Map.empty,
            mon_outcomeSamples = Map.empty, mon_responseTimeSamples = Map.empty\<rparr>))"

end
