(* ===== verification/Backoff.thy ===== *)
theory Backoff
  imports Monitor_State
begin

text \<open>
  monitor/backoffHandler.go: the five back-off caches. Recording a failure extends the log's
  back-off deadline, never shortens it; reading it gives the time left and a reason. Each clock
  reading of the code is an argument; \<open>parseDate\<close> and \<open>fmtTime\<close> stand for parsing and printing
  a time in RFC 1123 form.
\<close>

section \<open>Retry-After\<close>

text \<open>strconv.Atoi: an optional sign and decimal digits, within the range of a 64-bit int.\<close>

definition isDigit :: "char \<Rightarrow> bool" where
  "isDigit c \<longleftrightarrow> 48 \<le> (of_char c :: nat) \<and> (of_char c :: nat) \<le> 57"

definition digitsValue :: "string \<Rightarrow> int" where
  "digitsValue ds = foldl (\<lambda>v c. 10 * v + (of_char c - 48)) 0 ds"

definition atoi :: "string \<Rightarrow> int option" where
  "atoi s =
     (let neg = (s \<noteq> [] \<and> hd s = CHR ''-'');
          ds = (if s \<noteq> [] \<and> (hd s = CHR ''-'' \<or> hd s = CHR ''+'') then tl s else s);
          v = (if neg then - digitsValue ds else digitsValue ds)
      in if ds = [] \<or> \<not> list_all isDigit ds then None
         else if v < - (2 ^ 63) \<or> 2 ^ 63 \<le> v then None else Some v)"

text \<open>
  A response carries its status code and the value of its Retry-After header (empty if absent).
  The product of the seconds and time.Second is a 64-bit multiplication.
\<close>

record httpHeaders =
  hh_StatusCode :: int
  hh_RetryAfter :: string

definition parseRetryAfter :: "(string \<Rightarrow> time option) \<Rightarrow> time \<Rightarrow> string \<Rightarrow> duration" where
  "parseRetryAfter parseDate now retryAfter =
     (if retryAfter = [] then 0
      else case atoi retryAfter of
        Some seconds \<Rightarrow>
          if 0 < seconds then wrap64 (seconds * second)
          else (case parseDate retryAfter of
                  Some t \<Rightarrow> if 0 < timeSub t now then timeSub t now else 0
                | None \<Rightarrow> 0)
      | None \<Rightarrow> (case parseDate retryAfter of
                  Some t \<Rightarrow> if 0 < timeSub t now then timeSub t now else 0
                | None \<Rightarrow> 0))"

section \<open>Recording\<close>

definition entryOf :: "(string \<rightharpoonup> backoffEntry) \<Rightarrow> string \<Rightarrow> backoffEntry" where
  "entryOf c u = (case c u of None \<Rightarrow> emptyBackoff | Some e \<Rightarrow> e)"

definition RecordBadResponse :: "time \<Rightarrow> string \<Rightarrow> Monitor \<Rightarrow> Monitor" where
  "RecordBadResponse now u m =
     (let boBad = entryOf (mon_backoffBadResponse m) u;
          backoffUntil = now + backoff_BadResponsePeriod (mon_cfg m)
      in m\<lparr>mon_backoffBadResponse := (mon_backoffBadResponse m)(u \<mapsto>
            (if bo_BackoffUntil boBad < backoffUntil
             then boBad\<lparr>bo_BackoffUntil := backoffUntil,
                        bo_BackoffPeriod := backoff_BadResponsePeriod (mon_cfg m)\<rparr>
             else boBad))\<rparr>)"

definition RecordTimeout :: "time \<Rightarrow> string \<Rightarrow> Monitor \<Rightarrow> Monitor" where
  "RecordTimeout now u m =
     (let boTimeout = entryOf (mon_backoffTimeout m) u;
          backoffUntil = now + backoff_TimeoutPeriod (mon_cfg m)
      in m\<lparr>mon_backoffTimeout := (mon_backoffTimeout m)(u \<mapsto>
            (if bo_BackoffUntil boTimeout < backoffUntil
             then boTimeout\<lparr>bo_BackoffUntil := backoffUntil,
                            bo_BackoffPeriod := backoff_TimeoutPeriod (mon_cfg m)\<rparr>
             else boTimeout))\<rparr>)"

definition backoff5xxDuration :: "(string \<Rightarrow> time option) \<Rightarrow> time \<Rightarrow> Monitor \<Rightarrow> httpHeaders \<Rightarrow> duration" where
  "backoff5xxDuration parseDate now m r =
     (let retryAfter = parseRetryAfter parseDate now (hh_RetryAfter r)
      in if 0 < retryAfter then retryAfter else backoff_Default5xxPeriod (mon_cfg m))"

definition Record5xxResponse ::
  "(string \<Rightarrow> time option) \<Rightarrow> httpHeaders \<Rightarrow> time \<Rightarrow> time \<Rightarrow> string \<Rightarrow> Monitor \<Rightarrow> Monitor" where
  "Record5xxResponse parseDate r nowParse now u m =
     (let backoffDuration = backoff5xxDuration parseDate nowParse m r;
          bo5xx = entryOf (mon_backoff5xx m) u;
          backoffUntil = now + backoffDuration
      in m\<lparr>mon_backoff5xx := (mon_backoff5xx m)(u \<mapsto>
            (if bo_BackoffUntil bo5xx < backoffUntil
             then bo5xx\<lparr>bo_BackoffUntil := backoffUntil, bo_BackoffPeriod := backoffDuration,
                        bo_StatusCode := hh_StatusCode r\<rparr>
             else bo5xx))\<rparr>)"

definition backoff4xxDuration :: "(string \<Rightarrow> time option) \<Rightarrow> time \<Rightarrow> Monitor \<Rightarrow> httpHeaders \<Rightarrow> duration" where
  "backoff4xxDuration parseDate now m r =
     (let retryAfter = parseRetryAfter parseDate now (hh_RetryAfter r)
      in if 0 < retryAfter then retryAfter else backoff_Default4xxPeriod (mon_cfg m))"

definition Record4xxResponse ::
  "(string \<Rightarrow> time option) \<Rightarrow> httpHeaders \<Rightarrow> time \<Rightarrow> time \<Rightarrow> string \<Rightarrow> Monitor \<Rightarrow> Monitor" where
  "Record4xxResponse parseDate r nowParse now u m =
     (let backoffDuration = backoff4xxDuration parseDate nowParse m r;
          bo4xx = entryOf (mon_backoff4xx m) u;
          backoffUntil = now + backoffDuration
      in m\<lparr>mon_backoff4xx := (mon_backoff4xx m)(u \<mapsto>
            (if bo_BackoffUntil bo4xx < backoffUntil
             then bo4xx\<lparr>bo_BackoffUntil := backoffUntil, bo_BackoffPeriod := backoffDuration,
                        bo_StatusCode := hh_StatusCode r\<rparr>
             else bo4xx))\<rparr>)"

definition RecordSlowResponse :: "time \<Rightarrow> string \<Rightarrow> Monitor \<Rightarrow> Monitor" where
  "RecordSlowResponse now u m =
     (let boSlow = entryOf (mon_backoffSlowResponse m) u;
          backoffUntil = now + backoff_SlowResponsePeriod (mon_cfg m)
      in m\<lparr>mon_backoffSlowResponse := (mon_backoffSlowResponse m)(u \<mapsto>
            (if bo_BackoffUntil boSlow < backoffUntil
             then boSlow\<lparr>bo_BackoffUntil := backoffUntil,
                         bo_BackoffPeriod := backoff_SlowResponsePeriod (mon_cfg m)\<rparr>
             else boSlow))\<rparr>)"

section \<open>Reading\<close>

text \<open>\<open>now\<close> is read for the expiry test, \<open>now'\<close> for the time left.\<close>

definition GetBadResponseBackoff ::
  "(time \<Rightarrow> string) \<Rightarrow> time \<Rightarrow> time \<Rightarrow> Monitor \<Rightarrow> string \<Rightarrow> duration \<times> string" where
  "GetBadResponseBackoff fmtTime now now' m u =
     (case mon_backoffBadResponse m u of
        None \<Rightarrow> (0, [])
      | Some boBad \<Rightarrow>
          if bo_BackoffUntil boBad < now then (0, [])
          else (timeSub (bo_BackoffUntil boBad) now',
                ''Backoff until '' @ fmtTime (bo_BackoffUntil boBad) @ '' due to recent bad response''))"

definition GetTimeoutBackoff ::
  "(time \<Rightarrow> string) \<Rightarrow> time \<Rightarrow> time \<Rightarrow> Monitor \<Rightarrow> string \<Rightarrow> duration \<times> string" where
  "GetTimeoutBackoff fmtTime now now' m u =
     (case mon_backoffTimeout m u of
        None \<Rightarrow> (0, [])
      | Some boTimeout \<Rightarrow>
          if bo_BackoffUntil boTimeout < now then (0, [])
          else (timeSub (bo_BackoffUntil boTimeout) now',
                ''Backoff until '' @ fmtTime (bo_BackoffUntil boTimeout) @ '' due to recent timeout''))"

definition Get5xxBackoff ::
  "(time \<Rightarrow> string) \<Rightarrow> time \<Rightarrow> time \<Rightarrow> Monitor \<Rightarrow> string \<Rightarrow> duration \<times> string \<times> int" where
  "Get5xxBackoff fmtTime now now' m u =
     (case mon_backoff5xx m u of
        None \<Rightarrow> (0, [], 0)
      | Some bo5xx \<Rightarrow>
          if bo_BackoffUntil bo5xx < now then (0, [], 0)
          else (timeSub (bo_BackoffUntil bo5xx) now',
                ''Backoff until '' @ fmtTime (bo_BackoffUntil bo5xx) @ '' due to HTTP '' @
                  showInt (bo_StatusCode bo5xx),
                bo_StatusCode bo5xx))"

definition Get4xxBackoff ::
  "(time \<Rightarrow> string) \<Rightarrow> time \<Rightarrow> time \<Rightarrow> Monitor \<Rightarrow> string \<Rightarrow> duration \<times> string \<times> int" where
  "Get4xxBackoff fmtTime now now' m u =
     (case mon_backoff4xx m u of
        None \<Rightarrow> (0, [], 0)
      | Some bo4xx \<Rightarrow>
          if bo_BackoffUntil bo4xx < now then (0, [], 0)
          else (timeSub (bo_BackoffUntil bo4xx) now',
                ''Backoff until '' @ fmtTime (bo_BackoffUntil bo4xx) @ '' due to HTTP '' @
                  showInt (bo_StatusCode bo4xx),
                bo_StatusCode bo4xx))"

definition GetSlowResponseBackoff ::
  "(time \<Rightarrow> string) \<Rightarrow> time \<Rightarrow> time \<Rightarrow> Monitor \<Rightarrow> string \<Rightarrow> duration \<times> string" where
  "GetSlowResponseBackoff fmtTime now now' m u =
     (case mon_backoffSlowResponse m u of
        None \<Rightarrow> (0, [])
      | Some boSlow \<Rightarrow>
          if bo_BackoffUntil boSlow < now then (0, [])
          else (timeSub (bo_BackoffUntil boSlow) now',
                ''Recent timeout/slow response backoff in effect (backoff until '' @
                  fmtTime (bo_BackoffUntil boSlow) @ '')''))"

section \<open>The contract of a back-off cache\<close>

text \<open>
  What the strategy relies on: recording at \<open>now\<close> moves the log's deadline to the later of the
  old deadline and \<open>now\<close> plus the chosen span, touches no other log, and the time left is
  positive exactly while the deadline is ahead of both clock readings.
\<close>

locale backoff_cache =
  fixes cache :: "Monitor \<Rightarrow> string \<Rightarrow> backoffEntry option"
    and put :: "'r \<Rightarrow> time \<Rightarrow> string \<Rightarrow> Monitor \<Rightarrow> Monitor"
    and span :: "'r \<Rightarrow> Monitor \<Rightarrow> duration"
    and left :: "time \<Rightarrow> time \<Rightarrow> Monitor \<Rightarrow> string \<Rightarrow> duration"
  assumes put_until: "\<exists>e. cache (put r now u m) u = Some e \<and>
      bo_BackoffUntil e = max (bo_BackoffUntil (entryOf (cache m) u)) (now + span r m)"
    and put_other: "v \<noteq> u \<Longrightarrow> cache (put r now u m) v = cache m v"
    and put_cfg: "mon_cfg (put r now u m) = mon_cfg m"
    and span_cfg: "mon_cfg m' = mon_cfg m \<Longrightarrow> span r m' = span r m"
    and left_pos: "0 < left now now' m u \<longleftrightarrow>
      (\<exists>e. cache m u = Some e \<and> now \<le> bo_BackoffUntil e \<and> now' < bo_BackoffUntil e)"
begin

lemma deadline_extends:
  "bo_BackoffUntil (entryOf (cache m) v) \<le> bo_BackoffUntil (entryOf (cache (put r now u m)) v)"
proof (cases "v = u")
  case True
  then show ?thesis using put_until [of r now u m] by (auto simp: entryOf_def)
next
  case False
  then show ?thesis using put_other [OF False] by (simp add: entryOf_def)
qed

lemma known_stays: "cache m v \<noteq> None \<Longrightarrow> cache (put r now u m) v \<noteq> None"
  using put_until [of r now u m] put_other [of v u r now m] by (cases "v = u") auto

text \<open>A back-off in force is still in force after any further recording.\<close>

lemma in_force_stays:
  assumes "0 < left t t' m v"
  shows "0 < left t t' (put r now u m) v"
proof -
  from assms obtain e where e: "cache m v = Some e" "t \<le> bo_BackoffUntil e" "t' < bo_BackoffUntil e"
    by (auto simp: left_pos)
  then obtain e' where "cache (put r now u m) v = Some e'" using known_stays by blast
  then show ?thesis
    using deadline_extends [of m v r now u] e by (auto simp: left_pos entryOf_def)
qed

text \<open>Recording puts the log in back-off for the whole span.\<close>

lemma in_force_after_put:
  "t \<le> now + span r m \<Longrightarrow> t' < now + span r m \<Longrightarrow> 0 < left t t' (put r now u m) u"
  using put_until [of r now u m] by (auto simp: left_pos)

text \<open>After the last deadline the log is out of back-off.\<close>

lemma expired: "bo_BackoffUntil (entryOf (cache m) u) < t \<Longrightarrow> \<not> 0 < left t t' m u"
  by (auto simp: left_pos entryOf_def)

lemma puts_in_force:
  "0 < left t t' m v \<Longrightarrow> 0 < left t t' (fold (\<lambda>(r, now, u). put r now u) rs m) v"
  by (induction rs arbitrary: m) (auto simp: in_force_stays)

end

interpretation badResponse: backoff_cache mon_backoffBadResponse "\<lambda>_ :: unit. RecordBadResponse"
  "\<lambda>_ m. backoff_BadResponsePeriod (mon_cfg m)" "\<lambda>t t' m u. fst (GetBadResponseBackoff fmtTime t t' m u)"
  by unfold_locales
    (auto simp: RecordBadResponse_def GetBadResponseBackoff_def Let_def split: option.splits)

interpretation timeout: backoff_cache mon_backoffTimeout "\<lambda>_ :: unit. RecordTimeout"
  "\<lambda>_ m. backoff_TimeoutPeriod (mon_cfg m)" "\<lambda>t t' m u. fst (GetTimeoutBackoff fmtTime t t' m u)"
  by unfold_locales
    (auto simp: RecordTimeout_def GetTimeoutBackoff_def Let_def split: option.splits)

interpretation http5xx: backoff_cache mon_backoff5xx "\<lambda>(r, n). Record5xxResponse parseDate r n"
  "\<lambda>(r, n) m. backoff5xxDuration parseDate n m r" "\<lambda>t t' m u. fst (Get5xxBackoff fmtTime t t' m u)"
  by unfold_locales
    (auto simp: Record5xxResponse_def Get5xxBackoff_def backoff5xxDuration_def Let_def split: option.splits)

interpretation http4xx: backoff_cache mon_backoff4xx "\<lambda>(r, n). Record4xxResponse parseDate r n"
  "\<lambda>(r, n) m. backoff4xxDuration parseDate n m r" "\<lambda>t t' m u. fst (Get4xxBackoff fmtTime t t' m u)"
  by unfold_locales
    (auto simp: Record4xxResponse_def Get4xxBackoff_def backoff4xxDuration_def Let_def split: option.splits)

interpretation slowResponse: backoff_cache mon_backoffSlowResponse "\<lambda>_ :: unit. RecordSlowResponse"
  "\<lambda>_ m. backoff_SlowResponsePeriod (mon_cfg m)" "\<lambda>t t' m u. fst (GetSlowResponseBackoff fmtTime t t' m u)"
  by unfold_locales
    (auto simp: RecordSlowResponse_def GetSlowResponseBackoff_def Let_def split: option.splits)

section \<open>Retry-After values\<close>

lemma parseRetryAfter_seconds:
  "s \<noteq> [] \<Longrightarrow> atoi s = Some n \<Longrightarrow> 0 < n \<Longrightarrow> n * second < 2 ^ 63 \<Longrightarrow> parseRetryAfter parseDate now s = n * second"
  by (simp add: parseRetryAfter_def second_def wrap64_def)

lemma parseRetryAfter_unusable:
  "s = [] \<or> (atoi s = None \<and> parseDate s = None) \<Longrightarrow> parseRetryAfter parseDate now s = 0"
  by (auto simp: parseRetryAfter_def)

end
