(* ===== verification/STH_Monitor.thy ===== *)
theory STH_Monitor
  imports Backoff
begin

text \<open>
  monitor/sthMonitor.go: fetching tree heads and checkpoints. An HTTP exchange is the error of
  the client (with whether IsTimeoutError recognises it) or a response; the parsing and signature
  functions of the CT libraries are parameters that return an error or the parsed fields. Every
  failure is recorded as a back-off for the log's submission URL; only a verified tree head is
  stored.
\<close>

record httpResponse =
  hr_StatusCode :: int
  hr_RetryAfter :: string
  hr_Body :: "go_error + bytes"

text \<open>
  utils.IsTimeoutError: errors.As finds the first error of the chain that is a net.Error;
  \<open>Some t\<close> is such an error whose Timeout method returns \<open>t\<close>.
\<close>

record clientError =
  ce_Text :: string
  ce_Chain :: "bool option list"

definition IsTimeoutError :: "clientError \<Rightarrow> bool" where
  "IsTimeoutError err =
     (case List.find (\<lambda>x. x \<noteq> None) (ce_Chain err) of Some (Some t) \<Rightarrow> t | _ \<Rightarrow> False)"

type_synonym httpExchange = "clientError + httpResponse"

definition headersOf :: "httpResponse \<Rightarrow> httpHeaders" where
  "headersOf r = \<lparr>hh_StatusCode = hr_StatusCode r, hh_RetryAfter = hr_RetryAfter r\<rparr>"

text \<open>fetchResource: the body of a 200 response, or the failure recorded and nothing.\<close>

definition fetchResource ::
  "(string \<Rightarrow> time option) \<Rightarrow> time \<Rightarrow> string \<Rightarrow> httpExchange option \<Rightarrow> Monitor \<Rightarrow> Monitor \<times> bytes option" where
  "fetchResource parseDate now u exchange m =
     (case exchange of
        None \<Rightarrow> (m, None)
      | Some (Inl err) \<Rightarrow>
          (if IsTimeoutError err then RecordTimeout now u m else RecordBadResponse now u m, None)
      | Some (Inr resp) \<Rightarrow>
          if hr_StatusCode resp \<noteq> 200 then
            (if 500 \<le> hr_StatusCode resp \<and> hr_StatusCode resp < 600
             then Record5xxResponse parseDate (headersOf resp) now now u m
             else if 400 \<le> hr_StatusCode resp \<and> hr_StatusCode resp < 500
             then Record4xxResponse parseDate (headersOf resp) now now u m
             else RecordBadResponse now u m, None)
          else (case hr_Body resp of
                  Inl _ \<Rightarrow> (RecordBadResponse now u m, None)
                | Inr body \<Rightarrow> (m, Some body)))"

record getSTHResponse =
  gs_TreeSize :: nat
  gs_Timestamp :: "64 word"

definition storeTreeHead :: "string \<Rightarrow> nat \<Rightarrow> time \<Rightarrow> time \<Rightarrow> Monitor \<Rightarrow> Monitor" where
  "storeTreeHead key treeSize fetched timestamp m =
     (case mon_sthData m key of
        None \<Rightarrow> m
      | Some sd \<Rightarrow> m\<lparr>mon_sthData := (mon_sthData m)(key \<mapsto>
          sd\<lparr>sth_TreeSize := treeSize, sth_LastFetched := Some fetched, sth_Timestamp := Some timestamp\<rparr>)\<rparr>)"

text \<open>
  fetchSTH: unmarshal, convert to a signed tree head, verify its signature under the log's key,
  store. The stored timestamp is time.UnixMilli(int64(Timestamp)).
\<close>

definition fetchSTH ::
  "(string \<Rightarrow> time option) \<Rightarrow> (bytes \<Rightarrow> go_error + getSTHResponse) \<Rightarrow> (getSTHResponse \<Rightarrow> go_error + 'sth) \<Rightarrow>
     (bytes \<Rightarrow> 'sth \<Rightarrow> go_error option) \<Rightarrow> time \<Rightarrow> string \<Rightarrow> STHData \<Rightarrow> httpExchange option \<Rightarrow> Monitor \<Rightarrow> Monitor" where
  "fetchSTH parseDate unmarshal toSTH verify now logURL sd exchange m =
     (case fetchResource parseDate now logURL exchange m of
        (m', None) \<Rightarrow> m'
      | (m', Some body) \<Rightarrow>
          (case unmarshal body of
             Inl _ \<Rightarrow> RecordBadResponse now (sth_SubmissionURL sd) m'
           | Inr resp \<Rightarrow>
               (case toSTH resp of
                  Inl _ \<Rightarrow> RecordBadResponse now (sth_SubmissionURL sd) m'
                | Inr sth \<Rightarrow>
                    (case verify (sth_Verifier sd) sth of
                       Some _ \<Rightarrow> RecordBadResponse now (sth_SubmissionURL sd) m'
                     | None \<Rightarrow>
                         storeTreeHead logURL (gs_TreeSize resp) now (unixMilli (sint (gs_Timestamp resp))) m'))))"

record checkpoint =
  cp_Origin :: string
  cp_N :: nat

text \<open>
  fetchCheckpoint: open the note under the log's verifier, require a verified signature, parse
  the checkpoint, require its origin to be the log's name, read the signature's timestamp, store.
  \<open>openNote\<close> gives the note's text and its verified signatures.
\<close>

definition fetchCheckpoint ::
  "(string \<Rightarrow> time option) \<Rightarrow> (bytes \<Rightarrow> string \<Rightarrow> bytes \<Rightarrow> go_error + (string \<times> bytes list)) \<Rightarrow>
     (string \<Rightarrow> go_error + checkpoint) \<Rightarrow> (bytes \<Rightarrow> go_error + int) \<Rightarrow>
     time \<Rightarrow> string \<Rightarrow> string \<Rightarrow> STHData \<Rightarrow> httpExchange option \<Rightarrow> Monitor \<Rightarrow> Monitor" where
  "fetchCheckpoint parseDate openNote parseCheckpoint sigTimestamp now submissionURL monitoringURL sd exchange m =
     (case fetchResource parseDate now submissionURL exchange m of
        (m', None) \<Rightarrow> m'
      | (m', Some body) \<Rightarrow>
          (case openNote (sth_Verifier sd) (sth_KeyName sd) body of
             Inl _ \<Rightarrow> RecordBadResponse now (sth_SubmissionURL sd) m'
           | Inr (noteText, sigs) \<Rightarrow>
               (case sigs of
                  [] \<Rightarrow> RecordBadResponse now (sth_SubmissionURL sd) m'
                | sig # _ \<Rightarrow>
                    (case parseCheckpoint noteText of
                       Inl _ \<Rightarrow> RecordBadResponse now (sth_SubmissionURL sd) m'
                     | Inr cp \<Rightarrow>
                         if cp_Origin cp \<noteq> sth_KeyName sd
                         then RecordBadResponse now (sth_SubmissionURL sd) m'
                         else (case sigTimestamp sig of
                                 Inl _ \<Rightarrow> RecordBadResponse now (sth_SubmissionURL sd) m'
                               | Inr millis \<Rightarrow>
                                   storeTreeHead monitoringURL (cp_N cp) now (unixMilli millis) m')))))"

text \<open>GetSTHData returns a copy of the entry.\<close>

definition GetSTHData :: "Monitor \<Rightarrow> string \<Rightarrow> STHData option" where
  "GetSTHData m u = mon_sthData m u"

section \<open>Only verified tree heads are stored\<close>

lemma Record_sthData [simp]:
  "mon_sthData (RecordBadResponse now u m) = mon_sthData m"
  "mon_sthData (RecordTimeout now u m) = mon_sthData m"
  "mon_sthData (Record5xxResponse pd r n now u m) = mon_sthData m"
  "mon_sthData (Record4xxResponse pd r n now u m) = mon_sthData m"
  "mon_sthData (RecordSlowResponse now u m) = mon_sthData m"
  by (simp_all add: RecordBadResponse_def RecordTimeout_def Record5xxResponse_def Record4xxResponse_def
      RecordSlowResponse_def Let_def)

lemma fetchResource_sthData:
  "fetchResource parseDate now u exchange m = (m', body) \<Longrightarrow> mon_sthData m' = mon_sthData m"
  by (auto simp: fetchResource_def split: option.splits sum.splits if_splits)

text \<open>A body is only returned, with the monitor unchanged, for a 200 response.\<close>

lemma fetchResource_body:
  "fetchResource parseDate now u exchange m = (m', Some body) \<Longrightarrow>
     \<exists>resp. exchange = Some (Inr resp) \<and> hr_StatusCode resp = 200 \<and> hr_Body resp = Inr body \<and> m' = m"
  by (auto simp: fetchResource_def split: option.splits sum.splits if_splits)

lemma storeTreeHead_key: "mon_sthData (storeTreeHead k n f t m) key \<noteq> mon_sthData m key \<Longrightarrow> key = k"
  by (auto simp: storeTreeHead_def split: option.splits if_splits)

lemma fetchSTH_verified:
  assumes "mon_sthData (fetchSTH parseDate unmarshal toSTH verify now logURL sd exchange m) key \<noteq> mon_sthData m key"
  shows "key = logURL \<and> (\<exists>resp body r sth. exchange = Some (Inr resp) \<and> hr_StatusCode resp = 200 \<and>
    hr_Body resp = Inr body \<and> unmarshal body = Inr r \<and> toSTH r = Inr sth \<and> verify (sth_Verifier sd) sth = None)"
proof -
  obtain m' b where f: "fetchResource parseDate now logURL exchange m = (m', b)" by fastforce
  show ?thesis
  proof (cases b)
    case None
    then show ?thesis using assms fetchResource_sthData [OF f] f by (simp add: fetchSTH_def)
  next
    case (Some body)
    from fetchResource_body [OF f [unfolded Some]] obtain resp where r: "exchange = Some (Inr resp)"
      "hr_StatusCode resp = 200" "hr_Body resp = Inr body" "m' = m" by blast
    obtain h where h: "unmarshal body = Inr h"
      using assms f r Some by (cases "unmarshal body") (auto simp: fetchSTH_def)
    obtain sth where sth: "toSTH h = Inr sth"
      using assms f r Some h by (cases "toSTH h") (auto simp: fetchSTH_def)
    have v: "verify (sth_Verifier sd) sth = None"
      using assms f r Some h sth by (cases "verify (sth_Verifier sd) sth") (auto simp: fetchSTH_def)
    have "key = logURL"
      using assms f r Some h sth v by (intro storeTreeHead_key) (simp add: fetchSTH_def)
    with r h sth v show ?thesis by blast
  qed
qed

lemma fetchCheckpoint_verified:
  assumes "mon_sthData (fetchCheckpoint parseDate openNote parseCheckpoint sigTimestamp now subURL monURL sd exchange m) key
    \<noteq> mon_sthData m key"
  shows "key = monURL \<and> (\<exists>resp body txt0 sig sigs cp. exchange = Some (Inr resp) \<and> hr_StatusCode resp = 200 \<and>
    hr_Body resp = Inr body \<and> openNote (sth_Verifier sd) (sth_KeyName sd) body = Inr (txt0, sig # sigs) \<and>
    parseCheckpoint txt0 = Inr cp \<and> cp_Origin cp = sth_KeyName sd)"
proof -
  let ?open = "openNote (sth_Verifier sd) (sth_KeyName sd)"
  obtain m' b where f: "fetchResource parseDate now subURL exchange m = (m', b)" by fastforce
  show ?thesis
  proof (cases b)
    case None
    then show ?thesis using assms fetchResource_sthData [OF f] f by (simp add: fetchCheckpoint_def)
  next
    case (Some body)
    from fetchResource_body [OF f [unfolded Some]] obtain resp where r: "exchange = Some (Inr resp)"
      "hr_StatusCode resp = 200" "hr_Body resp = Inr body" "m' = m" by blast
    obtain txt0 sigs where n: "?open body = Inr (txt0, sigs)"
      using assms f r Some by (cases "?open body") (auto simp: fetchCheckpoint_def)
    obtain sig rest where s: "sigs = sig # rest"
      using assms f r Some n by (cases sigs) (auto simp: fetchCheckpoint_def)
    obtain cp where cp: "parseCheckpoint txt0 = Inr cp"
      using assms f r Some n s by (cases "parseCheckpoint txt0") (auto simp: fetchCheckpoint_def)
    have o: "cp_Origin cp = sth_KeyName sd"
      using assms f r Some n s cp by (cases "cp_Origin cp = sth_KeyName sd") (auto simp: fetchCheckpoint_def)
    obtain ms where ts: "sigTimestamp sig = Inr ms"
      using assms f r Some n s cp o by (cases "sigTimestamp sig") (auto simp: fetchCheckpoint_def)
    have "key = monURL"
      using assms f r Some n s cp o ts by (intro storeTreeHead_key) (simp add: fetchCheckpoint_def)
    with r n s cp o show ?thesis by blast
  qed
qed

section \<open>All tree heads, again and again\<close>

text \<open>
  FetchAllSTHs starts one goroutine per log; each works on its own entry, so a round is the list of
  the logs' URLs, clock readings and exchanges in the order in which the goroutines finish. The
  library functions are collected in \<open>sthLib\<close>.
\<close>

record 'sth sthLib =
  sl_parseDate :: "string \<Rightarrow> time option"
  sl_unmarshal :: "bytes \<Rightarrow> go_error + getSTHResponse"
  sl_toSTH :: "getSTHResponse \<Rightarrow> go_error + 'sth"
  sl_verify :: "bytes \<Rightarrow> 'sth \<Rightarrow> go_error option"
  sl_openNote :: "bytes \<Rightarrow> string \<Rightarrow> bytes \<Rightarrow> go_error + (string \<times> bytes list)"
  sl_parseCheckpoint :: "string \<Rightarrow> go_error + checkpoint"
  sl_sigTimestamp :: "bytes \<Rightarrow> go_error + int"

type_synonym sthAnswer = "string \<times> time \<times> httpExchange option"

definition fetchTreeHead :: "'sth sthLib \<Rightarrow> sthAnswer \<Rightarrow> Monitor \<Rightarrow> Monitor" where
  "fetchTreeHead lib answer m =
     (case answer of (u, now, exchange) \<Rightarrow>
       (case mon_sthData m u of
          None \<Rightarrow> m
        | Some sd \<Rightarrow>
            if sth_IsRFC6962Log sd
            then fetchSTH (sl_parseDate lib) (sl_unmarshal lib) (sl_toSTH lib) (sl_verify lib) now u sd exchange m
            else fetchCheckpoint (sl_parseDate lib) (sl_openNote lib) (sl_parseCheckpoint lib) (sl_sigTimestamp lib) now
                   (sth_SubmissionURL sd) u sd exchange m))"

definition FetchAllSTHs :: "'sth sthLib \<Rightarrow> sthAnswer list \<Rightarrow> Monitor \<Rightarrow> Monitor" where
  "FetchAllSTHs lib answers m = fold (fetchTreeHead lib) answers m"

text \<open>The loop of STHMonitor: a round whenever the timer fires, until the context is done.\<close>

datatype 'a timerEvent = TimerFired 'a | CtxDone

fun STHMonitor :: "'sth sthLib \<Rightarrow> sthAnswer list timerEvent list \<Rightarrow> Monitor \<Rightarrow> Monitor" where
  "STHMonitor lib [] m = m"
| "STHMonitor lib (TimerFired answers # events) m = STHMonitor lib events (FetchAllSTHs lib answers m)"
| "STHMonitor lib (CtxDone # events) m = m"

text \<open>A verified answer and the entry it leads to.\<close>

definition verifiedHead :: "'sth sthLib \<Rightarrow> STHData \<Rightarrow> time \<Rightarrow> bytes \<Rightarrow> STHData \<Rightarrow> bool" where
  "verifiedHead lib sd now body sd' \<longleftrightarrow>
     (if sth_IsRFC6962Log sd
      then (\<exists>r sth. sl_unmarshal lib body = Inr r \<and> sl_toSTH lib r = Inr sth \<and> sl_verify lib (sth_Verifier sd) sth = None \<and>
              sd' = sd\<lparr>sth_TreeSize := gs_TreeSize r, sth_LastFetched := Some now,
                       sth_Timestamp := Some (unixMilli (sint (gs_Timestamp r)))\<rparr>)
      else (\<exists>noteText sig sigs cp millis. sl_openNote lib (sth_Verifier sd) (sth_KeyName sd) body = Inr (noteText, sig # sigs) \<and>
              sl_parseCheckpoint lib noteText = Inr cp \<and> cp_Origin cp = sth_KeyName sd \<and> sl_sigTimestamp lib sig = Inr millis \<and>
              sd' = sd\<lparr>sth_TreeSize := cp_N cp, sth_LastFetched := Some now, sth_Timestamp := Some (unixMilli millis)\<rparr>))"

lemma storeTreeHead_Some:
  "mon_sthData m k = Some sd \<Longrightarrow> mon_sthData (storeTreeHead k n f t m) =
     (mon_sthData m)(k \<mapsto> sd\<lparr>sth_TreeSize := n, sth_LastFetched := Some f, sth_Timestamp := Some t\<rparr>)"
  by (simp add: storeTreeHead_def)

lemma fetchTreeHead_cases:
  obtains (same) "mon_sthData (fetchTreeHead lib (u, now, exchange) m) = mon_sthData m"
  | (stored) sd sd' resp body where "mon_sthData m u = Some sd" "exchange = Some (Inr resp)" "hr_StatusCode resp = 200"
      "hr_Body resp = Inr body" "verifiedHead lib sd now body sd'"
      "mon_sthData (fetchTreeHead lib (u, now, exchange) m) = (mon_sthData m)(u \<mapsto> sd')"
proof (cases "mon_sthData m u")
  case None
  then show ?thesis using same by (simp add: fetchTreeHead_def)
next
  case (Some sd)
  show ?thesis
  proof (cases "sth_IsRFC6962Log sd")
    case rfc: True
    obtain m' b where f: "fetchResource (sl_parseDate lib) now u exchange m = (m', b)" by fastforce
    note keeps = fetchResource_sthData [OF f]
    show ?thesis
    proof (cases b)
      case None
      then show ?thesis using same Some rfc f keeps by (simp add: fetchTreeHead_def fetchSTH_def)
    next
      case body: (Some body)
      from fetchResource_body [OF f [unfolded body]] obtain resp where r: "exchange = Some (Inr resp)"
        "hr_StatusCode resp = 200" "hr_Body resp = Inr body" "m' = m" by blast
      have "mon_sthData (fetchTreeHead lib (u, now, exchange) m) = mon_sthData m \<or> (\<exists>sd'. verifiedHead lib sd now body sd' \<and>
          mon_sthData (fetchTreeHead lib (u, now, exchange) m) = (mon_sthData m)(u \<mapsto> sd'))"
        using Some rfc f body r(4)
        by (simp add: fetchTreeHead_def fetchSTH_def verifiedHead_def storeTreeHead_Some split: sum.split option.split)
      then show ?thesis using same stored [OF Some r(1-3)] by blast
    qed
  next
    case static: False
    obtain m' b where f: "fetchResource (sl_parseDate lib) now (sth_SubmissionURL sd) exchange m = (m', b)" by fastforce
    note keeps = fetchResource_sthData [OF f]
    show ?thesis
    proof (cases b)
      case None
      then show ?thesis using same Some static f keeps by (simp add: fetchTreeHead_def fetchCheckpoint_def)
    next
      case body: (Some body)
      from fetchResource_body [OF f [unfolded body]] obtain resp where r: "exchange = Some (Inr resp)"
        "hr_StatusCode resp = 200" "hr_Body resp = Inr body" "m' = m" by blast
      have "mon_sthData (fetchTreeHead lib (u, now, exchange) m) = mon_sthData m \<or> (\<exists>sd'. verifiedHead lib sd now body sd' \<and>
          mon_sthData (fetchTreeHead lib (u, now, exchange) m) = (mon_sthData m)(u \<mapsto> sd'))"
        using Some static f body r(4)
        by (auto simp: fetchTreeHead_def fetchCheckpoint_def verifiedHead_def storeTreeHead_Some
            split: sum.split list.split prod.split)
      then show ?thesis using same stored [OF Some r(1-3)] by blast
    qed
  qed
qed

text \<open>What stays of an entry whatever is fetched: the log's kind, name, key and submission URL.\<close>

definition sameSTHLog :: "STHData \<Rightarrow> STHData \<Rightarrow> bool" where
  "sameSTHLog a b \<longleftrightarrow> sth_IsRFC6962Log a = sth_IsRFC6962Log b \<and> sth_SubmissionURL a = sth_SubmissionURL b \<and>
     sth_KeyName a = sth_KeyName b \<and> sth_Verifier a = sth_Verifier b"

definition answeredHead :: "'sth sthLib \<Rightarrow> sthAnswer list \<Rightarrow> string \<Rightarrow> STHData \<Rightarrow> STHData \<Rightarrow> bool" where
  "answeredHead lib answers u sd sd' \<longleftrightarrow>
     (\<exists>now resp body sd0. (u, now, Some (Inr resp)) \<in> set answers \<and> hr_StatusCode resp = 200 \<and> hr_Body resp = Inr body \<and>
        sameSTHLog sd0 sd \<and> verifiedHead lib sd0 now body sd')"

lemma verifiedHead_same: "verifiedHead lib sd now body sd' \<Longrightarrow> sameSTHLog sd' sd"
  by (auto simp: verifiedHead_def sameSTHLog_def split: if_splits)

lemma fetches_verified:
  "case mon_sthData m u of
     None \<Rightarrow> mon_sthData (fold (fetchTreeHead lib) answers m) u = None
   | Some sd \<Rightarrow> (\<exists>sd'. mon_sthData (fold (fetchTreeHead lib) answers m) u = Some sd' \<and> sameSTHLog sd' sd \<and>
       (sd' = sd \<or> answeredHead lib answers u sd sd'))"
proof (induction answers rule: rev_induct)
  case Nil
  then show ?case by (simp add: sameSTHLog_def split: option.split)
next
  case (snoc a answers)
  obtain v now exchange where a: "a = (v, now, exchange)" by (cases a) auto
  let ?m = "fold (fetchTreeHead lib) answers m"
  have mono: "answeredHead lib answers u sd sd' \<Longrightarrow> answeredHead lib (answers @ [a]) u sd sd'" for sd sd'
    by (fastforce simp: answeredHead_def)
  show ?case
  proof (cases rule: fetchTreeHead_cases [where lib = lib and u = v and now = now and exchange = exchange and m = ?m,
        case_names same stored])
    case same
    then show ?thesis using snoc.IH mono by (auto simp: a split: option.splits)
  next
    case (stored sd0 sd0' resp body)
    show ?thesis
    proof (cases "v = u")
      case False
      then show ?thesis using snoc.IH mono stored(6) by (auto simp: a split: option.splits)
    next
      case True
      then obtain sd where sd: "mon_sthData m u = Some sd" "sameSTHLog sd0 sd"
        using snoc.IH stored(1) by (auto split: option.splits)
      have "answeredHead lib (answers @ [a]) u sd sd0'"
        using stored(2-5) True sd(2) unfolding answeredHead_def a by auto
      moreover have "sameSTHLog sd0' sd" using verifiedHead_same [OF stored(5)] sd(2) by (simp add: sameSTHLog_def)
      ultimately show ?thesis using sd(1) stored(6) True by (simp add: a)
    qed
  qed
qed

text \<open>All answers of the rounds that are run before the context is done.\<close>

fun answersOf :: "'a list timerEvent list \<Rightarrow> 'a list" where
  "answersOf [] = []"
| "answersOf (TimerFired answers # events) = answers @ answersOf events"
| "answersOf (CtxDone # events) = []"

lemma STHMonitor_fold: "STHMonitor lib events m = fold (fetchTreeHead lib) (answersOf events) m"
  by (induction lib events m rule: STHMonitor.induct) (simp_all add: FetchAllSTHs_def)

end
