(* ===== verification/Samples.thy ===== *)
theory Samples
  imports Monitor_State
begin

text \<open>
  monitor/metrics.go: the sliding windows of submission outcomes and response times. The
  Prometheus counters are not modelled; the windows are what the dashboard reads back.
\<close>

definition responseTimeWindow :: duration where
  "responseTimeWindow = 30 * second"

definition samplesOf :: "(string \<rightharpoonup> 'a list) \<Rightarrow> string \<Rightarrow> 'a list" where
  "samplesOf c u = (case c u of None \<Rightarrow> [] | Some xs \<Rightarrow> xs)"

definition recordOutcomeSample :: "time \<Rightarrow> string \<Rightarrow> string \<Rightarrow> Monitor \<Rightarrow> Monitor" where
  "recordOutcomeSample now u outcome m =
     (if outcome = ''cancelled'' then m
      else let cutoff = now - responseTimeWindow;
               samples = dropWhile (\<lambda>s. os_at s < cutoff) (samplesOf (mon_outcomeSamples m) u)
        in m\<lparr>mon_outcomeSamples := (mon_outcomeSamples m)(u \<mapsto>
               samples @ [\<lparr>os_at = now, os_success = (outcome = ''success'')\<rparr>])\<rparr>)"

text \<open>RecordSubmissionOutcome increments a counter and records the sample.\<close>

definition RecordSubmissionOutcome :: "time \<Rightarrow> string \<Rightarrow> string \<Rightarrow> Monitor \<Rightarrow> Monitor" where
  "RecordSubmissionOutcome now u outcome m = recordOutcomeSample now u outcome m"

definition GetRecentOutcomeCounts :: "time \<Rightarrow> string \<Rightarrow> Monitor \<Rightarrow> (nat \<times> nat) \<times> Monitor" where
  "GetRecentOutcomeCounts now u m =
     (let cutoff = now - responseTimeWindow;
          samples = dropWhile (\<lambda>s. os_at s < cutoff) (samplesOf (mon_outcomeSamples m) u)
      in ((length (filter os_success samples), length (filter (\<lambda>s. \<not> os_success s) samples)),
          m\<lparr>mon_outcomeSamples := (mon_outcomeSamples m)(u \<mapsto> samples)\<rparr>))"

definition recordResponseTimeSample :: "time \<Rightarrow> string \<Rightarrow> duration \<Rightarrow> Monitor \<Rightarrow> Monitor" where
  "recordResponseTimeSample now u d m =
     (let cutoff = now - responseTimeWindow;
          samples = dropWhile (\<lambda>s. rs_at s < cutoff) (samplesOf (mon_responseTimeSamples m) u)
      in m\<lparr>mon_responseTimeSamples := (mon_responseTimeSamples m)(u \<mapsto>
             samples @ [\<lparr>rs_at = now, rs_duration = d\<rparr>])\<rparr>)"

definition RecordSubmissionResponseTime :: "time \<Rightarrow> string \<Rightarrow> duration \<Rightarrow> Monitor \<Rightarrow> Monitor" where
  "RecordSubmissionResponseTime now u d m = recordResponseTimeSample now u d m"

definition totalDuration :: "responseTimeSample list \<Rightarrow> duration" where
  "totalDuration samples = foldl (\<lambda>total s. wrap64 (total + rs_duration s)) 0 samples"

definition GetAvgResponseTime :: "time \<Rightarrow> string \<Rightarrow> Monitor \<Rightarrow> (duration \<times> bool) \<times> Monitor" where
  "GetAvgResponseTime now u m =
     (let cutoff = now - responseTimeWindow;
          samples = dropWhile (\<lambda>s. rs_at s < cutoff) (samplesOf (mon_responseTimeSamples m) u);
          m' = m\<lparr>mon_responseTimeSamples := (mon_responseTimeSamples m)(u \<mapsto> samples)\<rparr>
      in if samples = [] then ((0, False), m')
         else ((goDiv (totalDuration samples) (int (length samples)), True), m'))"

section \<open>The contract of a sliding window\<close>

text \<open>
  Recording drops the stale prefix and appends; reading sees the samples after a stale prefix.
  With a clock that never goes back, what is read is exactly the history of the last 30 seconds.
\<close>

locale sliding_window =
  fixes stored :: "Monitor \<Rightarrow> string \<Rightarrow> 's list"
    and stamp :: "'s \<Rightarrow> time"
    and put :: "string \<Rightarrow> 's \<Rightarrow> Monitor \<Rightarrow> Monitor"
  assumes put_stored: "stored (put u s m) u =
      dropWhile (\<lambda>x. stamp x < stamp s - responseTimeWindow) (stored m u) @ [s]"
    and put_other: "v \<noteq> u \<Longrightarrow> stored (put u s m) v = stored m v"
begin

definition window :: "time \<Rightarrow> 's list \<Rightarrow> 's list" where
  "window now hist = filter (\<lambda>s. now - responseTimeWindow \<le> stamp s) hist"

definition recent :: "time \<Rightarrow> Monitor \<Rightarrow> string \<Rightarrow> 's list" where
  "recent now m u = dropWhile (\<lambda>x. stamp x < now - responseTimeWindow) (stored m u)"

lemma dropWhile_sorted:
  "sorted (map stamp xs) \<Longrightarrow> dropWhile (\<lambda>x. stamp x < c) xs = filter (\<lambda>x. c \<le> stamp x) xs"
proof (induction xs)
  case Nil
  then show ?case by simp
next
  case (Cons x xs)
  then show ?case by (cases "stamp x < c") (auto intro!: filter_True [symmetric])
qed

lemma window_mono: "t \<le> t' \<Longrightarrow> window t' (window t hist) = window t' hist"
  by (auto simp: window_def intro: filter_cong)

text \<open>After recording a time-ordered history, the store is its window at the last sample.\<close>

lemma stored_history:
  assumes "sorted (map stamp hist)" and "stored m u = []"
  shows "stored (fold (put u) hist m) u = (if hist = [] then [] else window (stamp (last hist)) hist)"
  using assms(1)
proof (induction hist rule: rev_induct)
  case Nil
  then show ?case using assms(2) by simp
next
  case (snoc s hist)
  then have sorted: "sorted (map stamp hist)" and le: "\<forall>x \<in> set hist. stamp x \<le> stamp s"
    by (auto simp: sorted_append)
  let ?m = "fold (put u) hist m"
  have st: "stored ?m u = (if hist = [] then [] else window (stamp (last hist)) hist)"
    by (rule snoc.IH [OF sorted])
  then have "sorted (map stamp (stored ?m u))"
    using sorted by (auto simp: window_def sorted_filter)
  then have "stored (fold (put u) (hist @ [s]) m) u = window (stamp s) (stored ?m u) @ [s]"
    by (simp add: put_stored dropWhile_sorted window_def)
  also have "window (stamp s) (stored ?m u) = window (stamp s) hist"
    using st le by (auto simp: window_mono window_def [of _ "[]"])
  also have "\<dots> @ [s] = window (stamp s) (hist @ [s])"
    by (simp add: window_def responseTimeWindow_def second_def)
  finally show ?case by simp
qed

lemma recent_history:
  assumes "sorted (map stamp hist)" and "stored m u = []" and "\<forall>s \<in> set hist. stamp s \<le> now"
  shows "recent now (fold (put u) hist m) u = window now hist"
proof (cases "hist = []")
  case True
  then show ?thesis using assms by (simp add: recent_def window_def)
next
  case False
  have "sorted (map stamp (window (stamp (last hist)) hist))"
    using assms(1) by (simp add: window_def sorted_filter)
  then show ?thesis
    using False assms stored_history [OF assms(1,2)] window_mono [of "stamp (last hist)" now hist]
    by (simp add: recent_def dropWhile_sorted) (simp add: window_def)
qed

end

text \<open>The sample a call of recordOutcomeSample records.\<close>

definition putOutcome :: "string \<Rightarrow> outcomeSample \<Rightarrow> Monitor \<Rightarrow> Monitor" where
  "putOutcome u s = recordOutcomeSample (os_at s) u (if os_success s then ''success'' else ''http_error'')"

definition putResponseTime :: "string \<Rightarrow> responseTimeSample \<Rightarrow> Monitor \<Rightarrow> Monitor" where
  "putResponseTime u s = recordResponseTimeSample (rs_at s) u (rs_duration s)"

interpretation outcomes: sliding_window "\<lambda>m. samplesOf (mon_outcomeSamples m)" os_at putOutcome
  by unfold_locales (auto simp: putOutcome_def recordOutcomeSample_def samplesOf_def Let_def)

interpretation responseTimes: sliding_window "\<lambda>m. samplesOf (mon_responseTimeSamples m)" rs_at putResponseTime
  by unfold_locales (auto simp: putResponseTime_def recordResponseTimeSample_def samplesOf_def Let_def)

section \<open>Average response time\<close>

lemma totalDuration_exact:
  assumes "\<forall>s \<in> set samples. 0 \<le> rs_duration s \<and> rs_duration s \<le> D" and "0 \<le> D"
    and "D * int (length samples) < 2 ^ 63"
  shows "totalDuration samples = sum_list (map rs_duration samples)"
    and "sum_list (map rs_duration samples) \<le> D * int (length samples)"
    and "0 \<le> sum_list (map rs_duration samples)"
proof -
  have "totalDuration samples = sum_list (map rs_duration samples) \<and>
    0 \<le> sum_list (map rs_duration samples) \<and> sum_list (map rs_duration samples) \<le> D * int (length samples)"
    using assms
  proof (induction samples rule: rev_induct)
    case Nil
    then show ?case by (simp add: totalDuration_def)
  next
    case (snoc s samples)
    have le: "D * int (length samples) \<le> D * int (length (samples @ [s]))"
      using snoc.prems(2) by (simp add: mult_left_mono)
    then have IH: "totalDuration samples = sum_list (map rs_duration samples)"
      "0 \<le> sum_list (map rs_duration samples)" "sum_list (map rs_duration samples) \<le> D * int (length samples)"
      using snoc.IH snoc.prems by auto
    have bound: "sum_list (map rs_duration samples) + rs_duration s \<le> D * int (length (samples @ [s]))"
      using IH(3) snoc.prems(1) by (simp add: algebra_simps)
    have "totalDuration (samples @ [s]) = wrap64 (sum_list (map rs_duration samples) + rs_duration s)"
      using IH(1) by (simp add: totalDuration_def)
    also have "\<dots> = sum_list (map rs_duration samples) + rs_duration s"
      by (rule wrap64_id) (use bound IH(2) snoc.prems in auto)
    finally show ?case using bound IH(2) snoc.prems(1) by simp
  qed
  then show "totalDuration samples = sum_list (map rs_duration samples)"
    and "sum_list (map rs_duration samples) \<le> D * int (length samples)"
    and "0 \<le> sum_list (map rs_duration samples)" by auto
qed

end
