(* ===== verification/Submit_Log.thy ===== *)
theory Submit_Log
  imports Orchestrate STH_Monitor Samples
begin

text \<open>
  submitter/submitToLog.go: one goroutine per contacted log. It builds the request, races the
  HTTP exchange against its two one-shot timers and against cancellation, checks the response
  and sends events to the coordinator. A wake-up of its select is an atomic choice that queues
  the calls to the monitor and the sends of that branch in their order; they are then performed
  one at a time, so a send that blocks on a full channel blocks the goroutine. The functions of
  certificate-transparency-go (JSON, SCT decoding, signature verifiers) are the record \<open>ctLib\<close>.
\<close>

section \<open>What the CT library provides\<close>

datatype leafEntry = PrecertEntry bytes bytes | X509Entry bytes

record merkleLeaf =
  ml_EntryType :: logEntryType
  ml_Timestamp :: "64 word"
  ml_Entry :: leafEntry

record ctLib =
  lib_unmarshal :: "bytes \<Rightarrow> go_error + addChainResponse"
  lib_toSCT :: "addChainResponse \<Rightarrow> go_error + sct"
  lib_verifiers :: "bytes \<Rightarrow> (sct \<Rightarrow> merkleLeaf \<Rightarrow> go_error option) option"

text \<open>What was submitted: the issuer key hash (nil or not), the entry type and the entry.\<close>

record submittedEntry =
  se_sha256IssuerSPKI :: "bytes option"
  se_entryType :: logEntryType
  se_entryData :: bytes

section \<open>Checking an SCT\<close>

text \<open>Dereferencing a nil issuer key hash panics.\<close>

definition leafFor :: "submittedEntry \<Rightarrow> 64 word \<Rightarrow> merkleLeaf option" where
  "leafFor se timestamp =
     (if se_entryType se = PrecertLogEntryType
      then (case se_sha256IssuerSPKI se of
              None \<Rightarrow> None
            | Some h \<Rightarrow> Some \<lparr>ml_EntryType = se_entryType se, ml_Timestamp = timestamp,
                              ml_Entry = PrecertEntry h (se_entryData se)\<rparr>)
      else Some \<lparr>ml_EntryType = se_entryType se, ml_Timestamp = timestamp,
                 ml_Entry = X509Entry (se_entryData se)\<rparr>)"

definition verifySCTSignature :: "ctLib \<Rightarrow> sct \<Rightarrow> submittedEntry \<Rightarrow> unit outcome" where
  "verifySCTSignature lib s se =
     (case lib_verifiers lib (sct_KeyID s) of
        None \<Rightarrow> Err (Errorf ''SCT is from an unknown log'')
      | Some sv \<Rightarrow>
          (case leafFor se (sct_Timestamp s) of
             None \<Rightarrow> Panic
           | Some leaf \<Rightarrow> (case sv s leaf of Some e \<Rightarrow> Err e | None \<Rightarrow> Ok ())))"

definition inTheFuture :: "time \<Rightarrow> sct \<Rightarrow> bool" where
  "inTheFuture now s \<longleftrightarrow> now + second < unixMilli (sint (sct_Timestamp s))"

section \<open>Calls to the monitor and sends\<close>

datatype monCall =
    CallResponseTime duration
  | CallTimeout
  | CallBadResponse
  | Call5xx httpHeaders
  | Call4xx httpHeaders
  | CallOutcome string

datatype action = MonCall monCall | SendEvent submissionEvent

fun applyMonCall :: "(string \<Rightarrow> time option) \<Rightarrow> time \<Rightarrow> string \<Rightarrow> monCall \<Rightarrow> Monitor \<Rightarrow> Monitor" where
  "applyMonCall parseDate now u (CallResponseTime d) m = RecordSubmissionResponseTime now u d m"
| "applyMonCall parseDate now u CallTimeout m = RecordTimeout now u m"
| "applyMonCall parseDate now u CallBadResponse m = RecordBadResponse now u m"
| "applyMonCall parseDate now u (Call5xx r) m = Record5xxResponse parseDate r now now u m"
| "applyMonCall parseDate now u (Call4xx r) m = Record4xxResponse parseDate r now now u m"
| "applyMonCall parseDate now u (CallOutcome oc) m = RecordSubmissionOutcome now u oc m"

definition zeroResponse :: addChainResponse where
  "zeroResponse = \<lparr>acr_SCTVersion = 0, acr_ID = [], acr_Timestamp = 0, acr_Extensions = [], acr_Signature = []\<rparr>"

definition zeroSCT :: sct where
  "zeroSCT = \<lparr>sct_SCTVersion = 0, sct_KeyID = [], sct_Timestamp = 0, sct_Extensions = [], sct_Signature = []\<rparr>"

definition mkEvent :: "nat \<Rightarrow> submissionEventType \<Rightarrow> string \<Rightarrow> duration \<Rightarrow> submissionEvent" where
  "mkEvent idx ty oc d =
     \<lparr>ev_strategyIdx = idx, ev_eventType = ty, ev_response = zeroResponse, ev_sct = zeroSCT,
      ev_outcome = oc, ev_timeTaken = d\<rparr>"

definition failureEvent :: "nat \<Rightarrow> string \<Rightarrow> duration \<Rightarrow> submissionEvent" where
  "failureEvent idx oc d = mkEvent idx eventFailure oc d"

definition successEvent :: "nat \<Rightarrow> addChainResponse \<Rightarrow> sct \<Rightarrow> duration \<Rightarrow> submissionEvent" where
  "successEvent idx r s d =
     (mkEvent idx eventSuccess ''Submission successful'' d)\<lparr>ev_response := r, ev_sct := s\<rparr>"

definition cancelledSubmissionOutcome :: "go_error option \<Rightarrow> string" where
  "cancelledSubmissionOutcome cause =
     (case cause of
        Some QuorumMetCause \<Rightarrow> ''Cancelled: quorum met''
      | Some ContextDeadlineExceeded \<Rightarrow> ''Cancelled: request deadline exceeded''
      | Some ContextCanceled \<Rightarrow> ''Cancelled: request cancelled''
      | Some e \<Rightarrow> ''Cancelled: '' @ errorString e
      | None \<Rightarrow> ''Cancelled'')"

section \<open>Processing a response\<close>

text \<open>One failure branch: the monitor's back-off call, the event, the outcome counter.\<close>

definition failWith :: "nat \<Rightarrow> duration \<Rightarrow> monCall \<Rightarrow> string \<Rightarrow> string \<Rightarrow> action list" where
  "failWith idx d call oc counter =
     [MonCall call, SendEvent (failureEvent idx oc d), MonCall (CallOutcome counter)]"

text \<open>The branches after the body has been read with status 200.\<close>

definition processBody ::
  "ctLib \<Rightarrow> time \<Rightarrow> nat \<Rightarrow> bytes \<Rightarrow> submittedEntry \<Rightarrow> duration \<Rightarrow> action list outcome" where
  "processBody lib now idx body se d =
     (case lib_unmarshal lib body of
        Inl e \<Rightarrow> Ok (failWith idx d CallBadResponse (''Failed: invalid JSON response: '' @ errorString e) ''bad_response'')
      | Inr response \<Rightarrow>
          (case lib_toSCT lib response of
             Inl e \<Rightarrow> Ok (failWith idx d CallBadResponse (''Failed: could not decode SCT: '' @ errorString e) ''bad_response'')
           | Inr s \<Rightarrow>
               if inTheFuture now s
               then Ok (failWith idx d CallBadResponse
                      (''Failed: SCT timestamp in the future ('' @ showNat (unat (sct_Timestamp s)) @ '')'') ''bad_response'')
               else (case verifySCTSignature lib s se of
                       Panic \<Rightarrow> Panic
                     | Err e \<Rightarrow> Ok (failWith idx d CallBadResponse
                         (''Failed: SCT signature verification failed: '' @ errorString e) ''bad_response'')
                     | Ok _ \<Rightarrow> Ok [SendEvent (successEvent idx response s d), MonCall (CallOutcome ''success'')])))"

definition processHTTPResponse ::
  "ctLib \<Rightarrow> time \<Rightarrow> nat \<Rightarrow> httpExchange \<Rightarrow> submittedEntry \<Rightarrow> duration \<Rightarrow> action list outcome" where
  "processHTTPResponse lib now idx exchange se d =
     (let first = MonCall (CallResponseTime d) in
      case exchange of
        Inl err \<Rightarrow>
          if IsTimeoutError err
          then Ok (first # failWith idx d CallTimeout ''Failed: timeout'' ''timeout'')
          else Ok (first # failWith idx d CallBadResponse (''Failed: HTTP error: '' @ ce_Text err) ''http_error'')
      | Inr resp \<Rightarrow>
          (case hr_Body resp of
             Inl e \<Rightarrow> Ok (first # failWith idx d CallBadResponse
                 (''Failed: could not read response body: '' @ errorString e) ''bad_response'')
           | Inr body \<Rightarrow>
               if hr_StatusCode resp \<noteq> 200
               then Ok (first # failWith idx d
                   (if 500 \<le> hr_StatusCode resp \<and> hr_StatusCode resp < 600 then Call5xx (headersOf resp)
                    else if 400 \<le> hr_StatusCode resp \<and> hr_StatusCode resp < 500 then Call4xx (headersOf resp)
                    else CallBadResponse)
                   (''Failed: HTTP '' @ showInt (hr_StatusCode resp))
                   (showInt (goDiv (hr_StatusCode resp) 100) @ ''xx''))
               else (case processBody lib now idx body se d of
                       Ok acts \<Rightarrow> Ok (first # acts) | Err e \<Rightarrow> Err e | Panic \<Rightarrow> Panic)))"

section \<open>The goroutine\<close>

datatype phase = GStart | GSelect | GDone

record goroutine =
  g_idx :: nat
  g_phase :: phase
  g_tryNextArmed :: bool
  g_slowArmed :: bool
  g_tryNextSent :: bool
  g_slowSent :: bool
  g_pending :: "action list"

definition newGoroutine :: "nat \<Rightarrow> goroutine" where
  "newGoroutine idx =
     \<lparr>g_idx = idx, g_phase = GStart, g_tryNextArmed = False, g_slowArmed = False,
      g_tryNextSent = False, g_slowSent = False, g_pending = []\<rparr>"

text \<open>
  What wakes the goroutine: the errors of url.JoinPath and http.NewRequest at the start; then, in
  the select, a timer, the result of the exchange (with the clock and the time taken), or
  ctx.Done(). The wait of at most 100 ms after ctx.Done() has no effect on the state.
\<close>

datatype wakeup =
    WakeStart "go_error option" "go_error option"
  | WakeTryNext
  | WakeSlow
  | WakeHTTP time duration httpExchange
  | WakeCtxDone duration

fun wakeEnabled :: "go_error option \<Rightarrow> wakeup \<Rightarrow> goroutine \<Rightarrow> bool" where
  "wakeEnabled cause (WakeStart _ _) g = (g_pending g = [] \<and> g_phase g = GStart)"
| "wakeEnabled cause WakeTryNext g = (g_pending g = [] \<and> g_phase g = GSelect \<and> g_tryNextArmed g)"
| "wakeEnabled cause WakeSlow g = (g_pending g = [] \<and> g_phase g = GSelect \<and> g_slowArmed g)"
| "wakeEnabled cause (WakeHTTP _ _ _) g = (g_pending g = [] \<and> g_phase g = GSelect)"
| "wakeEnabled cause (WakeCtxDone _) g = (g_pending g = [] \<and> g_phase g = GSelect \<and> cause \<noteq> None)"

definition finish :: "action list \<Rightarrow> goroutine \<Rightarrow> goroutine" where
  "finish acts g = g\<lparr>g_phase := GDone, g_pending := acts\<rparr>"

definition cancelledActions :: "go_error option \<Rightarrow> nat \<Rightarrow> duration \<Rightarrow> action list" where
  "cancelledActions cause idx d =
     [SendEvent (failureEvent idx (cancelledSubmissionOutcome cause) d), MonCall (CallOutcome ''cancelled'')]"

text \<open>\<open>cause\<close> is context.Cause of the submission context, None while it is not cancelled.\<close>

fun wake :: "ctLib \<Rightarrow> submittedEntry \<Rightarrow> go_error option \<Rightarrow> wakeup \<Rightarrow> goroutine \<Rightarrow> goroutine outcome" where
  "wake lib se cause (WakeStart joinErr requestErr) g =
     Ok (case joinErr of
           Some e \<Rightarrow> finish [SendEvent (failureEvent (g_idx g)
               (''Failed: could not construct submission URL: '' @ errorString e) 0)] g
         | None \<Rightarrow>
             (case requestErr of
                Some e \<Rightarrow> finish [SendEvent (failureEvent (g_idx g)
                    (''Failed: could not create HTTP request: '' @ errorString e) 0)] g
              | None \<Rightarrow> g\<lparr>g_phase := GSelect, g_tryNextArmed := True, g_slowArmed := True\<rparr>))"
| "wake lib se cause WakeTryNext g =
     (let g' = g\<lparr>g_tryNextArmed := False\<rparr> in
      Ok (if \<not> g_tryNextSent g'
          then g'\<lparr>g_tryNextSent := True,
                  g_pending := [SendEvent (mkEvent (g_idx g) eventTryNext [] 0)]\<rparr>
          else g'))"
| "wake lib se cause WakeSlow g =
     (let g' = g\<lparr>g_slowArmed := False\<rparr> in
      Ok (if \<not> g_slowSent g'
          then g'\<lparr>g_slowSent := True,
                  g_pending := [SendEvent (mkEvent (g_idx g) eventSlow [] 0)]\<rparr>
          else g'))"
| "wake lib se cause (WakeHTTP now d exchange) g =
     (if cause \<noteq> None then Ok (finish (cancelledActions cause (g_idx g) d) g)
      else (case processHTTPResponse lib now (g_idx g) exchange se d of
              Ok acts \<Rightarrow> Ok (finish acts g) | Err e \<Rightarrow> Err e | Panic \<Rightarrow> Panic))"
| "wake lib se cause (WakeCtxDone d) g = Ok (finish (cancelledActions cause (g_idx g) d) g)"

text \<open>Performing the next queued action.\<close>

definition perform :: "goroutine \<Rightarrow> action \<times> goroutine" where
  "perform g = (hd (g_pending g), g\<lparr>g_pending := tl (g_pending g)\<rparr>)"

section \<open>The contract of an event source\<close>

text \<open>
  What the coordinator relies on: every step uses up some of a finite budget, every event carries
  the source's index, the source owes at most one final event and owes it until it has sent it,
  after it sends nothing more, and it can always go on while it owes it.
\<close>

locale event_source =
  fixes step :: "'g \<Rightarrow> submissionEvent option \<Rightarrow> 'g \<Rightarrow> bool"
    and good :: "'g \<Rightarrow> bool"
    and owed :: "'g \<Rightarrow> nat"
    and budget :: "'g \<Rightarrow> nat"
    and index :: "'g \<Rightarrow> nat"
  assumes step_good: "good g \<Longrightarrow> step g e g' \<Longrightarrow> good g'"
    and step_budget: "good g \<Longrightarrow> step g e g' \<Longrightarrow> budget g' < budget g"
    and step_index: "good g \<Longrightarrow> step g e g' \<Longrightarrow> index g' = index g"
    and step_event: "good g \<Longrightarrow> step g (Some ev) g' \<Longrightarrow> ev_strategyIdx ev = index g"
    and step_owed: "good g \<Longrightarrow> step g e g' \<Longrightarrow>
      owed g = owed g' + (case e of Some ev \<Rightarrow> if isFinal ev then 1 else 0 | None \<Rightarrow> 0)"
    and owed_le: "good g \<Longrightarrow> owed g \<le> 1"
    and silent: "good g \<Longrightarrow> owed g = 0 \<Longrightarrow> step g e g' \<Longrightarrow> e = None"
    and live: "good g \<Longrightarrow> 0 < owed g \<Longrightarrow> \<exists>e g'. step g e g'"
begin

fun runs :: "'g \<Rightarrow> submissionEvent option list \<Rightarrow> 'g \<Rightarrow> bool" where
  "runs g [] g' \<longleftrightarrow> g' = g"
| "runs g (e # es) g' \<longleftrightarrow> (\<exists>g1. step g e g1 \<and> runs g1 es g')"

definition sent :: "submissionEvent option list \<Rightarrow> submissionEvent list" where
  "sent es = map the (filter (\<lambda>e. e \<noteq> None) es)"

lemma sent_Cons: "sent (e # es) = (case e of None \<Rightarrow> sent es | Some ev \<Rightarrow> ev # sent es)"
  by (auto simp: sent_def split: option.split)

lemma runs_good: "good g \<Longrightarrow> runs g es g' \<Longrightarrow> good g' \<and> index g' = index g"
proof (induction es arbitrary: g)
  case Nil
  then show ?case by simp
next
  case (Cons e es)
  then obtain g1 where g1: "step g e g1" "runs g1 es g'" by auto
  show ?case
    using Cons.IH [OF step_good [OF Cons.prems(1) g1(1)] g1(2)] step_index [OF Cons.prems(1) g1(1)] by simp
qed

text \<open>A run is no longer than the budget: the goroutine ends.\<close>

lemma runs_bounded: "good g \<Longrightarrow> runs g es g' \<Longrightarrow> length es + budget g' \<le> budget g"
proof (induction es arbitrary: g)
  case Nil
  then show ?case by simp
next
  case (Cons e es)
  then obtain g1 where g1: "step g e g1" "runs g1 es g'" by auto
  then show ?case using Cons.IH [OF step_good [OF Cons.prems(1) g1(1)] g1(2)] step_budget [OF Cons.prems(1) g1(1)]
    by simp
qed

lemma runs_silent: "good g \<Longrightarrow> owed g = 0 \<Longrightarrow> runs g es g' \<Longrightarrow> sent es = [] \<and> owed g' = 0"
proof (induction es arbitrary: g)
  case Nil
  then show ?case by (simp add: sent_def)
next
  case (Cons e es)
  then obtain g1 where g1: "step g e g1" "runs g1 es g'" by auto
  have "e = None" using silent [OF Cons.prems(1,2) g1(1)] .
  moreover have "owed g1 = 0" using step_owed [OF Cons.prems(1) g1(1)] Cons.prems(2) by simp
  ultimately show ?case
    using Cons.IH [OF step_good [OF Cons.prems(1) g1(1)] _ g1(2)] by (simp add: sent_Cons)
qed

text \<open>
  A run that pays what is owed sends exactly one final event, its last one; every event of it
  carries the index.
\<close>

lemma runs_one_final:
  "good g \<Longrightarrow> owed g = 1 \<Longrightarrow> runs g es g' \<Longrightarrow> owed g' = 0 \<Longrightarrow>
     \<exists>evs ev. sent es = evs @ [ev] \<and> isFinal ev \<and> (\<forall>e \<in> set evs. \<not> isFinal e) \<and>
       (\<forall>e \<in> set (sent es). ev_strategyIdx e = index g)"
proof (induction es arbitrary: g)
  case Nil
  then show ?case by simp
next
  case (Cons e es)
  then obtain g1 where g1: "step g e g1" "runs g1 es g'" by auto
  have good1: "good g1" by (rule step_good [OF Cons.prems(1) g1(1)])
  note owe = step_owed [OF Cons.prems(1) g1(1)]
  show ?case
  proof (cases "owed g1 = 0")
    case True
    then obtain ev where ev: "e = Some ev" "isFinal ev"
      using owe Cons.prems(2) by (auto split: option.splits if_splits)
    have "sent es = []" using runs_silent [OF good1 True g1(2)] by simp
    moreover have "ev_strategyIdx ev = index g" using step_event [OF Cons.prems(1)] g1(1) ev(1) by simp
    ultimately have "sent (e # es) = [] @ [ev]" "\<forall>x \<in> set (sent (e # es)). ev_strategyIdx x = index g"
      using ev by (simp_all add: sent_Cons)
    then show ?thesis using ev(2) by fastforce
  next
    case False
    then have one: "owed g1 = 1" using owed_le [OF good1] by simp
    from Cons.IH [OF good1 one g1(2) Cons.prems(4)] obtain evs ev where
      evs: "sent es = evs @ [ev]" "isFinal ev" "\<forall>x \<in> set evs. \<not> isFinal x"
      "\<forall>x \<in> set (sent es). ev_strategyIdx x = index g1" by blast
    have idx: "index g1 = index g" by (rule step_index [OF Cons.prems(1) g1(1)])
    show ?thesis
    proof (cases e)
      case None
      then show ?thesis using evs idx by (auto simp: sent_Cons)
    next
      case (Some x)
      then have "\<not> isFinal x" using owe one Cons.prems(2) by (auto split: if_splits)
      moreover have "ev_strategyIdx x = index g" using step_event [OF Cons.prems(1)] g1(1) Some by simp
      ultimately have "sent (e # es) = (x # evs) @ [ev]" "\<forall>y \<in> set (x # evs). \<not> isFinal y"
        "\<forall>y \<in> set (sent (e # es)). ev_strategyIdx y = index g"
        using evs idx Some by (simp_all add: sent_Cons)
      then show ?thesis using evs(2) by blast
    qed
  qed
qed

text \<open>From every state a run that pays what is owed exists.\<close>

lemma runs_complete: "good g \<Longrightarrow> \<exists>es g'. runs g es g' \<and> owed g' = 0"
proof (induction "budget g" arbitrary: g rule: less_induct)
  case less
  show ?case
  proof (cases "owed g = 0")
    case True
    then show ?thesis by (metis runs.simps(1))
  next
    case False
    then obtain e g1 where g1: "step g e g1" using live [OF less.prems] by auto
    with less.hyps [OF step_budget [OF less.prems g1] step_good [OF less.prems g1]]
    show ?thesis by (metis runs.simps(2))
  qed
qed

end

section \<open>The goroutine as an event source\<close>

definition sends :: "action list \<Rightarrow> submissionEvent list" where
  "sends acts = concat (map (\<lambda>a. case a of SendEvent ev \<Rightarrow> [ev] | MonCall c \<Rightarrow> []) acts)"

lemma sends_simps [simp]:
  "sends [] = []" "sends (SendEvent ev # acts) = ev # sends acts" "sends (MonCall c # acts) = sends acts"
  by (simp_all add: sends_def)

text \<open>
  At most one send is queued, for the goroutine's own log; it is a final event exactly when the
  goroutine has left its select.
\<close>

definition goWF :: "goroutine \<Rightarrow> bool" where
  "goWF g \<longleftrightarrow> sends (g_pending g) = [] \<or>
     (\<exists>ev. sends (g_pending g) = [ev] \<and> ev_strategyIdx ev = g_idx g \<and> (isFinal ev \<longleftrightarrow> g_phase g = GDone))"

definition goOwed :: "goroutine \<Rightarrow> nat" where
  "goOwed g = (if g_phase g = GDone then length (sends (g_pending g)) else 1)"

definition goBudget :: "goroutine \<Rightarrow> nat" where
  "goBudget g = length (g_pending g) +
     (case g_phase g of GStart \<Rightarrow> 10
      | GSelect \<Rightarrow> 5 + (if g_tryNextArmed g then 2 else 0) + (if g_slowArmed g then 2 else 0)
      | GDone \<Rightarrow> 0)"

text \<open>One step: a wake-up that does not panic, or the next queued action.\<close>

inductive goStep :: "ctLib \<Rightarrow> submittedEntry \<Rightarrow> go_error option \<Rightarrow> goroutine \<Rightarrow> submissionEvent option \<Rightarrow> goroutine \<Rightarrow> bool"
  for lib :: ctLib and se :: submittedEntry and cause :: "go_error option" where
  goWake: "wakeEnabled cause w g \<Longrightarrow> wake lib se cause w g = Ok g' \<Longrightarrow> goStep lib se cause g None g'"
| goMon: "g_pending g \<noteq> [] \<Longrightarrow> perform g = (MonCall c, g') \<Longrightarrow> goStep lib se cause g None g'"
| goSend: "g_pending g \<noteq> [] \<Longrightarrow> perform g = (SendEvent ev, g') \<Longrightarrow> goStep lib se cause g (Some ev) g'"

inductive_cases goStepE: "goStep lib se cause g e g'"

lemma isFinal_mk [simp]:
  "isFinal (failureEvent i oc d)" "isFinal (successEvent i r s d)"
  "\<not> isFinal (mkEvent i eventTryNext oc d)" "\<not> isFinal (mkEvent i eventSlow oc d)"
  by (simp_all add: isFinal_def failureEvent_def successEvent_def mkEvent_def)

lemma ev_mk [simp]:
  "ev_strategyIdx (failureEvent i oc d) = i" "ev_strategyIdx (successEvent i r s d) = i"
  "ev_strategyIdx (mkEvent i ty oc d) = i" "ev_eventType (failureEvent i oc d) = eventFailure"
  "ev_eventType (successEvent i r s d) = eventSuccess" "ev_eventType (mkEvent i ty oc d) = ty"
  "ev_response (successEvent i r s d) = r" "ev_sct (successEvent i r s d) = s"
  "ev_outcome (failureEvent i oc d) = oc" "ev_timeTaken (failureEvent i oc d) = d"
  by (simp_all add: failureEvent_def successEvent_def mkEvent_def)

text \<open>A success is only reported for a response whose SCT passed every check.\<close>

definition acceptedSCT :: "ctLib \<Rightarrow> submittedEntry \<Rightarrow> time \<Rightarrow> addChainResponse \<Rightarrow> sct \<Rightarrow> bool" where
  "acceptedSCT lib se now r s \<longleftrightarrow>
     lib_toSCT lib r = Inr s \<and> \<not> inTheFuture now s \<and> verifySCTSignature lib s se = Ok ()"

text \<open>The back-off a failed exchange calls for.\<close>

definition penaltyCall :: "httpExchange \<Rightarrow> monCall" where
  "penaltyCall exchange =
     (case exchange of
        Inl err \<Rightarrow> if IsTimeoutError err then CallTimeout else CallBadResponse
      | Inr resp \<Rightarrow>
          if isl (hr_Body resp) then CallBadResponse
          else if 500 \<le> hr_StatusCode resp \<and> hr_StatusCode resp < 600 then Call5xx (headersOf resp)
          else if 400 \<le> hr_StatusCode resp \<and> hr_StatusCode resp < 500 then Call4xx (headersOf resp)
          else CallBadResponse)"

lemma xx_suffix: "s @ ''xx'' \<noteq> ''success''"
proof
  assume "s @ ''xx'' = ''success''"
  then have "last (s @ ''xx'') = last ''success''" by (simp only:)
  then show False by simp
qed

lemma processBody_cases:
  assumes "processBody lib now idx body se d = Ok acts"
  obtains (fail) oc where "acts = failWith idx d CallBadResponse oc ''bad_response''" "hd oc = CHR ''F''"
  | (success) r s where "lib_unmarshal lib body = Inr r" "acceptedSCT lib se now r s"
      "acts = [SendEvent (successEvent idx r s d), MonCall (CallOutcome ''success'')]"
  using assms by (auto simp: processBody_def acceptedSCT_def split: sum.splits if_splits outcome.splits)

lemma processHTTPResponse_cases:
  assumes "processHTTPResponse lib now idx exchange se d = Ok acts"
  obtains (fail) call oc counter where
      "acts = MonCall (CallResponseTime d) # failWith idx d call oc counter" "counter \<noteq> ''success''"
      "hd oc = CHR ''F''" "call = penaltyCall exchange"
  | (success) resp body r s where "exchange = Inr resp" "hr_StatusCode resp = 200" "hr_Body resp = Inr body"
      "lib_unmarshal lib body = Inr r" "acceptedSCT lib se now r s"
      "acts = [MonCall (CallResponseTime d), SendEvent (successEvent idx r s d), MonCall (CallOutcome ''success'')]"
proof (cases exchange)
  case (Inl err)
  then show ?thesis using assms fail
    by (cases "IsTimeoutError err") (auto simp: processHTTPResponse_def penaltyCall_def)
next
  case (Inr resp)
  show ?thesis
  proof (cases "hr_Body resp")
    case Inl
    then show ?thesis using assms fail \<open>exchange = Inr resp\<close> by (auto simp: processHTTPResponse_def penaltyCall_def)
  next
    case Body: (Inr body)
    show ?thesis
    proof (cases "hr_StatusCode resp = 200")
      case False
      have "showInt (goDiv (hr_StatusCode resp) 100) @ ''xx'' \<noteq> ''success''"
        by (rule xx_suffix)
      then show ?thesis
        using assms fail False Body \<open>exchange = Inr resp\<close> by (auto simp: processHTTPResponse_def penaltyCall_def Let_def)
    next
      case True
      then obtain acts0 where a: "processBody lib now idx body se d = Ok acts0"
        "acts = MonCall (CallResponseTime d) # acts0"
        using assms Body Inr by (auto simp: processHTTPResponse_def split: outcome.splits)
      from a(1) show ?thesis
      proof (cases rule: processBody_cases)
        case (fail oc)
        then show ?thesis using that(1) [of CallBadResponse oc "''bad_response''"] a(2) Inr Body True
          by (simp add: penaltyCall_def)
      next
        case (success r s)
        then show ?thesis using that(2) a(2) Inr True Body by auto
      qed
    qed
  qed
qed

lemma sends_failWith [simp]: "sends (failWith idx d c oc ctr) = [failureEvent idx oc d]"
  by (simp add: failWith_def)

lemma sends_cancelled [simp]:
  "sends (cancelledActions cause idx d) = [failureEvent idx (cancelledSubmissionOutcome cause) d]"
  by (simp add: cancelledActions_def)

lemma length_failWith [simp]: "length (failWith idx d c oc ctr) = 3"
  by (simp add: failWith_def)

lemma length_cancelled [simp]: "length (cancelledActions cause idx d) = 2"
  by (simp add: cancelledActions_def)

lemma hd_cancelled [simp]: "hd (cancelledSubmissionOutcome cause) = CHR ''C''"
  by (simp add: cancelledSubmissionOutcome_def split: option.split go_error.split)

lemma finish_simps [simp]:
  "g_idx (finish acts g) = g_idx g" "g_phase (finish acts g) = GDone" "g_pending (finish acts g) = acts"
  by (simp_all add: finish_def)

text \<open>What a wake-up leaves: still waiting with at most one event queued, or done with the final one.\<close>

lemma wake_cases:
  assumes "wakeEnabled cause w g" and "wake lib se cause w g = Ok g'"
  obtains (waiting) "g_phase g' = GSelect" "g_idx g' = g_idx g" "goBudget g' < goBudget g"
      "sends (g_pending g') = [] \<or> (\<exists>ty. sends (g_pending g') = [mkEvent (g_idx g) ty [] 0] \<and>
         (ty = eventTryNext \<or> ty = eventSlow))" "g_phase g \<noteq> GDone" "g_pending g = []"
  | (failed) oc d where "g_phase g' = GDone" "g_idx g' = g_idx g" "goBudget g' < goBudget g"
      "sends (g_pending g') = [failureEvent (g_idx g) oc d]" "hd oc \<noteq> CHR ''S''"
      "g_phase g \<noteq> GDone" "g_pending g = []"
  | (succeeded) now d r s where "g_phase g' = GDone" "g_idx g' = g_idx g" "goBudget g' < goBudget g"
      "sends (g_pending g') = [successEvent (g_idx g) r s d]" "acceptedSCT lib se now r s"
      "cause = None" "g_phase g \<noteq> GDone" "g_pending g = []"
proof (cases w)
  case (WakeStart j q)
  show ?thesis
  proof (cases "j = None \<and> q = None")
    case True
    then show ?thesis using assms WakeStart by (intro waiting) (auto simp: goBudget_def)
  next
    case False
    then show ?thesis using assms WakeStart
      by (auto simp: goBudget_def split: option.splits intro!: failed)
  qed
next
  case WakeTryNext
  then show ?thesis using assms
    by (intro waiting; cases "g_tryNextSent g") (auto simp: goBudget_def Let_def)
next
  case WakeSlow
  then show ?thesis using assms
    by (intro waiting; cases "g_slowSent g") (auto simp: goBudget_def Let_def)
next
  case (WakeHTTP now d exchange)
  show ?thesis
  proof (cases "cause = None")
    case False
    then show ?thesis using assms WakeHTTP
      by (intro failed [of "cancelledSubmissionOutcome cause" d]) (auto simp: goBudget_def)
  next
    case True
    then obtain acts where a: "processHTTPResponse lib now (g_idx g) exchange se d = Ok acts" "g' = finish acts g"
      using assms WakeHTTP by (auto split: outcome.splits)
    have e: "g_phase g = GSelect" "g_pending g = []" using assms(1) WakeHTTP by auto
    from a(1) show ?thesis
    proof (cases rule: processHTTPResponse_cases)
      case (fail call oc counter)
      then show ?thesis using a(2) e by (intro failed [of oc d]) (auto simp: goBudget_def)
    next
      case (success resp body r s)
      then show ?thesis using a(2) e True by (intro succeeded [of r s d now]) (auto simp: goBudget_def)
    qed
  qed
next
  case (WakeCtxDone d)
  then show ?thesis using assms
    by (intro failed [of "cancelledSubmissionOutcome cause" d]) (auto simp: goBudget_def)
qed

lemma perform_cases:
  assumes "g_pending g \<noteq> []" and "perform g = (a, g')"
  shows "g_pending g = a # g_pending g'" "g_phase g' = g_phase g" "g_idx g' = g_idx g" "goBudget g' < goBudget g"
  using assms by (auto simp: perform_def goBudget_def split: phase.split)

lemma goStep_good: "goWF g \<Longrightarrow> goStep lib se cause g e g' \<Longrightarrow> goWF g'"
proof (erule goStepE)
  fix w assume "wakeEnabled cause w g" "wake lib se cause w g = Ok g'"
  then show "goWF g'" by (cases rule: wake_cases) (auto simp: goWF_def)
next
  fix c assume "goWF g" "g_pending g \<noteq> []" "perform g = (MonCall c, g')"
  then show "goWF g'" using perform_cases [of g "MonCall c" g'] by (auto simp: goWF_def)
next
  fix ev assume "goWF g" "g_pending g \<noteq> []" "perform g = (SendEvent ev, g')"
  then show "goWF g'" using perform_cases [of g "SendEvent ev" g'] by (auto simp: goWF_def)
qed

lemma goStep_budget_index:
  assumes "goStep lib se cause g e g'"
  shows "goBudget g' < goBudget g" "g_idx g' = g_idx g"
proof -
  have "goBudget g' < goBudget g \<and> g_idx g' = g_idx g"
    using assms
  proof (rule goStepE)
    fix w assume "wakeEnabled cause w g" "wake lib se cause w g = Ok g'"
    then show ?thesis by (cases rule: wake_cases) simp_all
  qed (use perform_cases in blast)+
  then show "goBudget g' < goBudget g" "g_idx g' = g_idx g" by simp_all
qed

lemma goStep_owed: "goWF g \<Longrightarrow> goStep lib se cause g e g' \<Longrightarrow>
    goOwed g = goOwed g' + (case e of Some ev \<Rightarrow> if isFinal ev then 1 else 0 | None \<Rightarrow> 0)"
proof (erule goStepE)
  fix w assume "e = None" "wakeEnabled cause w g" "wake lib se cause w g = Ok g'"
  then show ?thesis by (elim wake_cases; simp) (auto simp: goOwed_def)
next
  fix c assume "goWF g" "e = None" "g_pending g \<noteq> []" "perform g = (MonCall c, g')"
  then show ?thesis using perform_cases [of g "MonCall c" g'] by (auto simp: goOwed_def)
next
  fix ev assume "goWF g" "e = Some ev" "g_pending g \<noteq> []" "perform g = (SendEvent ev, g')"
  then show ?thesis using perform_cases [of g "SendEvent ev" g'] by (auto simp: goWF_def goOwed_def)
qed

lemma wake_client_error: "\<exists>g'. wake lib se cause (WakeHTTP now d (Inl err)) g = Ok g'"
  by (cases "IsTimeoutError err") (auto simp: processHTTPResponse_def)

lemma goStep_live: "0 < goOwed g \<Longrightarrow> \<exists>e g'. goStep lib se cause g e g'"
proof (cases "g_pending g = []")
  case False
  assume "0 < goOwed g"
  obtain a g' where "perform g = (a, g')" by fastforce
  then show ?thesis using False by (cases a) (auto intro: goMon goSend)
next
  case True
  assume "0 < goOwed g"
  with True have "g_phase g = GStart \<or> g_phase g = GSelect" by (cases "g_phase g") (auto simp: goOwed_def)
  then show ?thesis
  proof
    assume "g_phase g = GStart"
    then have "wakeEnabled cause (WakeStart None None) g" using True by simp
    then show ?thesis by (meson goWake wake.simps(1))
  next
    assume "g_phase g = GSelect"
    then have "wakeEnabled cause (WakeHTTP 0 0 (Inl err)) g" for err using True by simp
    then show ?thesis using wake_client_error by (meson goWake)
  qed
qed

interpretation submitToLog: event_source "goStep lib se cause" goWF goOwed goBudget g_idx
proof
  fix g e g' assume g: "goWF g" and st: "goStep lib se cause g e g'"
  show "goWF g'" by (rule goStep_good [OF g st])
  show "goBudget g' < goBudget g"
    using st by (rule goStep_budget_index)
  show "g_idx g' = g_idx g"
    using st by (rule goStep_budget_index)
  show "goOwed g = goOwed g' + (case e of Some ev \<Rightarrow> if isFinal ev then 1 else 0 | None \<Rightarrow> 0)"
    by (rule goStep_owed [OF g st])
next
  fix g ev g' assume "goWF g" and "goStep lib se cause g (Some ev) g'"
  then show "ev_strategyIdx ev = g_idx g"
    by (auto elim!: goStepE dest!: perform_cases(1) simp: goWF_def)
next
  fix g assume "goWF g" then show "goOwed g \<le> 1" by (auto simp: goWF_def goOwed_def)
next
  fix g e g' assume "goWF g" "goOwed g = 0" "goStep lib se cause g e g'"
  then show "e = None"
    by (auto elim!: goStepE dest!: perform_cases(1) simp: goOwed_def split: if_splits)
next
  fix g assume "0 < goOwed g" then show "\<exists>e g'. goStep lib se cause g e g'" by (rule goStep_live)
qed

section \<open>What a goroutine sends\<close>

text \<open>Between two steps the submission context may be cancelled, so each step has its own cause.\<close>

interpretation anyCause: event_source "\<lambda>g e g'. \<exists>cause. goStep lib se cause g e g'" goWF goOwed goBudget g_idx
proof
  fix g assume "0 < goOwed g"
  from goStep_live [OF this] show "\<exists>e g' cause. goStep lib se cause g e g'" by blast
qed (blast intro: submitToLog.step_good submitToLog.step_budget submitToLog.step_index submitToLog.step_event
    submitToLog.step_owed submitToLog.owed_le submitToLog.silent)+

fun goRuns :: "ctLib \<Rightarrow> submittedEntry \<Rightarrow> goroutine \<Rightarrow> (go_error option \<times> submissionEvent option) list \<Rightarrow> goroutine \<Rightarrow> bool" where
  "goRuns lib se g [] g' \<longleftrightarrow> g' = g"
| "goRuns lib se g ((cause, e) # es) g' \<longleftrightarrow> (\<exists>g1. goStep lib se cause g e g1 \<and> goRuns lib se g1 es g')"

lemma goRuns_any: "goRuns lib se g es g' \<Longrightarrow> anyCause.runs lib se g (map snd es) g'"
  by (induction lib se g es g' rule: goRuns.induct) auto

lemma newGoroutine_start: "goWF (newGoroutine i)" "goOwed (newGoroutine i) = 1" "goBudget (newGoroutine i) = 10" "g_idx (newGoroutine i) = i"
  by (simp_all add: newGoroutine_def goWF_def goOwed_def goBudget_def)

text \<open>An executable run: at each step the cause, and a wake-up or else the next queued action.\<close>

fun goExec ::
  "ctLib \<Rightarrow> submittedEntry \<Rightarrow> goroutine \<Rightarrow> (go_error option \<times> wakeup option) list \<Rightarrow>
     ((go_error option \<times> submissionEvent option) list \<times> goroutine) option" where
  "goExec lib se g [] = Some ([], g)"
| "goExec lib se g ((cause, Some w) # cs) =
     (if \<not> wakeEnabled cause w g then None
      else case wake lib se cause w g of
        Ok g1 \<Rightarrow> map_option (\<lambda>(es, g'). ((cause, None) # es, g')) (goExec lib se g1 cs)
      | _ \<Rightarrow> None)"
| "goExec lib se g ((cause, None) # cs) =
     (if g_pending g = [] then None
      else case perform g of (act, g1) \<Rightarrow>
        map_option (\<lambda>(es, g'). ((cause, case act of MonCall c \<Rightarrow> None | SendEvent ev \<Rightarrow> Some ev) # es, g'))
          (goExec lib se g1 cs))"

lemma goExec_runs: "goExec lib se g cs = Some (es, g') \<Longrightarrow> goRuns lib se g es g'"
proof (induction lib se g cs arbitrary: es rule: goExec.induct)
  case (1 lib se g)
  then show ?case by simp
next
  case (2 lib se g cause w cs)
  then have en: "wakeEnabled cause w g" by (simp split: if_splits)
  obtain g1 where g1: "wake lib se cause w g = Ok g1"
    using "2.prems" en by (cases "wake lib se cause w g") auto
  then obtain es1 where "goExec lib se g1 cs = Some (es1, g')" "es = (cause, None) # es1"
    using "2.prems" en by auto
  then show ?case using "2.IH" [of g1 es1] en g1 by (auto intro: goWake)
next
  case (3 lib se g cause cs)
  then have ne: "g_pending g \<noteq> []" by (simp split: if_splits)
  obtain act g1 where p: "perform g = (act, g1)" by fastforce
  then obtain es1 where e: "goExec lib se g1 cs = Some (es1, g')"
    "es = (cause, case act of MonCall c \<Rightarrow> None | SendEvent ev \<Rightarrow> Some ev) # es1"
    using "3.prems" ne by auto
  have "goRuns lib se g1 es1 g'" using "3.IH" [OF ne p [symmetric] e(1)] by simp
  then show ?case using ne p e(2) by (cases act) (auto intro: goMon goSend)
qed

end
