(* ===== verification/Quorum_Correct.thy ===== *)
theory Quorum_Correct
  imports Quorum
begin

text \<open>
  Correctness of the quorum logic: the well-formedness invariant of the quorum state, what the
  predicates helpsQuorum and wouldHelp say about it, and the selection made by trimToQuorum,
  reasoned about as a set of selected positions with their operators and log types.
\<close>

section \<open>Well-formed quorum states\<close>

text \<open>
  The three lists run in parallel, every index is a position of the strategy, and the operator
  set and the two flags summarise exactly the collected entries.
\<close>

definition quorumWF :: "StrategyMember list \<Rightarrow> quorumState \<Rightarrow> bool" where
  "quorumWF strategy qs \<longleftrightarrow>
     length (qs_scts qs) = length (qs_responses qs) \<and>
     length (qs_strategyIndices qs) = length (qs_responses qs) \<and>
     (\<forall>si \<in> set (qs_strategyIndices qs). si < length strategy) \<and>
     qs_operators qs = (\<lambda>si. sm_Operator (strategy ! si)) ` set (qs_strategyIndices qs) \<and>
     (qs_hasRFC6962SCT qs \<longleftrightarrow>
        (\<exists>si \<in> set (qs_strategyIndices qs). sm_LogType (strategy ! si) = LOGTYPE_RFC6962)) \<and>
     (qs_hasStaticSCT qs \<longleftrightarrow>
        (\<exists>si \<in> set (qs_strategyIndices qs). sm_LogType (strategy ! si) = LOGTYPE_STATIC))"

lemma quorumWF_new [simp, intro]: "quorumWF strategy newQuorumState"
  by (simp add: quorumWF_def newQuorumState_def)

lemma quorumWF_addSuccess:
  "quorumWF strategy qs \<Longrightarrow> idx < length strategy \<Longrightarrow> quorumWF strategy (addSuccess qs strategy idx r s)"
  by (auto simp: quorumWF_def addSuccess_def Let_def)

lemma quorumWF_cong:
  assumes "quorumWF strategy qs" and "length strategy' = length strategy"
    and "\<And>i. i < length strategy \<Longrightarrow> sm_Operator (strategy' ! i) = sm_Operator (strategy ! i)"
    and "\<And>i. i < length strategy \<Longrightarrow> sm_LogType (strategy' ! i) = sm_LogType (strategy ! i)"
  shows "quorumWF strategy' qs"
proof -
  have "\<forall>si \<in> set (qs_strategyIndices qs).
          sm_Operator (strategy' ! si) = sm_Operator (strategy ! si) \<and>
          sm_LogType (strategy' ! si) = sm_LogType (strategy ! si)"
    using assms by (auto simp: quorumWF_def)
  then show ?thesis
    using assms(1,2) by (auto simp: quorumWF_def)
qed

lemma isQuorumMet_iff:
  "isQuorumMet qs sr \<longleftrightarrow>
     sr_SCTs sr \<le> int (length (qs_responses qs)) \<and> sr_Operators sr \<le> int (card (qs_operators qs)) \<and>
     (sr_RequireAtLeastOneRFC6962SCT sr \<longrightarrow> qs_hasRFC6962SCT qs)"
  by (auto simp: isQuorumMet_def)

section \<open>The selection as a set of positions\<close>

abbreviation opAt :: "StrategyMember list \<Rightarrow> nat list \<Rightarrow> nat \<Rightarrow> string" where
  "opAt strategy indices j \<equiv> sm_Operator (strategy ! (indices ! j))"

abbreviation typeAt :: "StrategyMember list \<Rightarrow> nat list \<Rightarrow> nat \<Rightarrow> LogType" where
  "typeAt strategy indices j \<equiv> sm_LogType (strategy ! (indices ! j))"

definition maskOK :: "nat list \<Rightarrow> bool list \<times> int \<Rightarrow> bool" where
  "maskOK indices sc \<longleftrightarrow> length (fst sc) = length indices \<and> snd sc = int (card (chosen (fst sc)))"

lemma chosen_at: "length selected = length indices \<Longrightarrow>
    chosen selected = {j \<in> {0..<length indices}. selected ! j}"
  by (auto simp: chosen_def)

lemma LogType_neq [simp]: "lt \<noteq> LOGTYPE_RFC6962 \<longleftrightarrow> lt = LOGTYPE_STATIC"
    "lt \<noteq> LOGTYPE_STATIC \<longleftrightarrow> lt = LOGTYPE_RFC6962"
  by (cases lt; simp)+

lemma hasSelected_iff: "length selected = length indices \<Longrightarrow>
    hasSelected lt indices selected strategy \<longleftrightarrow> (\<exists>i \<in> chosen selected. typeAt strategy indices i = lt)"
  by (auto simp: hasSelected_def chosen_def)

lemma onlyRFC6962_iff: "length selected = length indices \<Longrightarrow>
    onlyRFC6962 indices strategy selected i \<longleftrightarrow>
      (\<forall>j \<in> chosen selected - {i}. typeAt strategy indices j = LOGTYPE_STATIC)"
  by (auto simp: onlyRFC6962_def chosen_def)

lemma canDropSafely_iff: "length selected = length indices \<Longrightarrow>
    canDropSafely indices d selected strategy sr \<longleftrightarrow>
      (\<exists>j \<in> chosen selected - {d}. opAt strategy indices j = opAt strategy indices d) \<or>
      sr_Operators sr \<le> int (card (opAt strategy indices ` (chosen selected - {d})))"
proof -
  assume len: "length selected = length indices"
  have "{j \<in> {0..<length indices}. j \<noteq> d \<and> selected ! j} = chosen selected - {d}"
    using len by (auto simp: chosen_def)
  then show ?thesis
    by (simp add: canDropSafely_def Let_def)
qed

text \<open>Dropping a safe entry keeps enough operators.\<close>

lemma canDropSafely_keeps:
  assumes "length selected = length indices" and "d \<in> chosen selected"
    and "canDropSafely indices d selected strategy sr"
    and "sr_Operators sr \<le> int (card (opAt strategy indices ` chosen selected))"
  shows "sr_Operators sr \<le> int (card (opAt strategy indices ` (chosen selected - {d})))"
proof (cases "\<exists>j \<in> chosen selected - {d}. opAt strategy indices j = opAt strategy indices d")
  case True
  then have "opAt strategy indices d \<in> opAt strategy indices ` (chosen selected - {d})"
    by (metis imageI)
  then have "opAt strategy indices ` (chosen selected - {d}) = opAt strategy indices ` chosen selected"
    using assms(2) by (metis image_insert insert_Diff insert_absorb)
  with assms(4) show ?thesis by simp
next
  case False
  with assms(1,3) show ?thesis by (simp add: canDropSafely_iff)
qed

lemma ex_set_nth: "(\<exists>x \<in> set xs. P x) \<longleftrightarrow> (\<exists>i < length xs. P (xs ! i))"
  by (metis in_set_conv_nth)

text \<open>After one entry \<open>i\<close> joins the selection \<open>S\<close>, some entry of \<open>S\<close> can be dropped.\<close>

lemma exchange_exists:
  fixes f :: "nat \<Rightarrow> 'a"
  assumes "finite S" and "i \<notin> S" and "S \<noteq> {}" and "k \<le> int (card (f ` S))"
  shows "\<exists>j \<in> S. (\<exists>l \<in> insert i S - {j}. f l = f j) \<or> k \<le> int (card (f ` (insert i S - {j})))"
proof (cases "f i \<in> f ` S")
  case True
  then show ?thesis using assms(2) by (metis Diff_iff imageE insertI1 singletonD)
next
  case False
  obtain j where j: "j \<in> S" using assms(3) by blast
  have "f ` S \<subseteq> insert (f j) (f ` (S - {j}))" by blast
  then have "card (f ` S) \<le> card (insert (f j) (f ` (S - {j})))"
    by (intro card_mono) (use assms(1) in auto)
  also have "\<dots> \<le> Suc (card (f ` (S - {j})))"
    by (rule card_insert_le_m1) simp_all
  also have "\<dots> = card (insert (f i) (f ` (S - {j})))"
    using False assms(1) by (subst card_insert_disjoint) auto
  also have "insert (f i) (f ` (S - {j})) = f ` (insert i S - {j})"
    using assms(2) j by auto
  finally show ?thesis using assms(4) j by (meson of_nat_mono order_trans)
qed

section \<open>The loops of trimToQuorum\<close>

lemma pickOperators_spec:
  assumes "pickOperators strategy k sis count seen = (sel, c)"
  shows "length sel = length sis" and "c = count + int (card (chosen sel))"
    and "count \<le> k \<Longrightarrow> c \<le> k"
    and "inj_on (opAt strategy sis) (chosen sel)"
    and "opAt strategy sis ` chosen sel \<inter> seen = {}"
    and "c < k \<Longrightarrow> (\<lambda>si. sm_Operator (strategy ! si)) ` set sis \<subseteq> seen \<union> opAt strategy sis ` chosen sel"
proof -
  have "length sel = length sis \<and> c = count + int (card (chosen sel)) \<and> (count \<le> k \<longrightarrow> c \<le> k) \<and>
    inj_on (opAt strategy sis) (chosen sel) \<and> opAt strategy sis ` chosen sel \<inter> seen = {} \<and>
    (c < k \<longrightarrow> (\<lambda>si. sm_Operator (strategy ! si)) ` set sis \<subseteq> seen \<union> opAt strategy sis ` chosen sel)"
    using assms
  proof (induction strategy k sis count seen arbitrary: sel c rule: pickOperators.induct)
    case (1 strategy k count seen)
    then show ?case by (auto simp: mask_simps)
  next
    case (2 strategy k si sis count seen)
    let ?op = "sm_Operator (strategy ! si)"
    consider (stop) "k \<le> count" | (new) "\<not> k \<le> count" "?op \<notin> seen" | (old) "\<not> k \<le> count" "?op \<in> seen"
      by blast
    then show ?case
    proof cases
      case stop
      then have "sel = replicate (length (si # sis)) False" "c = count" using "2.prems" by simp_all
      then show ?thesis using stop by (simp only: chosen_replicate_False) simp
    next
      case new
      then obtain sel' c' where rec: "pickOperators strategy k sis (count + 1) (insert ?op seen) = (sel', c')"
        and out: "sel = True # sel'" "c = c'"
        using "2.prems" by (auto simp: Let_def split: prod.splits)
      note IH = "2.IH"(1) [OF new(1) refl new(2) rec]
      then have "\<forall>x \<in> chosen sel'. opAt strategy sis x \<noteq> ?op" by blast
      with IH show ?thesis using out new
        by (auto simp: chosen_Cons card_image mask_simps inj_on_def image_image card_chosen_Cons)
    next
      case old
      then obtain sel' c' where rec: "pickOperators strategy k sis count seen = (sel', c')"
        and out: "sel = False # sel'" "c = c'"
        using "2.prems" by (auto simp: Let_def split: prod.splits)
      note IH = "2.IH"(2) [OF old(1) refl _ rec]
      then show ?thesis using out old
        by (auto simp: chosen_Cons card_image mask_simps inj_on_def image_image)
    qed
  qed
  then show "length sel = length sis" and "c = count + int (card (chosen sel))"
    and "count \<le> k \<Longrightarrow> c \<le> k"
    and "inj_on (opAt strategy sis) (chosen sel)"
    and "opAt strategy sis ` chosen sel \<inter> seen = {}"
    and "c < k \<Longrightarrow> (\<lambda>si. sm_Operator (strategy ! si)) ` set sis \<subseteq> seen \<union> opAt strategy sis ` chosen sel"
    by blast+
qed

lemma addFirst_cases [consumes 1, case_names none add]:
  assumes "maskOK indices sc"
  obtains (none) "addFirst lt indices strategy sc = sc"
      "\<forall>i < length indices. i \<notin> chosen (fst sc) \<longrightarrow> typeAt strategy indices i \<noteq> lt"
  | (add) i where "i < length indices" "i \<notin> chosen (fst sc)" "typeAt strategy indices i = lt"
      "maskOK indices (addFirst lt indices strategy sc)"
      "chosen (fst (addFirst lt indices strategy sc)) = insert i (chosen (fst sc))"
      "snd (addFirst lt indices strategy sc) = snd sc + 1"
proof -
  obtain sel c where sc: "sc = (sel, c)" by fastforce
  let ?P = "\<lambda>i. \<not> sel ! i \<and> typeAt strategy indices i = lt"
  show thesis
  proof (cases "findIdx ?P (length indices)")
    case None
    then have "\<forall>i < length indices. \<not> ?P i" by (simp add: findIdx_None)
    with None show thesis using assms sc
      by (intro none) (auto simp: addFirst_def maskOK_def chosen_iff)
  next
    case (Some i)
    then have i: "i < length indices" "\<not> sel ! i" "typeAt strategy indices i = lt"
      by (auto dest: findIdx_SomeD)
    then have "i \<notin> chosen sel" by (simp add: chosen_def)
    then show thesis using assms sc Some i
      by (intro add [of i]) (auto simp: addFirst_def maskOK_def mask_simps card_insert_if)
  qed
qed

lemma dropLast_cases [consumes 1, case_names none drop]:
  assumes "maskOK indices sc"
  obtains (none) "dropLast D (length indices) sc = sc" "\<forall>i \<in> chosen (fst sc). \<not> D (fst sc) i"
  | (drop) i where "i \<in> chosen (fst sc)" "D (fst sc) i"
      "maskOK indices (dropLast D (length indices) sc)"
      "chosen (fst (dropLast D (length indices) sc)) = chosen (fst sc) - {i}"
      "snd (dropLast D (length indices) sc) = snd sc - 1"
proof -
  obtain sel c where sc: "sc = (sel, c)" by fastforce
  let ?P = "\<lambda>i. sel ! i \<and> D sel i"
  show thesis
  proof (cases "findIdxDown ?P (length indices)")
    case None
    then have "\<forall>i < length indices. \<not> ?P i" by (simp add: findIdxDown_None)
    with None show thesis using assms sc
      by (intro none) (auto simp: dropLast_def maskOK_def chosen_def)
  next
    case (Some i)
    then have i: "i < length indices" "sel ! i" "D sel i"
      by (auto dest: findIdxDown_SomeD)
    then have i': "i \<in> chosen sel" using assms sc by (simp add: chosen_def maskOK_def)
    then have "0 < card (chosen sel)" by (auto simp: card_gt_0_iff)
    then have "int (card (chosen sel - {i})) = int (card (chosen sel)) - 1"
      using i' by simp
    then show thesis using assms sc Some i i'
      by (intro drop [of i]) (auto simp: dropLast_def maskOK_def mask_simps)
  qed
qed

lemma fillRemaining_length [simp]: "length (fillRemaining k bs count) = length bs"
  by (induction k bs count rule: fillRemaining.induct) simp_all

lemma fillRemaining_chosen: "chosen bs \<subseteq> chosen (fillRemaining k bs count)"
proof (induction k bs count rule: fillRemaining.induct)
  case (1 k count)
  then show ?case by simp
next
  case (2 k b bs count)
  then show ?case by (auto simp: chosen_Cons)
qed

lemma fillRemaining_card:
  "count + int (length bs - card (chosen bs)) \<ge> k \<Longrightarrow> count \<le> k \<Longrightarrow>
     int (card (chosen (fillRemaining k bs count))) = int (card (chosen bs)) + (k - count)"
proof (induction k bs count rule: fillRemaining.induct)
  case (1 k count)
  then show ?case by (simp add: mask_simps)
next
  case (2 k b bs count)
  have "card (chosen bs) \<le> length bs" by simp
  with 2 show ?case by (auto simp: mask_simps of_nat_diff)
qed

lemma fillRemaining_over: "k \<le> count \<Longrightarrow> fillRemaining k bs count = bs"
  by (cases bs) simp_all

section \<open>The selection keeps the quorum\<close>

text \<open>What every loop after the first maintains of the selection.\<close>

definition trimInv :: "SubmissionRequest \<Rightarrow> StrategyMember list \<Rightarrow> nat list \<Rightarrow> bool list \<times> int \<Rightarrow> bool" where
  "trimInv sr strategy indices sc \<longleftrightarrow>
     maskOK indices sc \<and> sr_Operators sr \<le> int (card (opAt strategy indices ` chosen (fst sc)))"

definition hasType :: "LogType \<Rightarrow> StrategyMember list \<Rightarrow> nat list \<Rightarrow> bool list \<times> int \<Rightarrow> bool" where
  "hasType lt strategy indices sc \<longleftrightarrow> (\<exists>i \<in> chosen (fst sc). typeAt strategy indices i = lt)"

lemma trimInv_insert:
  assumes "trimInv sr strategy indices sc" and "maskOK indices sc'"
    and "chosen (fst sc') = insert i (chosen (fst sc))"
  shows "trimInv sr strategy indices sc'"
proof -
  have "card (opAt strategy indices ` chosen (fst sc)) \<le> card (opAt strategy indices ` chosen (fst sc'))"
    by (intro card_mono) (use assms(3) in auto)
  with assms(1,2) show ?thesis by (auto simp: trimInv_def)
qed

text \<open>One exchange: an entry joins, then the last droppable entry leaves.\<close>

lemma exchange_step:
  assumes inv: "trimInv sr strategy indices sc" and full: "snd sc = k" "1 \<le> k"
    and add: "i < length indices" "i \<notin> chosen (fst sc)" "maskOK indices sc'"
      "chosen (fst sc') = insert i (chosen (fst sc))" "snd sc' = snd sc + 1"
    and D: "\<And>j. D (fst sc') j \<Longrightarrow> canDropSafely indices j (fst sc') strategy sr \<and> j \<noteq> i"
    and free: "\<And>j. j \<in> chosen (fst sc) \<Longrightarrow> canDropSafely indices j (fst sc') strategy sr \<Longrightarrow> D (fst sc') j"
  obtains d where "d \<in> chosen (fst sc)" "D (fst sc') d"
    "trimInv sr strategy indices (dropLast D (length indices) sc')"
    "chosen (fst (dropLast D (length indices) sc')) = chosen (fst sc') - {d}"
    "snd (dropLast D (length indices) sc') = k"
proof -
  let ?S = "chosen (fst sc)"
  have len: "length (fst sc') = length indices" using add(3) by (simp add: maskOK_def)
  have ops: "sr_Operators sr \<le> int (card (opAt strategy indices ` ?S))" using inv by (simp add: trimInv_def)
  have "card ?S \<noteq> 0" using inv full by (auto simp: trimInv_def maskOK_def)
  then have "?S \<noteq> {}" by force
  from exchange_exists [OF chosen_finite add(2) this ops] obtain j where "j \<in> ?S"
    "canDropSafely indices j (fst sc') strategy sr"
    using len add(4) by (auto simp: canDropSafely_iff)
  then have ex: "j \<in> chosen (fst sc')" "D (fst sc') j" using free add(4) by auto
  from add(3) show thesis
  proof (cases rule: dropLast_cases [where D = D])
    case none
    with ex show thesis by blast
  next
    case (drop d)
    then have d: "canDropSafely indices d (fst sc') strategy sr" "d \<noteq> i" using D by auto
    then have "d \<in> ?S" using drop(1) add(4) by auto
    have "sr_Operators sr \<le> int (card (opAt strategy indices ` chosen (fst sc')))"
      using trimInv_insert [OF inv add(3,4)] by (simp add: trimInv_def)
    from canDropSafely_keeps [OF len drop(1) d(1) this]
    have "trimInv sr strategy indices (dropLast D (length indices) sc')"
      using drop(3,4) by (simp add: trimInv_def)
    with that \<open>d \<in> ?S\<close> drop show thesis using add(5) full by auto
  qed
qed

lemma ensureRFC6962_spec:
  assumes inv: "trimInv sr strategy indices sc" and count: "snd sc \<le> sr_SCTs sr" "1 \<le> sr_SCTs sr"
    and avail: "sr_RequireAtLeastOneRFC6962SCT sr \<longrightarrow>
      (\<exists>i < length indices. typeAt strategy indices i = LOGTYPE_RFC6962)"
  defines "sc' \<equiv> ensureRFC6962 sr indices strategy sc"
  shows "trimInv sr strategy indices sc'" and "snd sc' \<le> sr_SCTs sr"
    and "sr_RequireAtLeastOneRFC6962SCT sr \<longrightarrow> hasType LOGTYPE_RFC6962 strategy indices sc'"
proof -
  have mask: "maskOK indices sc" using inv by (simp add: trimInv_def)
  have "trimInv sr strategy indices sc' \<and> snd sc' \<le> sr_SCTs sr \<and>
    (sr_RequireAtLeastOneRFC6962SCT sr \<longrightarrow> hasType LOGTYPE_RFC6962 strategy indices sc')"
  proof (cases "sr_RequireAtLeastOneRFC6962SCT sr \<and> \<not> hasSelected LOGTYPE_RFC6962 indices (fst sc) strategy")
    case False
    then show ?thesis using inv count mask
      by (auto simp: sc'_def ensureRFC6962_def hasType_def maskOK_def hasSelected_iff)
  next
    case True
    let ?a = "addFirst LOGTYPE_RFC6962 indices strategy sc"
    let ?D = "\<lambda>selected i. typeAt strategy indices i \<noteq> LOGTYPE_RFC6962 \<and>
                canDropSafely indices i selected strategy sr"
    have no: "\<And>i. i \<in> chosen (fst sc) \<Longrightarrow> typeAt strategy indices i \<noteq> LOGTYPE_RFC6962"
      using True mask by (auto simp: hasSelected_iff maskOK_def)
    from mask show ?thesis
    proof (cases rule: addFirst_cases [where lt = LOGTYPE_RFC6962 and strategy = strategy])
      case none
      then show ?thesis using True avail no by blast
    next
      case (add i)
      show ?thesis
      proof (cases "sr_SCTs sr < snd ?a")
        case False
        then show ?thesis using True add trimInv_insert [OF inv add(4,5)]
          by (auto simp: sc'_def ensureRFC6962_def hasType_def Let_def)
      next
        case over: True
        then have k: "snd sc = sr_SCTs sr" using add(6) count by simp
        have safe: "canDropSafely indices j (fst ?a) strategy sr \<and> j \<noteq> i" if "?D (fst ?a) j" for j
          using that add(3) by auto
        have free: "?D (fst ?a) j" if "j \<in> chosen (fst sc)" "canDropSafely indices j (fst ?a) strategy sr" for j
          using that no by auto
        obtain d where d: "d \<in> chosen (fst sc)" "?D (fst ?a) d"
          "trimInv sr strategy indices (dropLast ?D (length indices) ?a)"
          "chosen (fst (dropLast ?D (length indices) ?a)) = chosen (fst ?a) - {d}"
          "snd (dropLast ?D (length indices) ?a) = sr_SCTs sr"
          by (rule exchange_step [where D = ?D, OF inv k count(2) add(1,2,4,5,6) safe free])
        moreover have "i \<noteq> d" using d(1) add(2) by auto
        ultimately show ?thesis using True over add
          by (auto simp: sc'_def ensureRFC6962_def hasType_def Let_def)
      qed
    qed
  qed
  then show "trimInv sr strategy indices sc'" and "snd sc' \<le> sr_SCTs sr"
    and "sr_RequireAtLeastOneRFC6962SCT sr \<longrightarrow> hasType LOGTYPE_RFC6962 strategy indices sc'" by blast+
qed

text \<open>
  The Static preference can always make room, except in the one case where the single slot is
  already taken by a required RFC 6962 SCT; then both are kept.
\<close>

definition staticConflict :: "SubmissionRequest \<Rightarrow> bool" where
  "staticConflict sr \<longleftrightarrow>
     sr_SCTs sr = 1 \<and> sr_RequireAtLeastOneRFC6962SCT sr \<and> sr_PreferAtLeastOneStaticSCT sr"

lemma preferStatic_spec:
  assumes inv: "trimInv sr strategy indices sc" and count: "snd sc \<le> sr_SCTs sr" "1 \<le> sr_SCTs sr"
    and rfc: "sr_RequireAtLeastOneRFC6962SCT sr \<longrightarrow> hasType LOGTYPE_RFC6962 strategy indices sc"
    and conflict: "\<not> staticConflict sr"
  defines "sc' \<equiv> preferStatic sr indices strategy sc"
  shows "trimInv sr strategy indices sc'" and "snd sc' \<le> sr_SCTs sr"
    and "sr_RequireAtLeastOneRFC6962SCT sr \<longrightarrow> hasType LOGTYPE_RFC6962 strategy indices sc'"
    and "sr_PreferAtLeastOneStaticSCT sr \<Longrightarrow> \<exists>i < length indices. typeAt strategy indices i = LOGTYPE_STATIC \<Longrightarrow>
      hasType LOGTYPE_STATIC strategy indices sc'"
proof -
  have mask: "maskOK indices sc" using inv by (simp add: trimInv_def)
  have "trimInv sr strategy indices sc' \<and> snd sc' \<le> sr_SCTs sr \<and>
    (sr_RequireAtLeastOneRFC6962SCT sr \<longrightarrow> hasType LOGTYPE_RFC6962 strategy indices sc') \<and>
    (sr_PreferAtLeastOneStaticSCT sr \<and> (\<exists>i < length indices. typeAt strategy indices i = LOGTYPE_STATIC) \<longrightarrow>
      hasType LOGTYPE_STATIC strategy indices sc')"
  proof (cases "sr_PreferAtLeastOneStaticSCT sr \<and> \<not> hasSelected LOGTYPE_STATIC indices (fst sc) strategy")
    case False
    then show ?thesis using inv count mask rfc
      by (auto simp: sc'_def preferStatic_def hasType_def maskOK_def hasSelected_iff)
  next
    case True
    let ?a = "addFirst LOGTYPE_STATIC indices strategy sc"
    let ?D = "\<lambda>selected i. \<not> (sr_RequireAtLeastOneRFC6962SCT sr \<and> typeAt strategy indices i = LOGTYPE_RFC6962 \<and>
                onlyRFC6962 indices strategy selected i) \<and> typeAt strategy indices i \<noteq> LOGTYPE_STATIC \<and>
                canDropSafely indices i selected strategy sr"
    have no: "\<And>i. i \<in> chosen (fst sc) \<Longrightarrow> typeAt strategy indices i = LOGTYPE_RFC6962"
      using True mask by (auto simp: hasSelected_iff maskOK_def)
    from mask show ?thesis
    proof (cases rule: addFirst_cases [where lt = LOGTYPE_STATIC and strategy = strategy])
      case none
      then have "sc' = sc" using count True by (simp add: sc'_def preferStatic_def Let_def)
      then show ?thesis using inv count none rfc no by fastforce
    next
      case (add i)
      have len: "length (fst ?a) = length indices" using add(4) by (simp add: maskOK_def)
      show ?thesis
      proof (cases "sr_SCTs sr < snd ?a")
        case False
        then have "sc' = ?a" using True by (simp add: sc'_def preferStatic_def Let_def)
        then show ?thesis using False add rfc trimInv_insert [OF inv add(4,5)]
          by (auto simp: hasType_def)
      next
        case over: True
        then have k: "snd sc = sr_SCTs sr" using add(6) count by simp
        have another: "\<exists>l \<in> chosen (fst ?a) - {j}. typeAt strategy indices l = LOGTYPE_RFC6962"
          if "j \<in> chosen (fst sc)" "sr_RequireAtLeastOneRFC6962SCT sr" for j
        proof -
          have "sr_SCTs sr \<noteq> 1" using conflict that True by (simp add: staticConflict_def)
          then have "card (chosen (fst sc)) \<noteq> 1" using k mask count by (auto simp: maskOK_def)
          then have "chosen (fst sc) \<noteq> {j}" by auto
          with that obtain l where "l \<in> chosen (fst sc)" "l \<noteq> j" by blast
          then show ?thesis using no add(5) by auto
        qed
        have free: "?D (fst ?a) j" if "j \<in> chosen (fst sc)" "canDropSafely indices j (fst ?a) strategy sr" for j
        proof -
          have "\<not> (sr_RequireAtLeastOneRFC6962SCT sr \<and> onlyRFC6962 indices strategy (fst ?a) j)"
          proof
            assume H: "sr_RequireAtLeastOneRFC6962SCT sr \<and> onlyRFC6962 indices strategy (fst ?a) j"
            with len have "\<forall>l \<in> chosen (fst ?a) - {j}. typeAt strategy indices l = LOGTYPE_STATIC"
              by (simp add: onlyRFC6962_iff)
            with another [OF that(1)] H show False by force
          qed
          then show ?thesis using that no by auto
        qed
        have safe: "canDropSafely indices j (fst ?a) strategy sr \<and> j \<noteq> i" if "?D (fst ?a) j" for j
          using that add(3) by auto
        obtain d where d: "d \<in> chosen (fst sc)" "?D (fst ?a) d"
          "trimInv sr strategy indices (dropLast ?D (length indices) ?a)"
          "chosen (fst (dropLast ?D (length indices) ?a)) = chosen (fst ?a) - {d}"
          "snd (dropLast ?D (length indices) ?a) = sr_SCTs sr"
          by (rule exchange_step [where D = ?D, OF inv k count(2) add(1,2,4,5,6) safe free])
        have sc': "sc' = dropLast ?D (length indices) ?a"
          using True over by (simp add: sc'_def preferStatic_def Let_def)
        have "i \<noteq> d" using d(1) add(2) by auto
        then have "hasType LOGTYPE_STATIC strategy indices sc'"
          using add(3,5) d(4) by (auto simp: sc' hasType_def)
        moreover have "sr_RequireAtLeastOneRFC6962SCT sr \<longrightarrow> hasType LOGTYPE_RFC6962 strategy indices sc'"
          using another [OF d(1)] unfolding hasType_def sc' d(4) by blast
        ultimately show ?thesis using d(3,5) by (simp add: sc')
      qed
    qed
  qed
  then show "trimInv sr strategy indices sc'" and "snd sc' \<le> sr_SCTs sr"
    and "sr_RequireAtLeastOneRFC6962SCT sr \<longrightarrow> hasType LOGTYPE_RFC6962 strategy indices sc'"
    and "sr_PreferAtLeastOneStaticSCT sr \<Longrightarrow> \<exists>i < length indices. typeAt strategy indices i = LOGTYPE_STATIC \<Longrightarrow>
      hasType LOGTYPE_STATIC strategy indices sc'" by blast+
qed

section \<open>trimToQuorum\<close>

lemma trimInv_pickOperators:
  assumes wf: "quorumWF strategy qs" and met: "isQuorumMet qs sr"
    and k: "0 \<le> sr_SCTs sr" "sr_Operators sr \<le> sr_SCTs sr"
    and pick: "pickOperators strategy (sr_SCTs sr) (qs_strategyIndices qs) 0 {} = sc"
  shows "trimInv sr strategy (qs_strategyIndices qs) sc" and "snd sc \<le> sr_SCTs sr"
proof -
  let ?ix = "qs_strategyIndices qs"
  obtain sel c where sc: "sc = (sel, c)" by fastforce
  note spec = pickOperators_spec [OF pick [unfolded sc]]
  show le: "snd sc \<le> sr_SCTs sr" using spec(3) k(1) sc by simp
  have "sr_Operators sr \<le> int (card (opAt strategy ?ix ` chosen sel))"
  proof (cases "c < sr_SCTs sr")
    case True
    then have "qs_operators qs \<subseteq> opAt strategy ?ix ` chosen sel"
      using spec(6) wf by (simp add: quorumWF_def)
    then have "card (qs_operators qs) \<le> card (opAt strategy ?ix ` chosen sel)"
      by (intro card_mono) auto
    then show ?thesis using met by (simp add: isQuorumMet_iff)
  next
    case False
    then have "int (card (opAt strategy ?ix ` chosen sel)) = sr_SCTs sr"
      using spec(2,4) le sc by (simp add: card_image)
    then show ?thesis using k(2) by simp
  qed
  then show "trimInv sr strategy ?ix sc" using spec(1,2) sc by (simp add: trimInv_def maskOK_def)
qed

lemma fillRemaining_full:
  assumes inv: "trimInv sr strategy indices sc" and le: "snd sc \<le> sr_SCTs sr" "sr_SCTs sr \<le> int (length indices)"
  defines "sel \<equiv> fillRemaining (sr_SCTs sr) (fst sc) (snd sc)"
  shows "length sel = length indices" and "int (card (chosen sel)) = sr_SCTs sr"
    and "sr_Operators sr \<le> int (card (opAt strategy indices ` chosen sel))"
    and "hasType lt strategy indices sc \<Longrightarrow> \<exists>i \<in> chosen sel. typeAt strategy indices i = lt"
proof -
  have mask: "length (fst sc) = length indices" "snd sc = int (card (chosen (fst sc)))"
    using inv by (auto simp: trimInv_def maskOK_def)
  show "length sel = length indices" using mask by (simp add: sel_def)
  have "card (chosen (fst sc)) \<le> length (fst sc)" by simp
  then show "int (card (chosen sel)) = sr_SCTs sr"
    using fillRemaining_card [of "sr_SCTs sr" "snd sc" "fst sc"] le mask by (simp add: sel_def)
  have sub: "chosen (fst sc) \<subseteq> chosen sel" by (simp add: sel_def fillRemaining_chosen)
  then have "card (opAt strategy indices ` chosen (fst sc)) \<le> card (opAt strategy indices ` chosen sel)"
    by (intro card_mono) auto
  then show "sr_Operators sr \<le> int (card (opAt strategy indices ` chosen sel))"
    using inv by (simp add: trimInv_def)
  show "hasType lt strategy indices sc \<Longrightarrow> \<exists>i \<in> chosen sel. typeAt strategy indices i = lt"
    using sub by (auto simp: hasType_def)
qed

lemma trimSelection_spec:
  assumes wf: "quorumWF strategy qs" and met: "isQuorumMet qs sr"
    and k: "1 \<le> sr_SCTs sr" "sr_Operators sr \<le> sr_SCTs sr" and conflict: "\<not> staticConflict sr"
  defines "sel \<equiv> trimSelection qs sr strategy"
  shows "length sel = length (qs_strategyIndices qs)" and "int (card (chosen sel)) = sr_SCTs sr"
    and "sr_Operators sr \<le> int (card (opAt strategy (qs_strategyIndices qs) ` chosen sel))"
    and "sr_RequireAtLeastOneRFC6962SCT sr \<Longrightarrow>
      \<exists>i \<in> chosen sel. typeAt strategy (qs_strategyIndices qs) i = LOGTYPE_RFC6962"
    and "sr_PreferAtLeastOneStaticSCT sr \<Longrightarrow> qs_hasStaticSCT qs \<Longrightarrow>
      \<exists>i \<in> chosen sel. typeAt strategy (qs_strategyIndices qs) i = LOGTYPE_STATIC"
proof -
  let ?ix = "qs_strategyIndices qs"
  define sc1 where "sc1 = pickOperators strategy (sr_SCTs sr) ?ix 0 {}"
  define sc2 where "sc2 = ensureRFC6962 sr ?ix strategy sc1"
  define sc3 where "sc3 = preferStatic sr ?ix strategy sc2"
  have sel: "sel = fillRemaining (sr_SCTs sr) (fst sc3) (snd sc3)"
    by (simp add: sel_def trimSelection_def sc1_def sc2_def sc3_def Let_def)
  have avail: "sr_RequireAtLeastOneRFC6962SCT sr \<longrightarrow> (\<exists>i < length ?ix. typeAt strategy ?ix i = LOGTYPE_RFC6962)"
    and availS: "qs_hasStaticSCT qs \<Longrightarrow> \<exists>i < length ?ix. typeAt strategy ?ix i = LOGTYPE_STATIC"
    using wf met unfolding quorumWF_def isQuorumMet_iff ex_set_nth by metis+
  have len: "sr_SCTs sr \<le> int (length ?ix)" using wf met by (simp add: quorumWF_def isQuorumMet_iff)
  have k0: "0 \<le> sr_SCTs sr" using k by simp
  note s1 = trimInv_pickOperators [OF wf met k0 k(2) sc1_def [symmetric]]
  note s2 = ensureRFC6962_spec [OF s1 k(1) avail, folded sc2_def]
  note s3 = preferStatic_spec [OF s2(1,2) k(1) s2(3) conflict, folded sc3_def]
  note s4 = fillRemaining_full [OF s3(1,2) len, folded sel]
  show "length sel = length ?ix" and "int (card (chosen sel)) = sr_SCTs sr"
    and "sr_Operators sr \<le> int (card (opAt strategy ?ix ` chosen sel))"
    using s4(1,2,3) .
  show "sr_RequireAtLeastOneRFC6962SCT sr \<Longrightarrow> \<exists>i \<in> chosen sel. typeAt strategy ?ix i = LOGTYPE_RFC6962"
    using s4(4) [of LOGTYPE_RFC6962] s3(3) by blast
  show "sr_PreferAtLeastOneStaticSCT sr \<Longrightarrow> qs_hasStaticSCT qs \<Longrightarrow>
      \<exists>i \<in> chosen sel. typeAt strategy ?ix i = LOGTYPE_STATIC"
    using s4(4) [of LOGTYPE_STATIC] s3(4) availS by blast
qed

lemma opAt_image: "length sel = length indices \<Longrightarrow>
    opAt strategy indices ` chosen sel = (\<lambda>si. sm_Operator (strategy ! si)) ` set (keep sel indices)"
  by (simp add: set_keep image_image)

lemma typeAt_image: "length sel = length indices \<Longrightarrow>
    (\<exists>i \<in> chosen sel. typeAt strategy indices i = lt) \<longleftrightarrow>
    (\<exists>si \<in> set (keep sel indices). sm_LogType (strategy ! si) = lt)"
  by (auto simp: set_keep)

text \<open>Marking the entries that were not kept.\<close>

abbreviation markNotNeeded :: "nat list \<Rightarrow> StrategyMember list \<Rightarrow> StrategyMember list" where
  "markNotNeeded sis strategy \<equiv>
     fold (\<lambda>si strat. strat[si := (strat ! si)\<lparr>sm_Outcome := notNeeded\<rparr>]) sis strategy"

lemma length_markNotNeeded [simp]: "length (markNotNeeded sis strategy) = length strategy"
  by (induction sis arbitrary: strategy) simp_all

lemma markNotNeeded_nth:
  "i < length strategy \<Longrightarrow> markNotNeeded sis strategy ! i =
     (if i \<in> set sis then (strategy ! i)\<lparr>sm_Outcome := notNeeded\<rparr> else strategy ! i)"
proof (induction sis arbitrary: strategy)
  case Nil
  then show ?case by simp
next
  case (Cons a sis)
  then show ?case by (cases "a = i") auto
qed

lemma trimToQuorum_strategy_frame:
  "length (snd (trimToQuorum qs sr strategy)) = length strategy"
  "i < length strategy \<Longrightarrow> sameLog (snd (trimToQuorum qs sr strategy) ! i) (strategy ! i)"
  "i < length strategy \<Longrightarrow> sm_Bucket (snd (trimToQuorum qs sr strategy) ! i) = sm_Bucket (strategy ! i)"
  by (auto simp: trimToQuorum_def Let_def markNotNeeded_nth sameLog_def)

lemma trimToQuorum_spec:
  assumes wf: "quorumWF strategy qs" and met: "isQuorumMet qs sr"
    and k: "1 \<le> sr_SCTs sr" "sr_Operators sr \<le> sr_SCTs sr" and conflict: "\<not> staticConflict sr"
    and trim: "trimToQuorum qs sr strategy = (qs', strategy')"
  shows "int (length (qs_responses qs')) = sr_SCTs sr"
    and "sr_Operators sr \<le> int (card ((\<lambda>si. sm_Operator (strategy ! si)) ` set (qs_strategyIndices qs')))"
    and "sr_RequireAtLeastOneRFC6962SCT sr \<Longrightarrow>
      \<exists>si \<in> set (qs_strategyIndices qs'). sm_LogType (strategy ! si) = LOGTYPE_RFC6962"
    and "sr_PreferAtLeastOneStaticSCT sr \<Longrightarrow> qs_hasStaticSCT qs \<Longrightarrow>
      \<exists>si \<in> set (qs_strategyIndices qs'). sm_LogType (strategy ! si) = LOGTYPE_STATIC"
    and "\<exists>sel. length sel = length (qs_responses qs) \<and> qs_responses qs' = keep sel (qs_responses qs) \<and>
      qs_scts qs' = keep sel (qs_scts qs) \<and> qs_strategyIndices qs' = keep sel (qs_strategyIndices qs)"
proof -
  let ?sel = "trimSelection qs sr strategy"
  note sel = trimSelection_spec [OF wf met k conflict]
  have lens: "length (qs_scts qs) = length (qs_responses qs)"
    "length (qs_strategyIndices qs) = length (qs_responses qs)" using wf by (auto simp: quorumWF_def)
  have all: "keep (replicate (length xs) True) xs = xs" for xs :: "'a list"
    by (induction xs) (simp_all add: mask_simps)
  have "int (length (qs_responses qs')) = sr_SCTs sr \<and>
    sr_Operators sr \<le> int (card ((\<lambda>si. sm_Operator (strategy ! si)) ` set (qs_strategyIndices qs'))) \<and>
    (sr_RequireAtLeastOneRFC6962SCT sr \<longrightarrow>
      (\<exists>si \<in> set (qs_strategyIndices qs'). sm_LogType (strategy ! si) = LOGTYPE_RFC6962)) \<and>
    (sr_PreferAtLeastOneStaticSCT sr \<and> qs_hasStaticSCT qs \<longrightarrow>
      (\<exists>si \<in> set (qs_strategyIndices qs'). sm_LogType (strategy ! si) = LOGTYPE_STATIC)) \<and>
    (\<exists>sel. length sel = length (qs_responses qs) \<and> qs_responses qs' = keep sel (qs_responses qs) \<and>
      qs_scts qs' = keep sel (qs_scts qs) \<and> qs_strategyIndices qs' = keep sel (qs_strategyIndices qs))"
  proof (cases "int (length (qs_responses qs)) \<le> sr_SCTs sr")
    case True
    then have "qs' = qs" using trim by (simp add: trimToQuorum_def)
    moreover have "int (length (qs_responses qs)) = sr_SCTs sr" using True met by (simp add: isQuorumMet_iff)
    moreover have "\<exists>sel. length sel = length (qs_responses qs) \<and> qs_responses qs = keep sel (qs_responses qs) \<and>
      qs_scts qs = keep sel (qs_scts qs) \<and> qs_strategyIndices qs = keep sel (qs_strategyIndices qs)"
      using lens all by (metis length_replicate)
    ultimately show ?thesis using wf met by (auto simp: quorumWF_def isQuorumMet_iff)
  next
    case False
    then have qs': "qs_responses qs' = keep ?sel (qs_responses qs)" "qs_scts qs' = keep ?sel (qs_scts qs)"
      "qs_strategyIndices qs' = keep ?sel (qs_strategyIndices qs)"
      using trim by (auto simp: trimToQuorum_def Let_def)
    have "int (length (qs_responses qs')) = sr_SCTs sr"
      using qs'(1) sel(1,2) lens by (simp add: length_keep)
    then show ?thesis
      using sel(1,3,4,5) lens qs' unfolding opAt_image [OF sel(1)] typeAt_image [OF sel(1)] by auto
  qed
  then show "int (length (qs_responses qs')) = sr_SCTs sr"
    and "sr_Operators sr \<le> int (card ((\<lambda>si. sm_Operator (strategy ! si)) ` set (qs_strategyIndices qs')))"
    and "sr_RequireAtLeastOneRFC6962SCT sr \<Longrightarrow>
      \<exists>si \<in> set (qs_strategyIndices qs'). sm_LogType (strategy ! si) = LOGTYPE_RFC6962"
    and "sr_PreferAtLeastOneStaticSCT sr \<Longrightarrow> qs_hasStaticSCT qs \<Longrightarrow>
      \<exists>si \<in> set (qs_strategyIndices qs'). sm_LogType (strategy ! si) = LOGTYPE_STATIC"
    and "\<exists>sel. length sel = length (qs_responses qs) \<and> qs_responses qs' = keep sel (qs_responses qs) \<and>
      qs_scts qs' = keep sel (qs_scts qs) \<and> qs_strategyIndices qs' = keep sel (qs_strategyIndices qs)"
    by blast+
qed


definition exSM :: "string \<Rightarrow> LogType \<Rightarrow> StrategyMember" where
  "exSM oper lt =
     \<lparr>sm_SubmissionURL = oper, sm_MonitoringURL = oper, sm_Operator = oper, sm_LogName = oper, sm_LogType = lt,
      sm_MMD = 86400, sm_Bucket = NEUTRAL, sm_DispreferredDetail = [], sm_RandomWeight = 0,
      sm_Outcome = [], sm_BeganAfter = 0, sm_TimeTaken = 0\<rparr>"

definition exSMs :: "StrategyMember list" where
  "exSMs = [exSM ''A'' LOGTYPE_RFC6962, exSM ''B'' LOGTYPE_RFC6962, exSM ''C'' LOGTYPE_STATIC]"

definition exCollected :: quorumState where
  "exCollected =
     (let r = (\<lambda>n. \<lparr>acr_SCTVersion = 0, acr_ID = [n], acr_Timestamp = 0, acr_Extensions = [], acr_Signature = []\<rparr>);
          s = (\<lambda>n. \<lparr>sct_SCTVersion = 0, sct_KeyID = [n], sct_Timestamp = 0, sct_Extensions = [], sct_Signature = []\<rparr>)
      in addSuccess (addSuccess (addSuccess newQuorumState exSMs 0 (r 1) (s 1)) exSMs 1 (r 2) (s 2)) exSMs 2 (r 3) (s 3))"

definition exTwo :: SubmissionRequest where
  "exTwo = NewSubmissionRequest\<lparr>sr_SCTs := 2, sr_Operators := 2, sr_RequireAtLeastOneRFC6962SCT := True,
     sr_PreferAtLeastOneStaticSCT := True\<rparr>"

lemma exCollected_wf: "quorumWF exSMs exCollected"
  unfolding exCollected_def Let_def by (intro quorumWF_addSuccess quorumWF_new) (simp_all add: exSMs_def)


definition exConflict :: SubmissionRequest where
  "exConflict = NewSubmissionRequest\<lparr>sr_RequireAtLeastOneRFC6962SCT := True, sr_PreferAtLeastOneStaticSCT := True\<rparr>"

text \<open>
  With one SCT requested, an RFC 6962 SCT required and a static one preferred, trimToQuorum can
  keep two SCTs, although its comment promises exactly the requested number: the swap for the
  static SCT finds nothing it may drop.
\<close>

theorem trim_conflict_keeps_two:
  "quorumWF exSMs exCollected \<and> isQuorumMet exCollected exConflict \<and> sr_SCTs exConflict = 1 \<and>
   length (qs_responses (fst (trimToQuorum exCollected exConflict exSMs))) = 2"
proof (intro conjI)
  show "quorumWF exSMs exCollected" by (rule exCollected_wf)
  show "isQuorumMet exCollected exConflict" by code_simp
  show "sr_SCTs exConflict = 1" by code_simp
  show "length (qs_responses (fst (trimToQuorum exCollected exConflict exSMs))) = 2" by code_simp
qed

end
