(* ===== verification/Orchestrate_Correct.thy ===== *)
theory Orchestrate_Correct
  imports Orchestrate Quorum_Correct
begin

text \<open>
  Correctness of the coordinator on its own: the invariant of its local state, relative to the
  set \<open>Out\<close> of logs whose goroutine still owes a final event and to a predicate \<open>acc\<close> that
  says which SCTs a success event may carry. Every event it may receive keeps the invariant, and
  a return carries the guarantee of \<open>resultOK\<close>.
\<close>

section \<open>The invariant\<close>

definition successful :: string where "successful = ''Submission successful''"

text \<open>A strategy whose logs nobody has submitted to yet.\<close>

definition freshStrategy :: "StrategyMember list \<Rightarrow> bool" where
  "freshStrategy strategy \<longleftrightarrow>
     list_all (\<lambda>sm. sm_BeganAfter sm = 0 \<and> sm_Outcome sm \<noteq> successful) strategy"

definition frameOK :: "StrategyMember list \<Rightarrow> StrategyMember list \<Rightarrow> bool" where
  "frameOK strategy0 strategy \<longleftrightarrow> length strategy = length strategy0 \<and>
     (\<forall>i < length strategy0. sameLog (strategy ! i) (strategy0 ! i) \<and>
        sm_Bucket (strategy ! i) = sm_Bucket (strategy0 ! i))"

definition eligibleOK :: "nat list \<Rightarrow> StrategyMember list \<Rightarrow> bool" where
  "eligibleOK eligible strategy0 \<longleftrightarrow> distinct eligible \<and> (\<forall>i \<in> set eligible. i < length strategy0)"

definition succeeded :: "StrategyMember list \<Rightarrow> nat set" where
  "succeeded strategy = {i. i < length strategy \<and> sm_Outcome (strategy ! i) = successful}"

text \<open>The collected SCTs: one per log, of logs that are finished, each acceptable.\<close>

definition collectedOK ::
  "(nat \<Rightarrow> addChainResponse \<Rightarrow> sct \<Rightarrow> bool) \<Rightarrow> nat set \<Rightarrow> quorumState \<Rightarrow> bool" where
  "collectedOK acc A qs \<longleftrightarrow>
     distinct (qs_strategyIndices qs) \<and> set (qs_strategyIndices qs) \<subseteq> A \<and>
     length (qs_scts qs) = length (qs_responses qs) \<and>
     length (qs_strategyIndices qs) = length (qs_responses qs) \<and>
     list_all (\<lambda>(i, r, s). acc i r s) (zip (qs_strategyIndices qs) (zip (qs_responses qs) (qs_scts qs)))"

definition coBase ::
  "(nat \<Rightarrow> addChainResponse \<Rightarrow> sct \<Rightarrow> bool) \<Rightarrow> nat list \<Rightarrow> StrategyMember list \<Rightarrow> nat set \<Rightarrow> submitState \<Rightarrow> bool" where
  "coBase acc eligible strategy0 Out s \<longleftrightarrow>
     eligibleOK eligible strategy0 \<and> Out \<subseteq> set (st_spawned s) \<and> st_inFlight s = int (card Out) \<and>
     distinct (st_spawned s) \<and> set (st_spawned s) \<subseteq> set eligible \<and>
     st_launchSeq s = length (st_spawned s) \<and> frameOK strategy0 (st_strategy s) \<and>
     (\<forall>idx \<in> set eligible. sm_BeganAfter (st_strategy s ! idx) \<noteq> 0 \<longleftrightarrow> idx \<in> set (st_spawned s)) \<and>
     quorumWF (st_strategy s) (st_qs s) \<and> collectedOK acc (set (st_spawned s) - Out) (st_qs s) \<and>
     succeeded (st_strategy s) = set (qs_strategyIndices (st_qs s))"

text \<open>What is left of it while the events of a cancelled request are drained.\<close>

definition drainBase :: "nat list \<Rightarrow> StrategyMember list \<Rightarrow> nat set \<Rightarrow> submitState \<Rightarrow> bool" where
  "drainBase eligible strategy0 Out s \<longleftrightarrow>
     eligibleOK eligible strategy0 \<and> Out \<subseteq> set (st_spawned s) \<and> st_inFlight s = int (card Out) \<and>
     distinct (st_spawned s) \<and> set (st_spawned s) \<subseteq> set eligible \<and> frameOK strategy0 (st_strategy s)"

definition loopSets :: "nat set \<Rightarrow> submitState \<Rightarrow> bool" where
  "loopSets Out s \<longleftrightarrow> st_inFlightIndices s \<union> st_slowInFlightIndices s = Out \<and>
     st_inFlightIndices s \<inter> st_slowInFlightIndices s = {}"

text \<open>No log that was not contacted could have helped.\<close>

definition exhausted :: "SubmissionRequest \<Rightarrow> nat list \<Rightarrow> submitState \<Rightarrow> bool" where
  "exhausted sr eligible s \<longleftrightarrow>
     (\<forall>idx \<in> set eligible - set (st_spawned s).
        \<not> wouldHelp (st_qs s) sr (st_strategy s ! idx) (st_strategy s) {})"

text \<open>What a return of submit promises.\<close>

definition resultOK ::
  "(nat \<Rightarrow> addChainResponse \<Rightarrow> sct \<Rightarrow> bool) \<Rightarrow> SubmissionRequest \<Rightarrow> nat list \<Rightarrow> submitState \<Rightarrow> submitResult \<Rightarrow> bool" where
  "resultOK acc sr eligible s r \<longleftrightarrow>
     (case r of
        Ok (responses, scts) \<Rightarrow>
          responses = qs_responses (st_qs s) \<and> scts = qs_scts (st_qs s) \<and>
          succeeded (st_strategy s) = set (qs_strategyIndices (st_qs s)) \<and>
          collectedOK acc (set (st_spawned s)) (st_qs s) \<and>
          int (length responses) = sr_SCTs sr \<and>
          sr_Operators sr \<le>
            int (card ((\<lambda>si. sm_Operator (st_strategy s ! si)) ` set (qs_strategyIndices (st_qs s)))) \<and>
          (sr_RequireAtLeastOneRFC6962SCT sr \<longrightarrow>
            (\<exists>si \<in> set (qs_strategyIndices (st_qs s)). sm_LogType (st_strategy s ! si) = LOGTYPE_RFC6962))
      | Err e \<Rightarrow>
          st_cancelCause s = Some e \<and> e \<noteq> QuorumMetCause \<or>
          e = Errorf (''quorum not achieved: '' @ quorumFailureReason (st_qs s) sr) \<and>
          \<not> isQuorumMet (st_qs s) sr \<and> exhausted sr eligible s
      | Panic \<Rightarrow> False) \<and>
     (st_cancelCause s = None \<or> st_cancelCause s = Some QuorumMetCause \<longrightarrow>
        succeeded (st_strategy s) = set (qs_strategyIndices (st_qs s))) \<and>
     (\<forall>idx \<in> set eligible. sm_Outcome (st_strategy s ! idx) \<noteq> [])"

definition coInv ::
  "(nat \<Rightarrow> addChainResponse \<Rightarrow> sct \<Rightarrow> bool) \<Rightarrow> SubmissionRequest \<Rightarrow> nat list \<Rightarrow> StrategyMember list \<Rightarrow>
     nat set \<Rightarrow> submitState \<Rightarrow> bool" where
  "coInv acc sr eligible strategy0 Out s \<longleftrightarrow>
     (case st_control s of
        Looping \<Rightarrow> coBase acc eligible strategy0 Out s \<and> Out \<noteq> {} \<and> loopSets Out s \<and>
          \<not> isQuorumMet (st_qs s) sr \<and> st_cancelCause s = None
      | DrainingQuorum \<Rightarrow> coBase acc eligible strategy0 Out s \<and> Out \<noteq> {} \<and> isQuorumMet (st_qs s) sr \<and>
          st_cancelCause s = Some QuorumMetCause
      | DrainingCtx e \<Rightarrow> drainBase eligible strategy0 Out s \<and> Out \<noteq> {} \<and>
          st_cancelCause s = Some e \<and> e \<noteq> QuorumMetCause
      | Returned r \<Rightarrow> Out = {} \<and> resultOK acc sr eligible s r \<and> frameOK strategy0 (st_strategy s) \<and>
          distinct (st_spawned s) \<and> set (st_spawned s) \<subseteq> set eligible)"

text \<open>The events the coordinator may receive while the logs in \<open>Out\<close> owe a final event.\<close>

definition evOK :: "(nat \<Rightarrow> addChainResponse \<Rightarrow> sct \<Rightarrow> bool) \<Rightarrow> nat set \<Rightarrow> submissionEvent \<Rightarrow> bool" where
  "evOK acc Out ev \<longleftrightarrow> ev_strategyIdx ev \<in> Out \<and>
     (ev_eventType ev = eventSuccess \<longrightarrow>
        ev_outcome ev = successful \<and> acc (ev_strategyIdx ev) (ev_response ev) (ev_sct ev)) \<and>
     (ev_eventType ev = eventFailure \<longrightarrow> ev_outcome ev \<noteq> successful)"

text \<open>Which logs owe a final event after an event was received and further logs were launched.\<close>

definition outAfter :: "nat set \<Rightarrow> submissionEvent \<Rightarrow> submitState \<Rightarrow> submitState \<Rightarrow> nat set" where
  "outAfter Out ev s s' =
     (if isFinal ev then Out - {ev_strategyIdx ev} else Out) \<union> (set (st_spawned s') - set (st_spawned s))"

section \<open>Writes to the strategy\<close>

text \<open>Writes that leave the log, the bucket and the launch mark of every member alone.\<close>

definition keepsMembers :: "StrategyMember list \<Rightarrow> StrategyMember list \<Rightarrow> bool" where
  "keepsMembers strategy strategy' \<longleftrightarrow> length strategy' = length strategy \<and>
     (\<forall>i < length strategy. sameLog (strategy' ! i) (strategy ! i) \<and>
        sm_Bucket (strategy' ! i) = sm_Bucket (strategy ! i) \<and>
        sm_BeganAfter (strategy' ! i) = sm_BeganAfter (strategy ! i))"

lemma sameLog_refl [simp]: "sameLog a a"
  by (simp add: sameLog_def)

lemma sameLog_trans: "sameLog a b \<Longrightarrow> sameLog b c \<Longrightarrow> sameLog a c"
  by (simp add: sameLog_def)

lemma sameLog_updates [simp]:
  "sameLog (a\<lparr>sm_Outcome := oc\<rparr>) b = sameLog a b" "sameLog (a\<lparr>sm_TimeTaken := d\<rparr>) b = sameLog a b"
  "sameLog (a\<lparr>sm_BeganAfter := d\<rparr>) b = sameLog a b"
  by (simp_all add: sameLog_def)

lemma keepsMembers_refl [simp]: "keepsMembers strategy strategy"
  by (simp add: keepsMembers_def)

lemma keepsMembers_trans: "keepsMembers a b \<Longrightarrow> keepsMembers b c \<Longrightarrow> keepsMembers a c"
  by (simp add: keepsMembers_def sameLog_def)

lemma keepsMembers_set [simp]:
  "keepsMembers strategy (setOutcome idx oc strategy)"
  "keepsMembers strategy (setTimeTaken idx d strategy)"
  "keepsMembers strategy (setOutcomes A oc strategy)"
  by (auto simp: keepsMembers_def setOutcome_def setTimeTaken_def setOutcomes_def nth_list_update_read)

lemma keepsMembers_annotate [simp]: "keepsMembers strategy (annotateUnattempted eligible strategy)"
  unfolding annotateUnattempted_def
proof (induction eligible arbitrary: strategy)
  case Nil
  then show ?case by simp
next
  case (Cons idx eligible)
  then show ?case by (auto intro: keepsMembers_trans [OF keepsMembers_set(1)])
qed

lemma keepsMembers_trim [simp]: "keepsMembers strategy (snd (trimToQuorum qs sr strategy))"
  by (auto simp: keepsMembers_def trimToQuorum_def Let_def markNotNeeded_nth)

lemma keepsMembersD:
  assumes "keepsMembers strategy strategy'"
  shows "length strategy' = length strategy"
    and "i < length strategy \<Longrightarrow> sm_Operator (strategy' ! i) = sm_Operator (strategy ! i)"
    and "i < length strategy \<Longrightarrow> sm_LogType (strategy' ! i) = sm_LogType (strategy ! i)"
    and "i < length strategy \<Longrightarrow> sm_BeganAfter (strategy' ! i) = sm_BeganAfter (strategy ! i)"
  using assms by (auto simp: keepsMembers_def sameLog_def)

lemma succeeded_set:
  "idx < length strategy \<Longrightarrow> succeeded (setOutcome idx oc strategy) =
     (if oc = successful then insert idx (succeeded strategy) else succeeded strategy - {idx})"
  "succeeded (setTimeTaken idx d strategy) = succeeded strategy"
  "oc \<noteq> successful \<Longrightarrow> succeeded (setOutcomes A oc strategy) = succeeded strategy - A"
  by (auto simp: succeeded_def setOutcome_def setTimeTaken_def setOutcomes_def nth_list_update_read split: if_splits)

lemma annotate_outcome:
  "i < length strategy \<Longrightarrow> sm_Outcome (annotateUnattempted eligible strategy ! i) =
     (if sm_Outcome (strategy ! i) = [] \<and> i \<in> set eligible then ''Submission not attempted''
      else sm_Outcome (strategy ! i))"
  unfolding annotateUnattempted_def
proof (induction eligible arbitrary: strategy)
  case Nil
  then show ?case by simp
next
  case (Cons a eligible)
  then show ?case by (cases "a = i") (auto simp: setOutcome_def nth_list_update_read)
qed

lemma succeeded_annotate: "succeeded (annotateUnattempted eligible strategy) = succeeded strategy"
proof -
  have "length (annotateUnattempted eligible strategy) = length strategy"
    using keepsMembersD(1) [OF keepsMembers_annotate] .
  then show ?thesis by (auto simp: succeeded_def annotate_outcome successful_def split: if_splits)
qed

lemma keep_complement:
  assumes "length sel = length xs" and "distinct xs"
  shows "set (keep sel xs) = set xs - set (keep (map Not sel) xs)"
  using assms
proof (induction sel xs rule: list_induct2)
  case Nil
  then show ?case by (simp add: mask_simps)
next
  case (Cons b sel x xs)
  have sub: "set (keep sel xs) \<subseteq> set xs" "set (keep (map Not sel) xs) \<subseteq> set xs"
    using set_keep_subset by fast+
  have IH: "set (keep sel xs) = set xs - set (keep (map Not sel) xs)" using Cons by simp
  have "x \<notin> set xs" using Cons.prems by simp
  then show ?case using IH sub by (cases b) (auto simp: mask_simps)
qed

lemma frameOK_keeps: "frameOK strategy0 strategy \<Longrightarrow> keepsMembers strategy strategy' \<Longrightarrow> frameOK strategy0 strategy'"
  by (simp add: frameOK_def keepsMembers_def sameLog_def)

lemma wouldHelp_keeps:
  assumes "keepsMembers strategy strategy'" and "idx < length strategy"
  shows "wouldHelp qs sr (strategy' ! idx) strategy' {} = wouldHelp qs sr (strategy ! idx) strategy {}"
  using keepsMembersD [OF assms(1)] assms(2) by (simp add: wouldHelp_def Let_def)

lemma coBaseD:
  assumes "coBase acc eligible strategy0 Out s"
  shows "eligibleOK eligible strategy0" "Out \<subseteq> set (st_spawned s)" "st_inFlight s = int (card Out)"
    "distinct (st_spawned s)" "set (st_spawned s) \<subseteq> set eligible" "frameOK strategy0 (st_strategy s)"
    "quorumWF (st_strategy s) (st_qs s)" "collectedOK acc (set (st_spawned s) - Out) (st_qs s)"
    "succeeded (st_strategy s) = set (qs_strategyIndices (st_qs s))" "st_launchSeq s = length (st_spawned s)"
  using assms by (simp_all add: coBase_def)

lemma coBase_bound: "coBase acc eligible strategy0 Out s \<Longrightarrow> idx \<in> set (st_spawned s) \<Longrightarrow> idx < length (st_strategy s)"
  by (auto simp: coBase_def eligibleOK_def frameOK_def)

lemma coBase_finite: "coBase acc eligible strategy0 Out s \<Longrightarrow> finite Out"
  by (auto simp: coBase_def intro: finite_subset)

lemma coBase_eligible_bound: "coBase acc eligible strategy0 Out s \<Longrightarrow> idx \<in> set eligible \<Longrightarrow> idx < length (st_strategy s)"
  by (auto simp: coBase_def eligibleOK_def frameOK_def)

text \<open>A write to the strategy alone keeps the base invariant if it keeps the members and the successes.\<close>

lemma coBase_write:
  assumes b: "coBase acc eligible strategy0 Out s" and k: "keepsMembers (st_strategy s) strategy'"
    and su: "succeeded strategy' = succeeded (st_strategy s)"
  shows "coBase acc eligible strategy0 Out (s\<lparr>st_strategy := strategy'\<rparr>)"
proof -
  have "quorumWF strategy' (st_qs s)"
    using b keepsMembersD [OF k] by (auto simp: coBase_def intro: quorumWF_cong)
  moreover have "frameOK strategy0 strategy'"
    using b k frameOK_keeps by (auto simp: coBase_def)
  moreover have "\<forall>idx \<in> set eligible. sm_BeganAfter (strategy' ! idx) = sm_BeganAfter (st_strategy s ! idx)"
    using keepsMembersD(4) [OF k] coBase_eligible_bound [OF b] by blast
  ultimately show ?thesis using b su by (simp add: coBase_def)
qed

lemma coBase_frame [simp]:
  "coBase acc eligible strategy0 Out (s\<lparr>st_control := c\<rparr>) = coBase acc eligible strategy0 Out s"
  "coBase acc eligible strategy0 Out (s\<lparr>st_cancelCause := cc\<rparr>) = coBase acc eligible strategy0 Out s"
  "coBase acc eligible strategy0 Out (s\<lparr>st_slowRecorded := sl\<rparr>) = coBase acc eligible strategy0 Out s"
  "coBase acc eligible strategy0 Out (s\<lparr>st_inFlightIndices := A\<rparr>) = coBase acc eligible strategy0 Out s"
  "coBase acc eligible strategy0 Out (s\<lparr>st_slowInFlightIndices := A\<rparr>) = coBase acc eligible strategy0 Out s"
  by (simp_all add: coBase_def)

section \<open>Launching\<close>

lemma launch_spawned [simp]:
  "st_spawned (launchEligible elapsed eligible i s) = st_spawned s @ [eligible ! i]"
  "st_qs (launchEligible elapsed eligible i s) = st_qs s"
  "st_control (launchEligible elapsed eligible i s) = st_control s"
  "st_cancelCause (launchEligible elapsed eligible i s) = st_cancelCause s"
  "st_inFlight (launchEligible elapsed eligible i s) = st_inFlight s + 1"
  "st_launchSeq (launchEligible elapsed eligible i s) = st_launchSeq s + 1"
  by (simp_all add: launchEligible_def Let_def)

lemma coBase_unattempted:
  assumes "coBase acc eligible strategy0 Out s" and "i < length eligible"
  shows "unattempted eligible s i \<longleftrightarrow> eligible ! i \<notin> set (st_spawned s)"
  using assms by (auto simp: coBase_def unattempted_def)

text \<open>Launching an unattempted log adds it to the logs that owe a final event.\<close>

lemma launch_coBase:
  assumes b: "coBase acc eligible strategy0 Out s" and i: "i < length eligible" "unattempted eligible s i"
    and pos: "\<forall>n. 0 < elapsed n"
  shows "coBase acc eligible strategy0 (insert (eligible ! i) Out) (launchEligible elapsed eligible i s)"
    and "eligible ! i \<notin> Out"
proof -
  let ?idx = "eligible ! i"
  let ?strategy = "setBeganAfter ?idx (elapsed (st_launchSeq s + 1)) (st_strategy s)"
  have new: "?idx \<notin> set (st_spawned s)" using coBase_unattempted [OF b i(1)] i(2) by simp
  then show fresh: "?idx \<notin> Out" using b by (auto simp: coBase_def)
  have lt: "?idx < length (st_strategy s)" using coBase_eligible_bound [OF b] i(1) by simp
  have nth: "j < length (st_strategy s) \<Longrightarrow> ?strategy ! j =
      (if j = ?idx then (st_strategy s ! j)\<lparr>sm_BeganAfter := elapsed (st_launchSeq s + 1)\<rparr> else st_strategy s ! j)" for j
    by (auto simp: setBeganAfter_def nth_list_update_read)
  have len: "length ?strategy = length (st_strategy s)" by (simp add: setBeganAfter_def)
  have wf: "quorumWF ?strategy (st_qs s)"
    by (rule quorumWF_cong [of "st_strategy s"]) (use b nth len in \<open>auto simp: coBase_def\<close>)
  have frame: "frameOK strategy0 ?strategy"
    using b nth len by (auto simp: coBase_def frameOK_def)
  have began: "\<forall>idx \<in> set eligible. sm_BeganAfter (?strategy ! idx) \<noteq> 0 \<longleftrightarrow> idx \<in> set (st_spawned s @ [?idx])"
  proof
    fix idx assume e: "idx \<in> set eligible"
    have "elapsed (st_launchSeq s + 1) \<noteq> 0" using pos by (metis less_irrefl)
    then show "sm_BeganAfter (?strategy ! idx) \<noteq> 0 \<longleftrightarrow> idx \<in> set (st_spawned s @ [?idx])"
      using b e nth [of idx] coBase_eligible_bound [OF b e] by (auto simp: coBase_def)
  qed
  have su: "succeeded ?strategy = succeeded (st_strategy s)"
    using nth len by (auto simp: succeeded_def split: if_splits)
  have coll: "collectedOK acc (set (st_spawned s @ [?idx]) - insert ?idx Out) (st_qs s)"
    using b new by (auto simp: coBase_def collectedOK_def)
  show "coBase acc eligible strategy0 (insert ?idx Out) (launchEligible elapsed eligible i s)"
    using b wf frame began su coll new fresh i(1) coBase_finite [OF b]
    by (auto simp: coBase_def launchEligible_def Let_def)
qed

lemma launch_loopSets:
  "loopSets Out s \<Longrightarrow> eligible ! i \<notin> Out \<Longrightarrow> loopSets (insert (eligible ! i) Out) (launchEligible elapsed eligible i s)"
  by (auto simp: loopSets_def launchEligible_def Let_def)

text \<open>startNextEligible launches one log that would help, or there is none.\<close>

lemma startNextEligible_cases [case_names launched none]:
  obtains (launched) i where "i < length eligible" "unattempted eligible s i"
      "wouldHelp (st_qs s) sr (st_strategy s ! (eligible ! i)) (st_strategy s) (st_inFlightIndices s)"
      "startNextEligible sr elapsed eligible s = launchEligible elapsed eligible i s"
  | (none) "startNextEligible sr elapsed eligible s = s"
      "\<forall>i < length eligible. unattempted eligible s i \<longrightarrow>
         \<not> wouldHelp (st_qs s) sr (st_strategy s ! (eligible ! i)) (st_strategy s) (st_inFlightIndices s)"
proof -
  let ?helps = "\<lambda>i. wouldHelp (st_qs s) sr (st_strategy s ! (eligible ! i)) (st_strategy s) (st_inFlightIndices s)"
  have "\<exists>B Q. startNextEligible sr elapsed eligible s =
      (case (if B then findIdx (\<lambda>i. unattempted eligible s i \<and> Q i \<and> ?helps i) (length eligible) else None) of
         Some i \<Rightarrow> launchEligible elapsed eligible i s
       | None \<Rightarrow> (case findIdx (\<lambda>i. unattempted eligible s i \<and> ?helps i) (length eligible) of
            Some i \<Rightarrow> launchEligible elapsed eligible i s | None \<Rightarrow> s))"
    unfolding startNextEligible_def Let_def by (intro exI) (rule refl)
  then obtain B Q where eq: "startNextEligible sr elapsed eligible s =
      (case (if B then findIdx (\<lambda>i. unattempted eligible s i \<and> Q i \<and> ?helps i) (length eligible) else None) of
         Some i \<Rightarrow> launchEligible elapsed eligible i s
       | None \<Rightarrow> (case findIdx (\<lambda>i. unattempted eligible s i \<and> ?helps i) (length eligible) of
            Some i \<Rightarrow> launchEligible elapsed eligible i s | None \<Rightarrow> s))" by blast
  show thesis
  proof (cases "if B then findIdx (\<lambda>i. unattempted eligible s i \<and> Q i \<and> ?helps i) (length eligible) else None")
    case (Some i)
    then have "i < length eligible \<and> unattempted eligible s i \<and> ?helps i"
      by (auto dest: findIdx_SomeD split: if_splits)
    then show thesis using launched [of i] eq Some by simp
  next
    case None
    show thesis
    proof (cases "findIdx (\<lambda>i. unattempted eligible s i \<and> ?helps i) (length eligible)")
      case (Some i)
      then show thesis using launched [of i] eq \<open>(if B then _ else None) = None\<close> findIdx_SomeD [OF Some] by simp
    next
      case N: None
      then have "startNextEligible sr elapsed eligible s = s" using eq None by simp
      then show thesis using none N by (simp add: findIdx_None)
    qed
  qed
qed

section \<open>Receiving in the loop\<close>

lemma completeInFlight_simps [simp]:
  "st_qs (completeInFlight ev s) = st_qs s" "st_spawned (completeInFlight ev s) = st_spawned s"
  "st_control (completeInFlight ev s) = st_control s" "st_cancelCause (completeInFlight ev s) = st_cancelCause s"
  by (simp_all add: completeInFlight_def)

lemma collectedOK_mono: "collectedOK acc A qs \<Longrightarrow> A \<subseteq> B \<Longrightarrow> collectedOK acc B qs"
  by (auto simp: collectedOK_def)

lemma completeInFlight_coBase:
  assumes b: "coBase acc eligible strategy0 Out s" and e: "ev_strategyIdx ev \<in> Out"
  shows "coBase acc eligible strategy0 (Out - {ev_strategyIdx ev}) (completeInFlight ev s)"
    and "ev_strategyIdx ev \<notin> set (qs_strategyIndices (st_qs s))"
proof -
  let ?idx = "ev_strategyIdx ev"
  have b1: "coBase acc eligible strategy0 Out (s\<lparr>st_strategy := setTimeTaken ?idx (ev_timeTaken ev) (st_strategy s)\<rparr>)"
    by (rule coBase_write [OF b]) (simp_all add: succeeded_set)
  have "card Out = Suc (card (Out - {?idx}))" using coBase_finite [OF b] e by (rule card.remove)
  moreover have "collectedOK acc (set (st_spawned s) - (Out - {?idx})) (st_qs s)"
    by (rule collectedOK_mono [OF coBaseD(8) [OF b]]) blast
  moreover have "Out - {?idx} \<subseteq> set (st_spawned s)" using coBaseD(2) [OF b] by blast
  ultimately show "coBase acc eligible strategy0 (Out - {?idx}) (completeInFlight ev s)"
    using b1 by (simp add: coBase_def completeInFlight_def)
  show "?idx \<notin> set (qs_strategyIndices (st_qs s))"
    using coBaseD(8) [OF b] e unfolding collectedOK_def by blast
qed

lemma completeInFlight_loopSets:
  "loopSets Out s \<Longrightarrow> loopSets (Out - {ev_strategyIdx ev}) (completeInFlight ev s)"
  by (auto simp: loopSets_def completeInFlight_def)

lemma recordSuccess_simps [simp]:
  "st_spawned (recordSuccess sr ev s) = st_spawned s" "st_control (recordSuccess sr ev s) = st_control s"
  "st_cancelCause (recordSuccess sr ev s) = st_cancelCause s"
  "st_inFlight (recordSuccess sr ev s) = st_inFlight s"
  "st_inFlightIndices (recordSuccess sr ev s) = st_inFlightIndices s"
  "st_slowInFlightIndices (recordSuccess sr ev s) = st_slowInFlightIndices s"
  by (simp_all add: recordSuccess_def Let_def)

lemma recordSuccess_coBase:
  assumes b: "coBase acc eligible strategy0 Out s"
    and idx: "ev_strategyIdx ev \<in> set (st_spawned s) - Out" "ev_strategyIdx ev \<notin> set (qs_strategyIndices (st_qs s))"
    and ev: "ev_outcome ev = successful" "acc (ev_strategyIdx ev) (ev_response ev) (ev_sct ev)"
  shows "coBase acc eligible strategy0 Out (recordSuccess sr ev s)"
proof -
  let ?idx = "ev_strategyIdx ev"
  have lt: "?idx < length (st_strategy s)" using coBase_bound [OF b] idx(1) by simp
  have ns: "?idx \<notin> succeeded (st_strategy s)" using b idx(2) by (auto simp: coBase_def)
  show ?thesis
  proof (cases "helpsQuorum (st_qs s) sr (st_strategy s ! ?idx)")
    case False
    have "coBase acc eligible strategy0 Out
        (s\<lparr>st_strategy := setOutcome ?idx ''Submission successful, but doesn't help quorum'' (st_strategy s)\<rparr>)"
      by (rule coBase_write [OF b]) (use ns lt in \<open>simp_all add: succeeded_set successful_def\<close>)
    then show ?thesis using False by (simp add: recordSuccess_def Let_def)
  next
    case True
    let ?strategy = "setOutcome ?idx (ev_outcome ev) (st_strategy s)"
    let ?qs = "addSuccess (st_qs s) ?strategy ?idx (ev_response ev) (ev_sct ev)"
    have k: "keepsMembers (st_strategy s) ?strategy" by simp
    have wf: "quorumWF ?strategy ?qs"
      by (rule quorumWF_addSuccess, rule quorumWF_cong [of "st_strategy s"])
        (use b lt keepsMembersD [OF k] in \<open>auto simp: coBase_def\<close>)
    have coll: "collectedOK acc (set (st_spawned s) - Out) ?qs"
      using b idx ev(2) by (auto simp: coBase_def collectedOK_def addSuccess_def Let_def nth_append less_Suc_eq)
    have su: "succeeded ?strategy = set (qs_strategyIndices ?qs)"
      using b lt ev(1) by (auto simp: succeeded_set coBase_def addSuccess_def Let_def)
    have frame: "frameOK strategy0 ?strategy" using b frameOK_keeps [OF _ k] by (auto simp: coBase_def)
    have began: "\<forall>idx \<in> set eligible. sm_BeganAfter (?strategy ! idx) = sm_BeganAfter (st_strategy s ! idx)"
      using keepsMembersD(4) [OF k] coBase_eligible_bound [OF b] by blast
    show ?thesis
      using b wf coll su frame began True by (simp add: recordSuccess_def Let_def coBase_def)
  qed
qed

section \<open>Returning\<close>

lemma keep_zip:
  "length sel = length xs \<Longrightarrow> length ys = length xs \<Longrightarrow> zip (keep sel xs) (keep sel ys) = keep sel (zip xs ys)"
proof (induction sel xs arbitrary: ys rule: list_induct2)
  case Nil
  then show ?case by (simp add: mask_simps)
next
  case (Cons b sel x xs)
  then show ?case by (cases ys) (auto simp: mask_simps)
qed

lemma distinct_keep: "length sel = length xs \<Longrightarrow> distinct xs \<Longrightarrow> distinct (keep sel xs)"
proof (induction sel xs rule: list_induct2)
  case Nil
  then show ?case by (simp add: mask_simps)
next
  case (Cons b sel x xs)
  then show ?case using set_keep_subset [of sel xs] by (auto simp: mask_simps)
qed

lemma collectedOK_keep:
  assumes c: "collectedOK acc A qs" and sel: "length sel = length (qs_responses qs)"
    and k: "qs_responses qs' = keep sel (qs_responses qs)" "qs_scts qs' = keep sel (qs_scts qs)"
      "qs_strategyIndices qs' = keep sel (qs_strategyIndices qs)"
  shows "collectedOK acc A qs'"
proof -
  have "zip (qs_strategyIndices qs') (zip (qs_responses qs') (qs_scts qs')) =
      keep sel (zip (qs_strategyIndices qs) (zip (qs_responses qs) (qs_scts qs)))"
    using c sel k by (simp add: collectedOK_def keep_zip)
  then have "list_all (\<lambda>(i, r, s). acc i r s) (zip (qs_strategyIndices qs') (zip (qs_responses qs') (qs_scts qs')))"
    using c set_keep_subset [of sel] unfolding collectedOK_def list_all_iff by (metis subsetD)
  moreover have "set (qs_strategyIndices qs') \<subseteq> A"
    using c k(3) set_keep_subset [of sel "qs_strategyIndices qs"] by (auto simp: collectedOK_def)
  moreover have "length (qs_scts qs') = length (qs_responses qs')" "length (qs_strategyIndices qs') = length (qs_responses qs')"
    "distinct (qs_strategyIndices qs')"
    using c sel k by (simp_all add: collectedOK_def length_keep distinct_keep)
  ultimately show ?thesis by (simp add: collectedOK_def)
qed

text \<open>What the request must promise for a trimmed quorum to have exactly sr.SCTs SCTs.\<close>

definition requirementsOK :: "SubmissionRequest \<Rightarrow> bool" where
  "requirementsOK sr \<longleftrightarrow> 1 \<le> sr_SCTs sr \<and> sr_Operators sr \<le> sr_SCTs sr \<and> \<not> staticConflict sr"

lemma succeeded_markNotNeeded:
  "succeeded (markNotNeeded sis strategy) = succeeded strategy - set sis"
proof -
  have "notNeeded \<noteq> successful" by (simp add: successful_def notNeeded_def)
  then show ?thesis by (auto simp: succeeded_def markNotNeeded_nth split: if_splits)
qed

lemma succeeded_trim:
  assumes wf: "quorumWF strategy qs" and met: "isQuorumMet qs sr" and ok: "requirementsOK sr"
    and d: "distinct (qs_strategyIndices qs)" and su: "succeeded strategy = set (qs_strategyIndices qs)"
    and trim: "trimToQuorum qs sr strategy = (qs', strategy')"
  shows "succeeded strategy' = set (qs_strategyIndices qs')"
proof (cases "int (length (qs_responses qs)) \<le> sr_SCTs sr")
  case True
  then show ?thesis using trim su by (simp add: trimToQuorum_def)
next
  case False
  let ?sel = "trimSelection qs sr strategy"
  have len: "length ?sel = length (qs_strategyIndices qs)"
    using trimSelection_spec(1) [OF wf met] ok by (simp add: requirementsOK_def)
  from False trim have "qs_strategyIndices qs' = keep ?sel (qs_strategyIndices qs)"
    "strategy' = markNotNeeded (keep (map Not ?sel) (qs_strategyIndices qs)) strategy"
    by (auto simp: trimToQuorum_def Let_def)
  then show ?thesis using keep_complement [OF len d] su by (simp add: succeeded_markNotNeeded)
qed

lemma return_simps [simp]:
  "st_spawned (returnWith eligible r s) = st_spawned s"
  "st_spawned (returnTrimmed sr eligible s) = st_spawned s"
  "st_spawned (loopExit sr eligible s) = st_spawned s"
  "st_spawned (loopCheck sr eligible s) = st_spawned s"
  "st_spawned (quorumReached sr eligible s) = st_spawned s"
  by (simp_all add: returnWith_def returnTrimmed_def loopExit_def loopCheck_def quorumReached_def Let_def
      split: prod.split)

lemma annotated_nonempty:
  assumes "eligibleOK eligible strategy0" and "frameOK strategy0 strategy" and "idx \<in> set eligible"
  shows "sm_Outcome (annotateUnattempted eligible strategy ! idx) \<noteq> []"
  using assms by (subst annotate_outcome) (auto simp: eligibleOK_def frameOK_def)

text \<open>Returning an error: the reason is one that resultOK allows.\<close>

lemma returnErr_coInv:
  assumes b: "coBase acc eligible strategy0 {} s"
    and e: "st_cancelCause s = Some e \<and> e \<noteq> QuorumMetCause \<or>
      e = Errorf (''quorum not achieved: '' @ quorumFailureReason (st_qs s) sr) \<and>
      \<not> isQuorumMet (st_qs s) sr \<and> exhausted sr eligible s"
  shows "coInv acc sr eligible strategy0 {} (returnWith eligible (Err e) s)"
proof -
  let ?strategy = "annotateUnattempted eligible (st_strategy s)"
  have k: "keepsMembers (st_strategy s) ?strategy" by simp
  have "wouldHelp (st_qs s) sr (?strategy ! idx) ?strategy {} =
      wouldHelp (st_qs s) sr (st_strategy s ! idx) (st_strategy s) {}" if "idx \<in> set eligible" for idx
    by (rule wouldHelp_keeps [OF k coBase_eligible_bound [OF b that]])
  then have "exhausted sr eligible s \<Longrightarrow> exhausted sr eligible (s\<lparr>st_strategy := ?strategy, st_control := c\<rparr>)" for c
    by (simp add: exhausted_def)
  moreover have "\<forall>idx \<in> set eligible. sm_Outcome (?strategy ! idx) \<noteq> []"
    using annotated_nonempty [OF coBaseD(1,6) [OF b]] by blast
  moreover have "frameOK strategy0 ?strategy" by (rule frameOK_keeps [OF coBaseD(6) [OF b] k])
  ultimately show ?thesis
    using e coBaseD(4,5,9) [OF b] by (auto simp: coInv_def resultOK_def returnWith_def succeeded_annotate)
qed

text \<open>Returning the trimmed quorum.\<close>

lemma returnTrimmed_coInv:
  assumes b: "coBase acc eligible strategy0 {} s" and met: "isQuorumMet (st_qs s) sr" and ok: "requirementsOK sr"
  shows "coInv acc sr eligible strategy0 {} (returnTrimmed sr eligible s)"
proof -
  obtain qs strategy where trim: "trimToQuorum (st_qs s) sr (st_strategy s) = (qs, strategy)" by fastforce
  let ?strategy = "annotateUnattempted eligible strategy"
  have ok3: "1 \<le> sr_SCTs sr" "sr_Operators sr \<le> sr_SCTs sr" "\<not> staticConflict sr"
    using ok by (auto simp: requirementsOK_def)
  note wf = coBaseD(7) [OF b] and coll0 = coBaseD(8) [OF b] and su0 = coBaseD(9) [OF b]
  note spec = trimToQuorum_spec [OF wf met ok3 trim]
  have "keepsMembers (st_strategy s) strategy" using keepsMembers_trim [of "st_strategy s" "st_qs s" sr] trim by simp
  then have k: "keepsMembers (st_strategy s) ?strategy" by (rule keepsMembers_trans) simp
  have d: "distinct (qs_strategyIndices (st_qs s))" using coll0 by (simp add: collectedOK_def)
  have su: "succeeded ?strategy = set (qs_strategyIndices qs)"
    using succeeded_trim [OF wf met ok d su0 trim] by (simp add: succeeded_annotate)
  obtain sel where sel: "length sel = length (qs_responses (st_qs s))" "qs_responses qs = keep sel (qs_responses (st_qs s))"
    "qs_scts qs = keep sel (qs_scts (st_qs s))" "qs_strategyIndices qs = keep sel (qs_strategyIndices (st_qs s))"
    using spec(5) by blast
  have coll: "collectedOK acc (set (st_spawned s)) qs"
    using collectedOK_keep [OF coll0 sel] by (rule collectedOK_mono) blast
  have lt: "\<forall>si \<in> set (qs_strategyIndices qs). si < length (st_strategy s)"
    using coll coBase_bound [OF b] by (auto simp: collectedOK_def)
  have ops: "(\<lambda>si. sm_Operator (?strategy ! si)) ` set (qs_strategyIndices qs) =
      (\<lambda>si. sm_Operator (st_strategy s ! si)) ` set (qs_strategyIndices qs)"
    by (rule image_cong) (use lt keepsMembersD(2) [OF k] in auto)
  have rfc: "\<forall>si \<in> set (qs_strategyIndices qs). sm_LogType (?strategy ! si) = sm_LogType (st_strategy s ! si)"
    using lt keepsMembersD(3) [OF k] by blast
  have frame: "frameOK strategy0 ?strategy" by (rule frameOK_keeps [OF coBaseD(6) [OF b] k])
  have "frameOK strategy0 strategy"
    by (rule frameOK_keeps [OF coBaseD(6) [OF b] \<open>keepsMembers (st_strategy s) strategy\<close>])
  then have ne: "\<forall>idx \<in> set eligible. sm_Outcome (?strategy ! idx) \<noteq> []"
    using annotated_nonempty [OF coBaseD(1) [OF b]] by blast
  show ?thesis
    using trim spec(1,2,3) su coll ops rfc frame ne coBaseD(4,5) [OF b]
    by (simp add: coInv_def resultOK_def returnTrimmed_def returnWith_def)
qed

section \<open>Every event keeps the invariant\<close>

lemma loopCheck_coInv:
  assumes b: "coBase acc eligible strategy0 Out s" and l: "loopSets Out s" and ok: "requirementsOK sr"
    and st: "\<not> isQuorumMet (st_qs s) sr" "st_cancelCause s = None" "st_control s = Looping"
    and ex: "Out = {} \<Longrightarrow> exhausted sr eligible s"
  shows "coInv acc sr eligible strategy0 Out (loopCheck sr eligible s)"
proof (cases "Out = {}")
  case False
  then have "0 < st_inFlight s" using coBaseD(3) [OF b] coBase_finite [OF b] by (simp add: card_gt_0_iff)
  then show ?thesis using False b l st by (simp add: loopCheck_def coInv_def)
next
  case True
  then show ?thesis
    using returnErr_coInv [of acc eligible strategy0 s _ sr] b st ex coBaseD(3) [OF b]
    by (simp add: loopCheck_def loopExit_def)
qed

lemma startNext_coInv:
  assumes b: "coBase acc eligible strategy0 Out s" and l: "loopSets Out s" and ok: "requirementsOK sr"
    and st: "\<not> isQuorumMet (st_qs s) sr" "st_cancelCause s = None" "st_control s = Looping"
    and pos: "\<forall>n. 0 < elapsed n"
    and s': "s' = loopCheck sr eligible (startNextEligible sr elapsed eligible s)"
  shows "coInv acc sr eligible strategy0 (Out \<union> (set (st_spawned s') - set (st_spawned s))) s'"
proof (cases rule: startNextEligible_cases [of eligible s sr elapsed])
  case (launched i)
  let ?s = "launchEligible elapsed eligible i s"
  note base = launch_coBase [OF b launched(1,2) pos]
  have "coInv acc sr eligible strategy0 (insert (eligible ! i) Out) (loopCheck sr eligible ?s)"
    by (rule loopCheck_coInv [OF base(1) launch_loopSets [OF l base(2)] ok]) (use st in simp_all)
  moreover have "eligible ! i \<notin> set (st_spawned s)" using coBase_unattempted [OF b launched(1)] launched(2) by simp
  then have "Out \<union> (set (st_spawned s') - set (st_spawned s)) = insert (eligible ! i) Out"
    using s' launched(4) by auto
  ultimately show ?thesis using s' launched(4) by simp
next
  case none
  have "exhausted sr eligible s" if "Out = {}"
  proof -
    have "st_inFlightIndices s = {}" using l that by (auto simp: loopSets_def)
    then show ?thesis
      using none(2) coBase_unattempted [OF b] by (auto simp: exhausted_def in_set_conv_nth)
  qed
  then have "coInv acc sr eligible strategy0 Out (loopCheck sr eligible s)"
    by (rule loopCheck_coInv [OF b l ok st])
  then show ?thesis using s' none(1) by simp
qed

lemma quorumReached_coInv:
  assumes b: "coBase acc eligible strategy0 Out s" and l: "loopSets Out s" and ok: "requirementsOK sr"
    and met: "isQuorumMet (st_qs s) sr"
  shows "coInv acc sr eligible strategy0 Out (quorumReached sr eligible s)"
proof -
  let ?s = "s\<lparr>st_strategy := setOutcomes Out ''Submission cancelled (quorum met)'' (st_strategy s),
              st_cancelCause := Some QuorumMetCause\<rparr>"
  have eq: "quorumReached sr eligible s = (if 0 < st_inFlight s then ?s\<lparr>st_control := DrainingQuorum\<rparr>
      else returnTrimmed sr eligible ?s)"
    using l by (simp add: quorumReached_def Let_def loopSets_def)
  have "succeeded (st_strategy s) - Out = succeeded (st_strategy s)"
    using coBaseD(8,9) [OF b] by (auto simp: collectedOK_def)
  then have b': "coBase acc eligible strategy0 Out ?s"
    using coBase_write [OF b, of "setOutcomes Out ''Submission cancelled (quorum met)'' (st_strategy s)"]
    by (simp add: succeeded_set successful_def)
  show ?thesis
  proof (cases "Out = {}")
    case True
    then show ?thesis using eq coBaseD(3) [OF b] returnTrimmed_coInv [of acc eligible strategy0 ?s sr] b' met ok by simp
  next
    case False
    then have "0 < st_inFlight s" using coBaseD(3) [OF b] coBase_finite [OF b] by (simp add: card_gt_0_iff)
    then show ?thesis using False eq b' met by (simp add: coInv_def)
  qed
qed

lemma outAfter_final: "isFinal ev \<Longrightarrow> outAfter Out ev s s' =
    Out - {ev_strategyIdx ev} \<union> (set (st_spawned s') - set (st_spawned s))"
  "\<not> isFinal ev \<Longrightarrow> outAfter Out ev s s' = Out \<union> (set (st_spawned s') - set (st_spawned s))"
  by (simp_all add: outAfter_def)

lemma handleSuccess_coInv:
  assumes b: "coBase acc eligible strategy0 Out s" and l: "loopSets Out s" and ok: "requirementsOK sr"
    and st: "\<not> isQuorumMet (st_qs s) sr" "st_cancelCause s = None" "st_control s = Looping"
    and pos: "\<forall>n. 0 < elapsed n" and ev: "evOK acc Out ev" "ev_eventType ev = eventSuccess"
  shows "coInv acc sr eligible strategy0 (outAfter Out ev s (handleSuccess sr elapsed eligible ev s))
    (handleSuccess sr elapsed eligible ev s)"
proof -
  let ?idx = "ev_strategyIdx ev"
  let ?s0 = "completeInFlight ev s"
  let ?s1 = "recordSuccess sr ev ?s0"
  have idx: "?idx \<in> Out" "ev_outcome ev = successful" "acc ?idx (ev_response ev) (ev_sct ev)"
    using ev by (auto simp: evOK_def)
  note c = completeInFlight_coBase [OF b idx(1)]
  have "?idx \<in> set (st_spawned ?s0) - (Out - {?idx})" using coBaseD(2) [OF b] idx(1) by auto
  then have b1: "coBase acc eligible strategy0 (Out - {?idx}) ?s1"
    by (rule recordSuccess_coBase [OF c(1)]) (use c(2) idx in simp_all)
  have l1: "loopSets (Out - {?idx}) ?s1" using completeInFlight_loopSets [OF l, of ev] by (simp add: loopSets_def)
  have fin: "isFinal ev" using ev(2) by (simp add: isFinal_def)
  show ?thesis
  proof (cases "isQuorumMet (st_qs ?s1) sr")
    case True
    then show ?thesis
      using quorumReached_coInv [OF b1 l1 ok] by (simp add: handleSuccess_def Let_def outAfter_final(1) [OF fin])
  next
    case False
    have st1: "st_cancelCause ?s1 = None" "st_control ?s1 = Looping" using st by simp_all
    have inf: "st_inFlight ?s1 = 0 \<longleftrightarrow> Out - {?idx} = {}"
      using coBaseD(3) [OF b1] coBase_finite [OF b1] by simp
    show ?thesis
    proof (cases "st_inFlight ?s1 = 0")
      case True
      then show ?thesis
        using startNext_coInv [OF b1 l1 ok False st1 pos refl] False
        by (simp add: handleSuccess_def Let_def outAfter_final(1) [OF fin])
    next
      case nz: False
      then have "coInv acc sr eligible strategy0 (Out - {?idx}) (loopCheck sr eligible ?s1)"
        using loopCheck_coInv [OF b1 l1 ok False st1] inf by blast
      then show ?thesis using nz False by (simp add: handleSuccess_def Let_def outAfter_final(1) [OF fin])
    qed
  qed
qed

lemma failed_coBase:
  assumes b: "coBase acc eligible strategy0 Out s" and idx: "ev_strategyIdx ev \<in> Out" "ev_outcome ev \<noteq> successful"
  defines "s0 \<equiv> completeInFlight ev s"
  shows "coBase acc eligible strategy0 (Out - {ev_strategyIdx ev})
    (s0\<lparr>st_strategy := setOutcome (ev_strategyIdx ev) (ev_outcome ev) (st_strategy s0)\<rparr>)"
proof -
  let ?idx = "ev_strategyIdx ev"
  have len: "length (st_strategy s0) = length (st_strategy s)"
    by (simp add: s0_def completeInFlight_def setTimeTaken_def)
  note c = completeInFlight_coBase [OF b idx(1), folded s0_def]
  have "?idx \<notin> succeeded (st_strategy s0)" using c coBaseD(9) [OF c(1)] by (simp add: s0_def)
  moreover have "?idx < length (st_strategy s0)" using coBase_bound [OF b] coBaseD(2) [OF b] idx(1) len by auto
  ultimately show ?thesis by (intro coBase_write [OF c(1)]) (use idx in \<open>simp_all add: succeeded_set\<close>)
qed

lemma handleFailure_coInv:
  assumes b: "coBase acc eligible strategy0 Out s" and l: "loopSets Out s" and ok: "requirementsOK sr"
    and st: "\<not> isQuorumMet (st_qs s) sr" "st_cancelCause s = None" "st_control s = Looping"
    and pos: "\<forall>n. 0 < elapsed n" and ev: "evOK acc Out ev" "ev_eventType ev = eventFailure"
  shows "coInv acc sr eligible strategy0 (outAfter Out ev s (handleFailure sr elapsed eligible ev s))
    (handleFailure sr elapsed eligible ev s)"
proof -
  let ?idx = "ev_strategyIdx ev"
  let ?s0 = "completeInFlight ev s"
  let ?s1 = "?s0\<lparr>st_strategy := setOutcome ?idx (ev_outcome ev) (st_strategy ?s0)\<rparr>"
  have idx: "?idx \<in> Out" "ev_outcome ev \<noteq> successful" using ev by (auto simp: evOK_def)
  note b1 = failed_coBase [OF b idx]
  have l1: "loopSets (Out - {?idx}) ?s1" using completeInFlight_loopSets [OF l, of ev] by (simp add: loopSets_def)
  have h: "handleFailure sr elapsed eligible ev s =
      loopCheck sr eligible (if st_inFlight ?s1 = 0 then startNextEligible sr elapsed eligible ?s1 else ?s1)"
    by (simp add: handleFailure_def Let_def completeInFlight_def)
  have fin: "isFinal ev" using ev(2) by (simp add: isFinal_def)
  have st1: "\<not> isQuorumMet (st_qs ?s1) sr" "st_cancelCause ?s1 = None" "st_control ?s1 = Looping" using st by simp_all
  have sp: "st_spawned ?s1 = st_spawned s" by simp
  show ?thesis
  proof (cases "st_inFlight ?s1 = 0")
    case True
    then have h1: "handleFailure sr elapsed eligible ev s = loopCheck sr eligible (startNextEligible sr elapsed eligible ?s1)"
      using h by simp
    show ?thesis
      using startNext_coInv [OF b1 l1 ok st1 pos h1] unfolding outAfter_final(1) [OF fin] sp by simp
  next
    case nz: False
    have "Out - {?idx} \<noteq> {}"
    proof
      assume "Out - {?idx} = {}"
      then have "st_inFlight ?s1 = int (card ({} :: nat set))" using coBaseD(3) [OF b1] by (simp only:)
      then show False using nz by simp
    qed
    then have "coInv acc sr eligible strategy0 (Out - {?idx}) (loopCheck sr eligible ?s1)"
      using loopCheck_coInv [OF b1 l1 ok st1] by blast
    then show ?thesis using nz h by (simp add: outAfter_final(1) [OF fin])
  qed
qed

lemma handleTryNext_coInv:
  assumes b: "coBase acc eligible strategy0 Out s" and l: "loopSets Out s" and ok: "requirementsOK sr"
    and st: "\<not> isQuorumMet (st_qs s) sr" "st_cancelCause s = None" "st_control s = Looping"
    and pos: "\<forall>n. 0 < elapsed n" and ev: "evOK acc Out ev" "ev_eventType ev = eventTryNext"
  shows "coInv acc sr eligible strategy0 (outAfter Out ev s (handleTryNext sr elapsed eligible ev s))
    (handleTryNext sr elapsed eligible ev s)"
proof -
  let ?idx = "ev_strategyIdx ev"
  let ?s1 = "s\<lparr>st_inFlightIndices := st_inFlightIndices s - {?idx},
               st_slowInFlightIndices := insert ?idx (st_slowInFlightIndices s)\<rparr>"
  have idx: "?idx \<in> Out" using ev by (simp add: evOK_def)
  have b1: "coBase acc eligible strategy0 Out ?s1" using b by simp
  have l1: "loopSets Out ?s1" using l idx by (auto simp: loopSets_def)
  have st1: "\<not> isQuorumMet (st_qs ?s1) sr" "st_cancelCause ?s1 = None" "st_control ?s1 = Looping" using st by simp_all
  have nf: "\<not> isFinal ev" using ev(2) by (simp add: isFinal_def)
  have h: "handleTryNext sr elapsed eligible ev s = loopCheck sr eligible (startNextEligible sr elapsed eligible ?s1)"
    by (simp add: handleTryNext_def Let_def)
  show ?thesis using startNext_coInv [OF b1 l1 ok st1 pos h] by (simp add: outAfter_final(2) [OF nf])
qed

lemma handleSlow_coInv:
  assumes b: "coBase acc eligible strategy0 Out s" and l: "loopSets Out s" and ok: "requirementsOK sr"
    and st: "\<not> isQuorumMet (st_qs s) sr" "st_cancelCause s = None" "st_control s = Looping"
    and ev: "evOK acc Out ev" "ev_eventType ev = eventSlow"
  shows "coInv acc sr eligible strategy0 (outAfter Out ev s (handleSlow sr eligible ev s)) (handleSlow sr eligible ev s)"
proof -
  let ?s1 = "s\<lparr>st_slowRecorded := st_slowRecorded s @ [sm_SubmissionURL (st_strategy s ! ev_strategyIdx ev)]\<rparr>"
  have "coInv acc sr eligible strategy0 Out (loopCheck sr eligible ?s1)"
    by (rule loopCheck_coInv [OF _ _ ok]) (use b l st ev in \<open>auto simp: loopSets_def evOK_def\<close>)
  moreover have "\<not> isFinal ev" using ev(2) by (simp add: isFinal_def)
  ultimately show ?thesis by (simp add: handleSlow_def outAfter_final(2))
qed

text \<open>A final event in a drain loop: one log less owes one.\<close>

lemma drained_coBase:
  assumes b: "coBase acc eligible strategy0 Out s" and e: "ev_strategyIdx ev \<in> Out"
    and k: "keepsMembers (st_strategy s) strategy" "succeeded strategy = succeeded (st_strategy s)"
  shows "coBase acc eligible strategy0 (Out - {ev_strategyIdx ev})
    (s\<lparr>st_inFlight := st_inFlight s - 1, st_strategy := strategy\<rparr>)"
proof -
  have b1: "coBase acc eligible strategy0 Out (s\<lparr>st_strategy := strategy\<rparr>)" by (rule coBase_write [OF b k])
  have "card Out = Suc (card (Out - {ev_strategyIdx ev}))" using coBase_finite [OF b] e by (rule card.remove)
  moreover have "collectedOK acc (set (st_spawned s) - (Out - {ev_strategyIdx ev})) (st_qs s)"
    by (rule collectedOK_mono [OF coBaseD(8) [OF b]]) blast
  moreover have "Out - {ev_strategyIdx ev} \<subseteq> set (st_spawned s)" using coBaseD(2) [OF b] by blast
  ultimately show ?thesis using b1 by (simp add: coBase_def)
qed

lemma drain_spawned [simp]:
  "st_spawned (drainQuorum sr eligible ev s) = st_spawned s" "st_spawned (drainCtx e eligible ev s) = st_spawned s"
  by (simp_all add: drainQuorum_def drainCtx_def Let_def)

lemma drainQuorum_coInv:
  assumes b: "coBase acc eligible strategy0 Out s" and ok: "requirementsOK sr"
    and st: "isQuorumMet (st_qs s) sr" "st_cancelCause s = Some QuorumMetCause" "st_control s = DrainingQuorum"
    and ne: "Out \<noteq> {}" and ev: "evOK acc Out ev"
  shows "coInv acc sr eligible strategy0 (outAfter Out ev s (drainQuorum sr eligible ev s)) (drainQuorum sr eligible ev s)"
proof (cases "isFinal ev")
  case False
  then have "drainQuorum sr eligible ev s = s"
    using ne coBaseD(3) [OF b] coBase_finite [OF b] by (simp add: drainQuorum_def card_gt_0_iff)
  then show ?thesis using b st ne False by (simp add: outAfter_final coInv_def)
next
  case True
  let ?Out = "Out - {ev_strategyIdx ev}"
  let ?s1 = "s\<lparr>st_inFlight := st_inFlight s - 1,
               st_strategy := setTimeTaken (ev_strategyIdx ev) (ev_timeTaken ev) (st_strategy s)\<rparr>"
  have b1: "coBase acc eligible strategy0 ?Out ?s1"
    by (rule drained_coBase [OF b]) (use ev in \<open>simp_all add: evOK_def succeeded_set\<close>)
  have "coInv acc sr eligible strategy0 ?Out (if 0 < st_inFlight ?s1 then ?s1 else returnTrimmed sr eligible ?s1)"
  proof (cases "?Out = {}")
    case e: True
    have "st_inFlight ?s1 = int (card ({} :: nat set))" using coBaseD(3) [OF b1] unfolding e .
    then have z: "\<not> 0 < st_inFlight ?s1" by simp
    have "coBase acc eligible strategy0 {} ?s1" using b1 unfolding e .
    then have "coInv acc sr eligible strategy0 {} (returnTrimmed sr eligible ?s1)"
      by (rule returnTrimmed_coInv) (use st ok in simp_all)
    then show ?thesis unfolding e using z by simp
  next
    case False
    have "0 < st_inFlight ?s1"
      unfolding coBaseD(3) [OF b1] using False coBase_finite [OF b1] by (simp add: card_gt_0_iff)
    then show ?thesis using b1 st False by (simp add: coInv_def)
  qed
  moreover have "drainQuorum sr eligible ev s = (if 0 < st_inFlight ?s1 then ?s1 else returnTrimmed sr eligible ?s1)"
    using True by (simp add: drainQuorum_def Let_def)
  moreover have "outAfter Out ev s (drainQuorum sr eligible ev s) = ?Out"
    unfolding outAfter_final(1) [OF True] drain_spawned by simp
  ultimately show ?thesis by simp
qed

lemma drainCtx_coInv:
  assumes b: "drainBase eligible strategy0 Out s"
    and st: "st_cancelCause s = Some e" "st_control s = DrainingCtx e" "e \<noteq> QuorumMetCause"
    and ne: "Out \<noteq> {}" and ev: "ev_strategyIdx ev \<in> Out"
  shows "coInv acc sr eligible strategy0 (outAfter Out ev s (drainCtx e eligible ev s)) (drainCtx e eligible ev s)"
proof (cases "isFinal ev")
  case False
  have "0 < st_inFlight s"
    using b ne by (auto simp: drainBase_def card_gt_0_iff intro: finite_subset)
  then have "drainCtx e eligible ev s = s" using False by (simp add: drainCtx_def Let_def)
  then show ?thesis using b st ne False by (simp add: outAfter_final(2) coInv_def)
next
  case True
  let ?idx = "ev_strategyIdx ev"
  let ?Out = "Out - {?idx}"
  let ?strategy = "setTimeTaken ?idx (ev_timeTaken ev) (st_strategy s)"
  let ?strategy' = "if sm_Outcome (?strategy ! ?idx) = [] then setOutcome ?idx (ev_outcome ev) ?strategy else ?strategy"
  let ?s1 = "s\<lparr>st_inFlight := st_inFlight s - 1, st_strategy := ?strategy'\<rparr>"
  have fin: "finite Out" using b by (auto simp: drainBase_def intro: finite_subset)
  have "keepsMembers (st_strategy s) ?strategy'"
    by (auto intro: keepsMembers_trans [OF keepsMembers_set(2) keepsMembers_set(1)])
  then have frame: "frameOK strategy0 ?strategy'" using b frameOK_keeps by (auto simp: drainBase_def)
  have "card Out = Suc (card ?Out)" using fin ev by (rule card.remove)
  moreover have "?Out \<subseteq> set (st_spawned s)" using b by (auto simp: drainBase_def)
  ultimately have b1: "drainBase eligible strategy0 ?Out ?s1" using b frame by (simp add: drainBase_def)
  then have inf: "st_inFlight ?s1 = int (card ?Out)" by (simp add: drainBase_def)
  have eq: "drainCtx e eligible ev s = (if 0 < st_inFlight ?s1 then ?s1 else returnWith eligible (Err e) ?s1)"
    using True by (simp add: drainCtx_def Let_def)
  show ?thesis
  proof (cases "?Out = {}")
    case e: True
    have "st_inFlight ?s1 = int (card ({} :: nat set))" using inf unfolding e .
    then have ret: "drainCtx e eligible ev s = returnWith eligible (Err e) ?s1" using eq by simp
    have "frameOK strategy0 (annotateUnattempted eligible ?strategy')" by (rule frameOK_keeps [OF frame]) simp
    moreover have "\<forall>idx \<in> set eligible. sm_Outcome (annotateUnattempted eligible ?strategy' ! idx) \<noteq> []"
      using annotated_nonempty [OF _ frame] b by (auto simp: drainBase_def)
    ultimately have "coInv acc sr eligible strategy0 {} (returnWith eligible (Err e) ?s1)"
      using st b by (simp add: coInv_def resultOK_def returnWith_def drainBase_def)
    moreover have "outAfter Out ev s (drainCtx e eligible ev s) = {}"
      using ret e by (simp add: outAfter_final(1) [OF True])
    ultimately show ?thesis using ret by simp
  next
    case False
    have "0 < st_inFlight ?s1" unfolding inf using False fin by (simp add: card_gt_0_iff)
    then have "drainCtx e eligible ev s = ?s1" using eq by simp
    then show ?thesis using b1 st False by (simp add: coInv_def outAfter_final(1) [OF True])
  qed
qed

lemma coBase_drainBase: "coBase acc eligible strategy0 Out s \<Longrightarrow> drainBase eligible strategy0 Out s"
  by (simp add: coBase_def drainBase_def)

text \<open>The two inputs of the coordinator keep the invariant.\<close>

lemma receiveEvent_coInv:
  assumes inv: "coInv acc sr eligible strategy0 Out s" and ok: "requirementsOK sr"
    and pos: "\<forall>n. 0 < elapsed n" and ev: "evOK acc Out ev"
  shows "coInv acc sr eligible strategy0 (outAfter Out ev s (receiveEvent sr elapsed eligible ev s))
    (receiveEvent sr elapsed eligible ev s)"
proof (cases "st_control s")
  case Looping
  then have i: "coBase acc eligible strategy0 Out s" "loopSets Out s" "\<not> isQuorumMet (st_qs s) sr" "st_cancelCause s = None"
    using inv by (auto simp: coInv_def)
  show ?thesis
  proof (cases "ev_eventType ev")
    case eventSuccess
    then show ?thesis using handleSuccess_coInv [OF i(1,2) ok i(3,4) Looping pos ev] Looping by (simp add: receiveEvent_def)
  next
    case eventFailure
    then show ?thesis using handleFailure_coInv [OF i(1,2) ok i(3,4) Looping pos ev] Looping by (simp add: receiveEvent_def)
  next
    case eventTryNext
    then show ?thesis using handleTryNext_coInv [OF i(1,2) ok i(3,4) Looping pos ev] Looping by (simp add: receiveEvent_def)
  next
    case eventSlow
    then show ?thesis using handleSlow_coInv [OF i(1,2) ok i(3,4) Looping ev] Looping by (simp add: receiveEvent_def)
  qed
next
  case DrainingQuorum
  then show ?thesis
    using inv drainQuorum_coInv [of acc eligible strategy0 Out s sr ev] ok ev by (simp add: coInv_def receiveEvent_def)
next
  case (DrainingCtx e)
  then show ?thesis
    using inv drainCtx_coInv [of eligible strategy0 Out s e ev acc sr] ev by (simp add: coInv_def receiveEvent_def evOK_def)
next
  case (Returned r)
  then show ?thesis using inv ev by (simp add: coInv_def evOK_def)
qed

lemma ctxDone_coInv:
  assumes inv: "coInv acc sr eligible strategy0 Out s" and e: "e \<noteq> QuorumMetCause"
  shows "coInv acc sr eligible strategy0 Out (ctxDone e s)"
proof (cases "st_control s")
  case Looping
  then have "drainBase eligible strategy0 Out s" "Out \<noteq> {}"
    using inv coBase_drainBase by (auto simp: coInv_def)
  then show ?thesis using e Looping by (simp add: coInv_def ctxDone_def drainBase_def)
qed (use inv in \<open>simp_all add: ctxDone_def\<close>)

lemma ctxDone_spawned [simp]: "st_spawned (ctxDone e s) = st_spawned s"
  by (simp add: ctxDone_def split: control.split)

text \<open>Launches only ever add to the list of launched logs.\<close>

lemma startNext_spawned: "\<exists>xs. st_spawned (startNextEligible sr elapsed eligible s) = st_spawned s @ xs"
  by (cases rule: startNextEligible_cases [of eligible s sr elapsed]) auto

lemma receiveEvent_spawned: "\<exists>xs. st_spawned (receiveEvent sr elapsed eligible ev s) = st_spawned s @ xs"
proof -
  have c: "st_spawned s1 = st_spawned s \<Longrightarrow>
      \<exists>xs. st_spawned (startNextEligible sr elapsed eligible s1) = st_spawned s @ xs" for s1
    using startNext_spawned [of sr elapsed eligible s1] by simp
  show ?thesis
    by (auto simp: receiveEvent_def handleSuccess_def handleFailure_def handleTryNext_def handleSlow_def Let_def
        intro!: c split: control.split submissionEventType.split)
qed

section \<open>The initial batch\<close>

text \<open>While the first batch goes out, every launched log owes an event and at most \<open>n\<close> are launched.\<close>

definition batchInv ::
  "(nat \<Rightarrow> addChainResponse \<Rightarrow> sct \<Rightarrow> bool) \<Rightarrow> nat list \<Rightarrow> StrategyMember list \<Rightarrow> int \<Rightarrow> submitState \<Rightarrow> bool" where
  "batchInv acc eligible strategy0 n s \<longleftrightarrow>
     coBase acc eligible strategy0 (set (st_spawned s)) s \<and> loopSets (set (st_spawned s)) s \<and>
     st_qs s = newQuorumState \<and> st_cancelCause s = None \<and> st_control s = Looping \<and>
     int (length (st_spawned s)) \<le> n"

lemma initState_batchInv:
  assumes "freshStrategy strategy" and "0 \<le> n"
  shows "batchInv acc (eligibleLogs strategy) strategy n (initState strategy)"
proof -
  have "\<forall>i < length strategy. sm_BeganAfter (strategy ! i) = 0 \<and> sm_Outcome (strategy ! i) \<noteq> successful"
    using assms(1) by (auto simp: freshStrategy_def list_all_length)
  then have "succeeded strategy = {}" "\<forall>idx \<in> set (eligibleLogs strategy). sm_BeganAfter (strategy ! idx) = 0"
    by (auto simp: succeeded_def eligibleLogs_def)
  moreover have "eligibleOK (eligibleLogs strategy) strategy"
    by (auto simp: eligibleOK_def eligibleLogs_def)
  ultimately show ?thesis
    using assms(2) by (simp add: batchInv_def coBase_def loopSets_def initState_def frameOK_def collectedOK_def
        newQuorumState_def) (simp add: newQuorumState_def [symmetric])
qed

lemma launch_batchInv:
  assumes b: "batchInv acc eligible strategy0 n s" and i: "i < length eligible" "unattempted eligible s i"
    and n: "int (st_launchSeq s) < n" and pos: "\<forall>n. 0 < elapsed n"
  shows "batchInv acc eligible strategy0 n (launchEligible elapsed eligible i s)"
proof -
  have c: "coBase acc eligible strategy0 (set (st_spawned s)) s" "loopSets (set (st_spawned s)) s"
    using b by (auto simp: batchInv_def)
  have "int (length (st_spawned s)) < n" using n coBaseD(10) [OF c(1)] by simp
  then show ?thesis
    using b launch_coBase [OF c(1) i pos] launch_loopSets [OF c(2) launch_coBase(2) [OF c(1) i pos], of elapsed]
    by (simp add: batchInv_def)
qed

lemma ensureLogType_batchInv:
  assumes b: "batchInv acc eligible strategy0 n s" and pos: "\<forall>n. 0 < elapsed n"
  shows "batchInv acc eligible strategy0 n (ensureLogType elapsed eligible n lt s)"
proof (cases "n \<le> int (st_launchSeq s)")
  case True
  then show ?thesis using b by (simp add: ensureLogType_def)
next
  case False
  then show ?thesis
    using b launch_batchInv [OF b _ _ _ pos] findIdx_SomeD
    by (fastforce simp: ensureLogType_def split: option.split)
qed

lemma launchInOrder_batchInv:
  "batchInv acc eligible strategy0 n s \<Longrightarrow> \<forall>n. 0 < elapsed n \<Longrightarrow> \<forall>i \<in> set is. i < length eligible \<Longrightarrow>
     batchInv acc eligible strategy0 n (launchInOrder elapsed eligible n is s)"
  by (induction elapsed eligible n "is" s rule: launchInOrder.induct) (auto simp: launch_batchInv)

lemma ensureLogType_spawned: "\<exists>xs. st_spawned (ensureLogType elapsed eligible n lt s) = st_spawned s @ xs"
  by (auto simp: ensureLogType_def split: option.split)

lemma launchInOrder_spawned: "\<exists>xs. st_spawned (launchInOrder elapsed eligible n is s) = st_spawned s @ xs"
  by (induction elapsed eligible n "is" s rule: launchInOrder.induct) auto

text \<open>The loop stops with a full batch or after launching everything it looked at.\<close>

lemma launchInOrder_full:
  assumes "batchInv acc eligible strategy0 n s" and "\<forall>n. 0 < elapsed n" and "\<forall>i \<in> set is. i < length eligible"
  shows "int (length (st_spawned (launchInOrder elapsed eligible n is s))) = n \<or>
    (\<forall>i \<in> set is. eligible ! i \<in> set (st_spawned (launchInOrder elapsed eligible n is s)))"
  using assms
proof (induction elapsed eligible n "is" s rule: launchInOrder.induct)
  case (1 elapsed eligible n s)
  then show ?case by simp
next
  case (2 elapsed eligible n i "is" s)
  have c: "coBase acc eligible strategy0 (set (st_spawned s)) s" using "2.prems"(1) by (simp add: batchInv_def)
  show ?case
  proof (cases "int (st_launchSeq s) < n")
    case False
    then have "int (length (st_spawned s)) = n"
      using "2.prems"(1) coBaseD(10) [OF c] by (simp add: batchInv_def)
    then show ?thesis using False by simp
  next
    case True
    let ?s = "if unattempted eligible s i then launchEligible elapsed eligible i s else s"
    have i: "i < length eligible" using "2.prems"(3) by simp
    have "batchInv acc eligible strategy0 n ?s"
      using "2.prems"(1) launch_batchInv [OF "2.prems"(1) i _ True "2.prems"(2)] by simp
    then have "int (length (st_spawned (launchInOrder elapsed eligible n is ?s))) = n \<or>
        (\<forall>i \<in> set is. eligible ! i \<in> set (st_spawned (launchInOrder elapsed eligible n is ?s)))"
      using "2.IH" [OF True] "2.prems"(2,3) by auto
    moreover have "eligible ! i \<in> set (st_spawned ?s)"
      using coBase_unattempted [OF c i] by auto
    then have "eligible ! i \<in> set (st_spawned (launchInOrder elapsed eligible n is ?s))"
      using launchInOrder_spawned [of elapsed eligible n "is" ?s] by auto
    ultimately show ?thesis using True by simp
  qed
qed

text \<open>Asking for a log type launches such a log, if one is eligible and the batch has room.\<close>

lemma ensureLogType_type:
  assumes b: "batchInv acc eligible strategy0 n s" and room: "int (length (st_spawned s)) < n"
    and ex: "\<exists>idx \<in> set eligible. sm_LogType (st_strategy s ! idx) = lt"
  shows "\<exists>idx \<in> set (st_spawned (ensureLogType elapsed eligible n lt s)). sm_LogType (st_strategy s ! idx) = lt"
proof -
  have c: "coBase acc eligible strategy0 (set (st_spawned s)) s" using b by (simp add: batchInv_def)
  have r: "\<not> n \<le> int (st_launchSeq s)" using room coBaseD(10) [OF c] by simp
  obtain j where j: "j < length eligible" "sm_LogType (st_strategy s ! (eligible ! j)) = lt"
    using ex by (auto simp: in_set_conv_nth)
  let ?P = "\<lambda>i. unattempted eligible s i \<and> sm_LogType (st_strategy s ! (eligible ! i)) = lt"
  show ?thesis
  proof (cases "findIdx ?P (length eligible)")
    case (Some i)
    then show ?thesis using r findIdx_SomeD [OF Some] by (simp add: ensureLogType_def)
  next
    case None
    then have "eligible ! j \<in> set (st_spawned s)"
      using j coBase_unattempted [OF c j(1)] by (auto simp: findIdx_None)
    then show ?thesis using j(2) r None by (auto simp: ensureLogType_def)
  qed
qed

lemma batchInv_types:
  assumes "batchInv acc eligible strategy0 n s" and "idx \<in> set eligible"
  shows "sm_LogType (st_strategy s ! idx) = sm_LogType (strategy0 ! idx)"
  using assms by (auto simp: batchInv_def coBase_def eligibleOK_def frameOK_def sameLog_def)

lemma launchInitialBatch_spec:
  assumes b: "batchInv acc eligible strategy0 (initialBatchSize sr eligible) s" and new: "st_spawned s = []"
    and pos: "\<forall>n. 0 < elapsed n" and k: "1 \<le> sr_SCTs sr" and ne: "eligible \<noteq> []"
  defines "s' \<equiv> launchInitialBatch sr elapsed eligible s"
  shows "batchInv acc eligible strategy0 (initialBatchSize sr eligible) s'"
    and "int (length (st_spawned s')) = min (int (length eligible)) (sr_SCTs sr)"
    and "sr_RequireAtLeastOneRFC6962SCT sr \<Longrightarrow> \<exists>idx \<in> set eligible. sm_LogType (strategy0 ! idx) = LOGTYPE_RFC6962 \<Longrightarrow>
      \<exists>idx \<in> set (st_spawned s'). sm_LogType (strategy0 ! idx) = LOGTYPE_RFC6962"
    and "sr_PreferAtLeastOneStaticSCT sr \<Longrightarrow> \<exists>idx \<in> set eligible. sm_LogType (strategy0 ! idx) = LOGTYPE_STATIC \<Longrightarrow>
      \<not> sr_RequireAtLeastOneRFC6962SCT sr \<or> 2 \<le> sr_SCTs sr \<and> 2 \<le> length eligible \<Longrightarrow>
      \<exists>idx \<in> set (st_spawned s'). sm_LogType (strategy0 ! idx) = LOGTYPE_STATIC"
proof -
  let ?n = "initialBatchSize sr eligible"
  have n: "?n = min (int (length eligible)) (sr_SCTs sr)" by (auto simp: initialBatchSize_def)
  have n1: "1 \<le> ?n" unfolding n using k ne by (cases eligible) simp_all
  define s1 where "s1 = (if sr_RequireAtLeastOneRFC6962SCT sr then ensureLogType elapsed eligible ?n LOGTYPE_RFC6962 s else s)"
  define s2 where "s2 = (if sr_PreferAtLeastOneStaticSCT sr then ensureLogType elapsed eligible ?n LOGTYPE_STATIC s1 else s1)"
  have s': "s' = launchInOrder elapsed eligible ?n [0..<length eligible] s2"
    by (simp add: s'_def launchInitialBatch_def Let_def s1_def s2_def)
  have b1: "batchInv acc eligible strategy0 ?n s1" using b ensureLogType_batchInv [OF b pos] by (simp add: s1_def)
  have b2: "batchInv acc eligible strategy0 ?n s2" using b1 ensureLogType_batchInv [OF b1 pos] by (simp add: s2_def)
  show b3: "batchInv acc eligible strategy0 ?n s'"
    unfolding s' by (rule launchInOrder_batchInv [OF b2 pos]) simp
  have c3: "coBase acc eligible strategy0 (set (st_spawned s')) s'" using b3 by (simp add: batchInv_def)
  have "int (length (st_spawned s')) = ?n \<or> set eligible \<subseteq> set (st_spawned s')"
    using launchInOrder_full [OF b2 pos, of "[0..<length eligible]"] unfolding s' by (auto simp: in_set_conv_nth)
  moreover have "length eligible \<le> length (st_spawned s')" if "set eligible \<subseteq> set (st_spawned s')"
    using card_mono [OF _ that] coBaseD(1,4) [OF c3] by (simp add: eligibleOK_def distinct_card)
  ultimately show "int (length (st_spawned s')) = min (int (length eligible)) (sr_SCTs sr)"
    using b3 n by (auto simp: batchInv_def)
  obtain xs where xs: "st_spawned s2 = st_spawned s1 @ xs"
    using ensureLogType_spawned [of elapsed eligible ?n LOGTYPE_STATIC s1]
    by (cases "sr_PreferAtLeastOneStaticSCT sr") (auto simp: s2_def)
  obtain ys where ys: "st_spawned s' = st_spawned s2 @ ys"
    using launchInOrder_spawned [of elapsed eligible ?n "[0..<length eligible]" s2] unfolding s' by blast
  have sub: "set (st_spawned s') \<subseteq> set eligible" using coBaseD(5) [OF c3] .
  show "\<exists>idx \<in> set (st_spawned s'). sm_LogType (strategy0 ! idx) = LOGTYPE_RFC6962"
    if r: "sr_RequireAtLeastOneRFC6962SCT sr" and ex: "\<exists>idx \<in> set eligible. sm_LogType (strategy0 ! idx) = LOGTYPE_RFC6962"
  proof -
    have "\<exists>idx \<in> set (st_spawned s1). sm_LogType (st_strategy s ! idx) = LOGTYPE_RFC6962"
      using ensureLogType_type [OF b, of LOGTYPE_RFC6962 elapsed] new n1 ex batchInv_types [OF b] r
      by (simp add: s1_def)
    then obtain idx where idx: "idx \<in> set (st_spawned s1)" "sm_LogType (st_strategy s ! idx) = LOGTYPE_RFC6962" by blast
    then have "idx \<in> set (st_spawned s')" using xs ys by simp
    then show ?thesis using idx(2) sub batchInv_types [OF b, of idx] by (metis subsetD)
  qed
  show "\<exists>idx \<in> set (st_spawned s'). sm_LogType (strategy0 ! idx) = LOGTYPE_STATIC"
    if r: "sr_PreferAtLeastOneStaticSCT sr" and ex: "\<exists>idx \<in> set eligible. sm_LogType (strategy0 ! idx) = LOGTYPE_STATIC"
      and two: "\<not> sr_RequireAtLeastOneRFC6962SCT sr \<or> 2 \<le> sr_SCTs sr \<and> 2 \<le> length eligible"
  proof -
    have "length (st_spawned s1) \<le> 1" "\<not> sr_RequireAtLeastOneRFC6962SCT sr \<Longrightarrow> st_spawned s1 = []"
      using new by (auto simp: s1_def ensureLogType_def split: option.split)
    then have "int (length (st_spawned s1)) < ?n" using two n n1 by auto
    then have "\<exists>idx \<in> set (st_spawned s2). sm_LogType (st_strategy s1 ! idx) = LOGTYPE_STATIC"
      using ensureLogType_type [OF b1, of LOGTYPE_STATIC elapsed] ex batchInv_types [OF b1] r by (simp add: s2_def)
    then obtain idx where idx: "idx \<in> set (st_spawned s2)" "sm_LogType (st_strategy s1 ! idx) = LOGTYPE_STATIC" by blast
    then have "idx \<in> set (st_spawned s')" using ys by simp
    then show ?thesis using idx(2) sub batchInv_types [OF b1, of idx] by (metis subsetD)
  qed
qed

text \<open>submit up to its first receive: an early error that leaves everything alone, or the loop.\<close>

lemma submitStart_cases:
  assumes fresh: "freshStrategy strategy" and ok: "requirementsOK sr" and pos: "\<forall>n. 0 < elapsed n"
  obtains (early) e where "submitStart ctxErr marshal elapsed sr strategy entryType =
      (initState strategy)\<lparr>st_control := Returned (Err e)\<rparr>"
  | (running) "coInv acc sr (eligibleLogs strategy) strategy
        (set (st_spawned (submitStart ctxErr marshal elapsed sr strategy entryType)))
        (submitStart ctxErr marshal elapsed sr strategy entryType)"
      "st_control (submitStart ctxErr marshal elapsed sr strategy entryType) = Looping"
      "submitStart ctxErr marshal elapsed sr strategy entryType =
         launchInitialBatch sr elapsed (eligibleLogs strategy) (initState strategy)"
proof -
  let ?el = "eligibleLogs strategy"
  let ?s = "launchInitialBatch sr elapsed ?el (initState strategy)"
  let ?go = "submitStart ctxErr marshal elapsed sr strategy entryType"
  have "(\<exists>e. ?go = (initState strategy)\<lparr>st_control := Returned (Err e)\<rparr>) \<or> ?el \<noteq> [] \<and> ?go = loopCheck sr ?el ?s"
    by (auto simp: submitStart_def Let_def split: option.split sum.split)
  then show thesis
  proof (elim disjE exE conjE)
    fix e assume "?go = (initState strategy)\<lparr>st_control := Returned (Err e)\<rparr>"
    then show thesis by (rule early)
  next
    assume ne: "?el \<noteq> []" and go: "?go = loopCheck sr ?el ?s"
    have k: "1 \<le> sr_SCTs sr" using ok by (simp add: requirementsOK_def)
    have "0 \<le> initialBatchSize sr ?el" using k by (simp add: initialBatchSize_def)
    from initState_batchInv [OF fresh this]
    have b0: "batchInv acc ?el strategy (initialBatchSize sr ?el) (initState strategy)" .
    have sp0: "st_spawned (initState strategy) = []" by (simp add: initState_def)
    note spec = launchInitialBatch_spec [OF b0 sp0 pos k ne]
    have b: "coBase acc ?el strategy (set (st_spawned ?s)) ?s" "loopSets (set (st_spawned ?s)) ?s"
      "st_qs ?s = newQuorumState" "st_cancelCause ?s = None" "st_control ?s = Looping"
      using spec(1) by (auto simp: batchInv_def)
    have "st_spawned ?s \<noteq> []" using spec(2) k ne by (cases ?el) auto
    then have sne: "set (st_spawned ?s) \<noteq> {}" by simp
    then have "0 < st_inFlight ?s" using coBaseD(3) [OF b(1)] by (simp add: card_gt_0_iff)
    then have eq: "?go = ?s" using go by (simp add: loopCheck_def)
    have "\<not> isQuorumMet (st_qs ?s) sr" using b(3) k by (simp add: isQuorumMet_iff newQuorumState_def)
    then show thesis using running eq b sne by (simp add: coInv_def)
  qed
qed

text \<open>
  C14: The initial batch has exactly min(SCTs, eligible logs) submissions, to distinct eligible
  logs; it includes an RFC 6962 log if one is required and there is one, and a static log if one is
  preferred, there is one, and the batch has room for both.
\<close>

theorem initial_batch:
  assumes "freshStrategy strategy" and "1 \<le> sr_SCTs sr" and "eligibleLogs strategy \<noteq> []" and "\<forall>n. 0 < elapsed n"
    and "s' = launchInitialBatch sr elapsed (eligibleLogs strategy) (initState strategy)"
  shows "int (length (st_spawned s')) = min (int (length (eligibleLogs strategy))) (sr_SCTs sr) \<and>
    distinct (st_spawned s') \<and> set (st_spawned s') \<subseteq> set (eligibleLogs strategy) \<and>
    (sr_RequireAtLeastOneRFC6962SCT sr \<and> (\<exists>idx \<in> set (eligibleLogs strategy). sm_LogType (strategy ! idx) = LOGTYPE_RFC6962) \<longrightarrow>
      (\<exists>idx \<in> set (st_spawned s'). sm_LogType (strategy ! idx) = LOGTYPE_RFC6962)) \<and>
    (sr_PreferAtLeastOneStaticSCT sr \<and> (\<exists>idx \<in> set (eligibleLogs strategy). sm_LogType (strategy ! idx) = LOGTYPE_STATIC) \<and>
      (\<not> sr_RequireAtLeastOneRFC6962SCT sr \<or> 2 \<le> sr_SCTs sr \<and> 2 \<le> length (eligibleLogs strategy)) \<longrightarrow>
      (\<exists>idx \<in> set (st_spawned s'). sm_LogType (strategy ! idx) = LOGTYPE_STATIC))"
proof -
  let ?el = "eligibleLogs strategy"
  have b: "batchInv (\<lambda>_ _ _. True) ?el strategy (initialBatchSize sr ?el) (initState strategy)"
    by (rule initState_batchInv [OF assms(1)]) (use assms(2) in \<open>simp add: initialBatchSize_def\<close>)
  have new: "st_spawned (initState strategy) = []" by (simp add: initState_def)
  note spec = launchInitialBatch_spec [OF b new assms(4,2,3)]
  have "distinct (st_spawned s') \<and> set (st_spawned s') \<subseteq> set ?el"
    using spec(1) unfolding assms(5) batchInv_def by (auto dest: coBaseD(4,5))
  then show ?thesis using spec(2-4) unfolding assms(5) by blast
qed

theorem initial_batch_witness:
  "int (length (st_spawned (launchInitialBatch exTwo (\<lambda>n. int n + 1) (eligibleLogs exSMs) (initState exSMs)))) =
     min (int (length (eligibleLogs exSMs))) (sr_SCTs exTwo)"
proof -
  have "freshStrategy exSMs" "1 \<le> sr_SCTs exTwo" "eligibleLogs exSMs \<noteq> []" by code_simp+
  then show ?thesis using initial_batch [of exSMs exTwo "\<lambda>n. int n + 1"] by simp
qed

end
