(* ===== verification/Submit_System.thy ===== *)
theory Submit_System
  imports Submit_Log Orchestrate_Correct
begin

text \<open>
  The coordinator (Orchestrate) and its goroutines (Submit_Log) together: the buffered channel
  between them, the request's context, cancellation, and a panic, which ends the process. A step
  of the system is a step of one party; a send needs room in the channel, whose capacity is the
  number of eligible logs. Everything that can be said of a whole submission is proved here, over
  all interleavings, timings and answers of the logs.
\<close>

section \<open>The system\<close>

record submission =
  sub_sr :: SubmissionRequest
  sub_elapsed :: "nat \<Rightarrow> duration"
  sub_eligible :: "nat list"
  sub_lib :: ctLib
  sub_entry :: submittedEntry

text \<open>\<open>sys_ctx\<close> is ctx.Err() of the request, \<open>sys_cause\<close> is context.Cause of the submission context.\<close>

record system =
  sys_co :: submitState
  sys_gos :: "goroutine list"
  sys_chan :: "submissionEvent list"
  sys_ctx :: "go_error option"
  sys_cause :: "go_error option"
  sys_panicked :: bool

text \<open>The first cause of a cancellation is the one that stays.\<close>

definition cancelWith :: "go_error option \<Rightarrow> go_error option \<Rightarrow> go_error option" where
  "cancelWith cause new = (case cause of Some c \<Rightarrow> Some c | None \<Rightarrow> new)"

text \<open>After a step of the coordinator: start the goroutines it launched, cancel if it cancelled.\<close>

definition coordinatorMoved :: "submitState \<Rightarrow> system \<Rightarrow> system" where
  "coordinatorMoved s y =
     y\<lparr>sys_co := s,
       sys_gos := sys_gos y @ map newGoroutine (drop (length (sys_gos y)) (st_spawned s)),
       sys_cause := cancelWith (sys_cause y) (st_cancelCause s)\<rparr>"

definition isReturned :: "control \<Rightarrow> bool" where
  "isReturned c = (case c of Returned r \<Rightarrow> True | _ \<Rightarrow> False)"

definition goroutineMoved :: "nat \<Rightarrow> goroutine \<Rightarrow> submissionEvent option \<Rightarrow> system \<Rightarrow> system" where
  "goroutineMoved i g e y =
     y\<lparr>sys_gos := (sys_gos y)[i := g],
       sys_chan := sys_chan y @ (case e of None \<Rightarrow> [] | Some ev \<Rightarrow> [ev])\<rparr>"

inductive sysStep :: "submission \<Rightarrow> system \<Rightarrow> system \<Rightarrow> bool" for sub :: submission where
  receive: "\<not> sys_panicked y \<Longrightarrow> \<not> isReturned (st_control (sys_co y)) \<Longrightarrow> sys_chan y = ev # rest \<Longrightarrow>
    sysStep sub y (coordinatorMoved
      (receiveEvent (sub_sr sub) (sub_elapsed sub) (sub_eligible sub) ev (sys_co y)) (y\<lparr>sys_chan := rest\<rparr>))"
| contextDone: "\<not> sys_panicked y \<Longrightarrow> st_control (sys_co y) = Looping \<Longrightarrow> sys_ctx y = Some e \<Longrightarrow>
    sysStep sub y (coordinatorMoved (ctxDone e (sys_co y)) y)"
| requestDone: "\<not> sys_panicked y \<Longrightarrow> sys_ctx y = None \<Longrightarrow> e = ContextCanceled \<or> e = ContextDeadlineExceeded \<Longrightarrow>
    sysStep sub y (y\<lparr>sys_ctx := Some e, sys_cause := cancelWith (sys_cause y) (Some e)\<rparr>)"
| goroutineStep: "\<not> sys_panicked y \<Longrightarrow> i < length (sys_gos y) \<Longrightarrow>
    goStep (sub_lib sub) (sub_entry sub) (sys_cause y) (sys_gos y ! i) e g \<Longrightarrow>
    e = None \<or> length (sys_chan y) < length (sub_eligible sub) \<Longrightarrow>
    sysStep sub y (goroutineMoved i g e y)"
| goroutinePanic: "\<not> sys_panicked y \<Longrightarrow> i < length (sys_gos y) \<Longrightarrow> wakeEnabled (sys_cause y) w (sys_gos y ! i) \<Longrightarrow>
    wake (sub_lib sub) (sub_entry sub) (sys_cause y) w (sys_gos y ! i) = Panic \<Longrightarrow>
    sysStep sub y (y\<lparr>sys_panicked := True\<rparr>)"

inductive_cases sysStepE: "sysStep sub y y'"

text \<open>A submission starts with the state submit has reached at its first receive.\<close>

definition sysStart :: "submitState \<Rightarrow> system" where
  "sysStart s =
     \<lparr>sys_co = s, sys_gos = map newGoroutine (st_spawned s), sys_chan = [], sys_ctx = None,
      sys_cause = None, sys_panicked = False\<rparr>"

definition submissionOf ::
  "SubmissionRequest \<Rightarrow> (nat \<Rightarrow> duration) \<Rightarrow> StrategyMember list \<Rightarrow> ctLib \<Rightarrow> submittedEntry \<Rightarrow> submission" where
  "submissionOf sr elapsed strategy lib se =
     \<lparr>sub_sr = sr, sub_elapsed = elapsed, sub_eligible = eligibleLogs strategy, sub_lib = lib, sub_entry = se\<rparr>"

definition submitSystem ::
  "(bytes list \<Rightarrow> go_error + bytes) \<Rightarrow> SubmissionRequest \<Rightarrow> (nat \<Rightarrow> duration) \<Rightarrow> StrategyMember list \<Rightarrow>
     submittedEntry \<Rightarrow> system" where
  "submitSystem marshal sr elapsed strategy se =
     sysStart (submitStart None marshal elapsed sr strategy (se_entryType se))"

inductive sysReach :: "submission \<Rightarrow> system \<Rightarrow> system \<Rightarrow> bool" for sub :: submission where
  start: "sysReach sub y y"
| step: "sysReach sub y y1 \<Longrightarrow> sysStep sub y1 y2 \<Longrightarrow> sysReach sub y y2"

section \<open>Outstanding final events\<close>

definition chanFinals :: "nat \<Rightarrow> submissionEvent list \<Rightarrow> nat" where
  "chanFinals idx chan = length (filter (\<lambda>ev. isFinal ev \<and> ev_strategyIdx ev = idx) chan)"

text \<open>The logs whose final event is queued or still owed.\<close>

definition outSet :: "goroutine list \<Rightarrow> submissionEvent list \<Rightarrow> nat set" where
  "outSet gos chan = g_idx ` {g \<in> set gos. 0 < goOwed g + chanFinals (g_idx g) chan}"

text \<open>No event of a log comes after its final one.\<close>

fun finalsLast :: "submissionEvent list \<Rightarrow> bool" where
  "finalsLast [] \<longleftrightarrow> True"
| "finalsLast (ev # evs) \<longleftrightarrow>
     (isFinal ev \<longrightarrow> (\<forall>ev' \<in> set evs. ev_strategyIdx ev' \<noteq> ev_strategyIdx ev)) \<and> finalsLast evs"

definition accepts :: "submission \<Rightarrow> nat \<Rightarrow> addChainResponse \<Rightarrow> sct \<Rightarrow> bool" where
  "accepts sub idx r s \<longleftrightarrow> (\<exists>now. acceptedSCT (sub_lib sub) (sub_entry sub) now r s)"

definition eventOK :: "submission \<Rightarrow> submissionEvent \<Rightarrow> bool" where
  "eventOK sub ev \<longleftrightarrow>
     (ev_eventType ev = eventSuccess \<longrightarrow>
        ev_outcome ev = successful \<and> accepts sub (ev_strategyIdx ev) (ev_response ev) (ev_sct ev)) \<and>
     (ev_eventType ev = eventFailure \<longrightarrow> ev_outcome ev \<noteq> successful)"

lemma chanFinals_simps [simp]:
  "chanFinals idx [] = 0"
  "chanFinals idx (ev # evs) = (if isFinal ev \<and> ev_strategyIdx ev = idx then 1 else 0) + chanFinals idx evs"
  "chanFinals idx (evs @ evs') = chanFinals idx evs + chanFinals idx evs'"
  by (simp_all add: chanFinals_def)

lemma chanFinals_zero: "\<forall>ev \<in> set evs. ev_strategyIdx ev \<noteq> idx \<Longrightarrow> chanFinals idx evs = 0"
  by (induction evs) auto

lemma finalsLast_snoc:
  "finalsLast (evs @ [ev]) \<longleftrightarrow> finalsLast evs \<and> chanFinals (ev_strategyIdx ev) evs = 0"
  by (induction evs) auto

definition sysInv :: "submission \<Rightarrow> StrategyMember list \<Rightarrow> system \<Rightarrow> bool" where
  "sysInv sub strategy0 y \<longleftrightarrow>
     map g_idx (sys_gos y) = st_spawned (sys_co y) \<and> distinct (st_spawned (sys_co y)) \<and>
     (\<forall>g \<in> set (sys_gos y). goWF g \<and> list_all (eventOK sub) (sends (g_pending g)) \<and>
        goOwed g + chanFinals (g_idx g) (sys_chan y) \<le> 1) \<and>
     list_all (eventOK sub) (sys_chan y) \<and> finalsLast (sys_chan y) \<and>
     (\<forall>ev \<in> set (sys_chan y). ev_strategyIdx ev \<in> outSet (sys_gos y) (sys_chan y)) \<and>
     coInv (accepts sub) (sub_sr sub) (sub_eligible sub) strategy0 (outSet (sys_gos y) (sys_chan y)) (sys_co y) \<and>
     sys_ctx y \<noteq> Some QuorumMetCause"

lemma coInv_spawned:
  "coInv acc sr eligible strategy0 Out s \<Longrightarrow>
     distinct (st_spawned s) \<and> set (st_spawned s) \<subseteq> set eligible \<and> frameOK strategy0 (st_strategy s)"
  by (auto simp: coInv_def coBase_def drainBase_def split: control.splits)

text \<open>With distinct indices a goroutine is determined by its log.\<close>

lemma distinct_inj: "distinct (map g_idx gos) \<Longrightarrow> g \<in> set gos \<Longrightarrow> h \<in> set gos \<Longrightarrow> g_idx g = g_idx h \<Longrightarrow> g = h"
  by (auto simp: distinct_map inj_on_def)

lemma newGoroutine_simps [simp]:
  "g_idx (newGoroutine i) = i" "goWF (newGoroutine i)" "goOwed (newGoroutine i) = 1" "g_pending (newGoroutine i) = []"
  "goBudget (newGoroutine i) = 10"
  by (simp_all add: newGoroutine_def goWF_def goOwed_def goBudget_def)

section \<open>Every step keeps the invariant\<close>

lemma outSet_launch:
  assumes "\<forall>ev \<in> set chan. ev_strategyIdx ev \<notin> set xs"
  shows "outSet (gos @ map newGoroutine xs) chan = outSet gos chan \<union> set xs"
proof -
  have "outSet (map newGoroutine xs) chan = set xs" by (force simp: outSet_def)
  moreover have "outSet (gos @ map newGoroutine xs) chan = outSet gos chan \<union> outSet (map newGoroutine xs) chan"
    by (auto simp: outSet_def)
  ultimately show ?thesis by simp
qed

text \<open>Receiving the head of the channel takes its log out exactly if the event is final.\<close>

lemma outSet_receive:
  assumes d: "distinct (map g_idx gos)"
    and le: "\<forall>g \<in> set gos. goOwed g + chanFinals (g_idx g) (ev # rest) \<le> 1"
  shows "outSet gos rest = (if isFinal ev then outSet gos (ev # rest) - {ev_strategyIdx ev} else outSet gos (ev # rest))"
proof (cases "isFinal ev")
  case False
  then show ?thesis by (simp add: outSet_def)
next
  case True
  have a: "0 < goOwed g + chanFinals (g_idx g) rest \<longleftrightarrow>
      0 < goOwed g + chanFinals (g_idx g) (ev # rest) \<and> g_idx g \<noteq> ev_strategyIdx ev" if "g \<in> set gos" for g
    using le [rule_format, OF that] True by auto
  have "{g \<in> set gos. 0 < goOwed g + chanFinals (g_idx g) rest} =
      {g \<in> set gos. 0 < goOwed g + chanFinals (g_idx g) (ev # rest) \<and> g_idx g \<noteq> ev_strategyIdx ev}"
    by (intro Collect_cong conj_cong refl a)
  then have "outSet gos rest = g_idx ` {g \<in> set gos. 0 < goOwed g + chanFinals (g_idx g) (ev # rest) \<and> g_idx g \<noteq> ev_strategyIdx ev}"
    by (simp only: outSet_def)
  also have "\<dots> = outSet gos (ev # rest) - {ev_strategyIdx ev}" by (auto simp: outSet_def)
  finally show ?thesis using True by simp
qed

text \<open>The goroutines after a step of the coordinator, and which logs then owe a final event.\<close>

lemma launched_outSet:
  assumes map: "map g_idx (sys_gos y) = st_spawned (sys_co y)" and sp: "st_spawned s = st_spawned (sys_co y) @ xs"
    and d: "distinct (st_spawned s)" and out: "\<forall>ev \<in> set chan. ev_strategyIdx ev \<in> outSet (sys_gos y) chan"
  shows "sys_gos (coordinatorMoved s (y\<lparr>sys_chan := chan\<rparr>)) = sys_gos y @ map newGoroutine xs"
    and "\<forall>ev \<in> set chan. ev_strategyIdx ev \<notin> set xs"
    and "outSet (sys_gos y @ map newGoroutine xs) chan = outSet (sys_gos y) chan \<union> set xs"
proof -
  have "length (sys_gos y) = length (st_spawned (sys_co y))" using map by (metis length_map)
  then show "sys_gos (coordinatorMoved s (y\<lparr>sys_chan := chan\<rparr>)) = sys_gos y @ map newGoroutine xs"
    using sp by (simp add: coordinatorMoved_def)
  have "outSet (sys_gos y) chan \<subseteq> set (st_spawned (sys_co y))" by (force simp: outSet_def simp flip: map)
  then show new: "\<forall>ev \<in> set chan. ev_strategyIdx ev \<notin> set xs" using out d sp by fastforce
  show "outSet (sys_gos y @ map newGoroutine xs) chan = outSet (sys_gos y) chan \<union> set xs"
    by (rule outSet_launch [OF new])
qed

text \<open>A step of the coordinator: from the invariant of its new state to that of the system.\<close>

lemma coordinatorMoved_sysInv:
  assumes inv: "sysInv sub strategy0 y"
    and sp: "st_spawned s = st_spawned (sys_co y) @ xs"
    and chan: "set chan \<subseteq> set (sys_chan y)" "finalsLast chan" "list_all (eventOK sub) chan"
    and fin: "\<forall>g \<in> set (sys_gos y). goOwed g + chanFinals (g_idx g) chan \<le> 1"
    and out: "\<forall>ev \<in> set chan. ev_strategyIdx ev \<in> outSet (sys_gos y) chan"
    and co: "coInv (accepts sub) (sub_sr sub) (sub_eligible sub) strategy0 (outSet (sys_gos y) chan \<union> set xs) s"
  shows "sysInv sub strategy0 (coordinatorMoved s (y\<lparr>sys_chan := chan\<rparr>))"
proof -
  have map: "map g_idx (sys_gos y) = st_spawned (sys_co y)" using inv by (simp add: sysInv_def)
  have d: "distinct (st_spawned s)" using coInv_spawned [OF co] by simp
  note os = launched_outSet [OF map sp d out]
  have zero: "\<forall>i \<in> set xs. chanFinals i chan = 0" using os(2) by (intro ballI chanFinals_zero) blast
  have "map g_idx (sys_gos y @ map newGoroutine xs) = st_spawned s"
    using map sp by (simp add: comp_def)
  moreover have "\<forall>g \<in> set (sys_gos y @ map newGoroutine xs). goWF g \<and> list_all (eventOK sub) (sends (g_pending g)) \<and>
      goOwed g + chanFinals (g_idx g) chan \<le> 1"
    using inv fin zero by (auto simp: sysInv_def)
  ultimately show ?thesis
    using inv chan out co d os(1,3) by (auto simp: sysInv_def coordinatorMoved_def)
qed

lemma receive_sysInv:
  assumes inv: "sysInv sub strategy0 y" and chan: "sys_chan y = ev # rest"
    and ok: "requirementsOK (sub_sr sub)" and pos: "\<forall>n. 0 < sub_elapsed sub n"
  shows "sysInv sub strategy0 (coordinatorMoved
    (receiveEvent (sub_sr sub) (sub_elapsed sub) (sub_eligible sub) ev (sys_co y)) (y\<lparr>sys_chan := rest\<rparr>))"
proof -
  let ?s = "sys_co y"
  let ?s' = "receiveEvent (sub_sr sub) (sub_elapsed sub) (sub_eligible sub) ev ?s"
  let ?Out = "outSet (sys_gos y) (ev # rest)"
  have i: "map g_idx (sys_gos y) = st_spawned ?s" "distinct (map g_idx (sys_gos y))"
    "\<forall>g \<in> set (sys_gos y). goOwed g + chanFinals (g_idx g) (ev # rest) \<le> 1"
    "list_all (eventOK sub) (ev # rest)" "finalsLast (ev # rest)" "\<forall>x \<in> set (ev # rest). ev_strategyIdx x \<in> ?Out"
    "coInv (accepts sub) (sub_sr sub) (sub_eligible sub) strategy0 ?Out ?s"
    using inv chan by (auto simp: sysInv_def)
  have "evOK (accepts sub) ?Out ev" using i(4,6) by (simp add: evOK_def eventOK_def)
  note co = receiveEvent_coInv [OF i(7) ok pos this]
  obtain xs where xs: "st_spawned ?s' = st_spawned ?s @ xs" using receiveEvent_spawned by blast
  then have "set (st_spawned ?s') - set (st_spawned ?s) = set xs"
    using coInv_spawned [OF co] by auto
  then have after: "outAfter ?Out ev ?s ?s' = outSet (sys_gos y) rest \<union> set xs"
    using outSet_receive [OF i(2,3)] by (simp add: outAfter_def)
  show ?thesis
  proof (rule coordinatorMoved_sysInv [OF inv xs])
    show "set rest \<subseteq> set (sys_chan y)" "finalsLast rest" "list_all (eventOK sub) rest" using chan i(4,5) by auto
    show "\<forall>g \<in> set (sys_gos y). goOwed g + chanFinals (g_idx g) rest \<le> 1" using i(3) by fastforce
    show "\<forall>x \<in> set rest. ev_strategyIdx x \<in> outSet (sys_gos y) rest"
      using i(5,6) outSet_receive [OF i(2,3)] by auto
    show "coInv (accepts sub) (sub_sr sub) (sub_eligible sub) strategy0 (outSet (sys_gos y) rest \<union> set xs) ?s'"
      using co after by simp
  qed
qed

lemma contextDone_sysInv:
  assumes inv: "sysInv sub strategy0 y" and e: "sys_ctx y = Some e"
  shows "sysInv sub strategy0 (coordinatorMoved (ctxDone e (sys_co y)) y)"
proof -
  have "coInv (accepts sub) (sub_sr sub) (sub_eligible sub) strategy0 (outSet (sys_gos y) (sys_chan y) \<union> set []) (ctxDone e (sys_co y))"
    using inv e ctxDone_coInv by (auto simp: sysInv_def)
  then have "sysInv sub strategy0 (coordinatorMoved (ctxDone e (sys_co y)) (y\<lparr>sys_chan := sys_chan y\<rparr>))"
    by (intro coordinatorMoved_sysInv [OF inv, where xs = "[]"]) (use inv in \<open>auto simp: sysInv_def\<close>)
  then show ?thesis by simp
qed

text \<open>The events a goroutine queues satisfy what the coordinator assumes of them.\<close>

lemma goStep_events:
  assumes ok: "list_all (eventOK sub) (sends (g_pending g))" and st: "goStep (sub_lib sub) (sub_entry sub) cause g e g'"
  shows "list_all (eventOK sub) (sends (g_pending g'))" and "e = Some ev \<Longrightarrow> eventOK sub ev"
proof -
  have "list_all (eventOK sub) (sends (g_pending g')) \<and> (\<forall>ev. e = Some ev \<longrightarrow> eventOK sub ev)"
    using st
  proof (rule goStepE)
    fix w assume "e = None" "wakeEnabled cause w g" "wake (sub_lib sub) (sub_entry sub) cause w g = Ok g'"
    from this(2,3) show ?thesis
    proof (cases rule: wake_cases)
      case waiting
      then show ?thesis using \<open>e = None\<close> by (auto simp: eventOK_def)
    next
      case (failed oc d)
      then have "oc \<noteq> successful" by (auto simp: successful_def)
      then show ?thesis using failed \<open>e = None\<close> by (auto simp: eventOK_def)
    next
      case (succeeded now d r s)
      then show ?thesis using \<open>e = None\<close>
        by (auto simp: eventOK_def accepts_def successful_def successEvent_def mkEvent_def)
    qed
  qed (use ok in \<open>auto dest!: perform_cases(1)\<close>)
  then show "list_all (eventOK sub) (sends (g_pending g'))" and "e = Some ev \<Longrightarrow> eventOK sub ev" by auto
qed

text \<open>
  A step of one goroutine moves what it owes into the channel, so the outstanding set stays.
\<close>

lemma outSet_update:
  assumes i: "i < length gos" and d: "distinct (map g_idx gos)" and idx: "g_idx g = g_idx (gos ! i)"
    and owe: "goOwed g + chanFinals (g_idx g) chan' = goOwed (gos ! i) + chanFinals (g_idx g) chan"
    and other: "\<And>j. j \<noteq> g_idx g \<Longrightarrow> chanFinals j chan' = chanFinals j chan"
  shows "outSet (gos[i := g]) chan' = outSet gos chan"
    and "\<forall>h \<in> set gos. goOwed h + chanFinals (g_idx h) chan \<le> 1 \<Longrightarrow>
      \<forall>h \<in> set (gos[i := g]). goOwed h + chanFinals (g_idx h) chan' \<le> 1"
proof -
  have nth: "j < length gos \<Longrightarrow> gos[i := g] ! j = (if j = i then g else gos ! j)" for j
    using i by (simp add: nth_list_update)
  have ne: "j < length gos \<Longrightarrow> j \<noteq> i \<Longrightarrow> g_idx (gos ! j) \<noteq> g_idx g" for j
    using d i idx by (auto simp: distinct_conv_nth)
  have same: "goOwed (gos[i := g] ! j) + chanFinals (g_idx (gos[i := g] ! j)) chan' = goOwed (gos ! j) + chanFinals (g_idx (gos ! j)) chan"
    and idxs: "g_idx (gos[i := g] ! j) = g_idx (gos ! j)" if "j < length gos" for j
    unfolding nth [OF that] using owe idx other ne [OF that] by auto
  have out: "x \<in> outSet hs c \<longleftrightarrow> (\<exists>j < length hs. x = g_idx (hs ! j) \<and> 0 < goOwed (hs ! j) + chanFinals (g_idx (hs ! j)) c)"
    for x hs c by (force simp: outSet_def in_set_conv_nth)
  show "outSet (gos[i := g]) chan' = outSet gos chan"
    by (rule set_eqI) (unfold out length_list_update, metis same idxs)
  show "\<forall>h \<in> set (gos[i := g]). goOwed h + chanFinals (g_idx h) chan' \<le> 1"
    if "\<forall>h \<in> set gos. goOwed h + chanFinals (g_idx h) chan \<le> 1"
    unfolding all_set_conv_all_nth length_list_update using same that by (metis nth_mem)
qed

lemma goroutineStep_owed:
  assumes wf: "goWF h" and st: "goStep lib se cause h e g"
    and chan': "chan' = chan @ (case e of None \<Rightarrow> [] | Some ev \<Rightarrow> [ev])"
  shows "g_idx g = g_idx h"
    and "goOwed g + chanFinals (g_idx g) chan' = goOwed h + chanFinals (g_idx g) chan"
    and "j \<noteq> g_idx g \<Longrightarrow> chanFinals j chan' = chanFinals j chan"
proof -
  show idx: "g_idx g = g_idx h" by (rule submitToLog.step_index [OF wf st])
  have evi: "e = Some ev \<Longrightarrow> ev_strategyIdx ev = g_idx h" for ev
    using submitToLog.step_event [OF wf] st by blast
  then show "goOwed g + chanFinals (g_idx g) chan' = goOwed h + chanFinals (g_idx g) chan"
    using submitToLog.step_owed [OF wf st] idx by (auto simp: chan' split: option.split)
  show "j \<noteq> g_idx g \<Longrightarrow> chanFinals j chan' = chanFinals j chan"
    using evi idx by (auto simp: chan' split: option.split)
qed

lemma goroutineStep_sysInv:
  assumes inv: "sysInv sub strategy0 y" and i: "i < length (sys_gos y)"
    and st: "goStep (sub_lib sub) (sub_entry sub) (sys_cause y) (sys_gos y ! i) e g"
  shows "sysInv sub strategy0 (goroutineMoved i g e y)"
proof -
  let ?h = "sys_gos y ! i"
  let ?new = "case e of None \<Rightarrow> [] | Some ev \<Rightarrow> [ev]"
  let ?chan = "sys_chan y @ ?new"
  have h: "?h \<in> set (sys_gos y)" using i by simp
  have d: "distinct (map g_idx (sys_gos y))" using inv by (simp add: sysInv_def)
  have wf: "goWF ?h" "list_all (eventOK sub) (sends (g_pending ?h))" "goOwed ?h + chanFinals (g_idx ?h) (sys_chan y) \<le> 1"
    using inv h by (auto simp: sysInv_def)
  note owed = goroutineStep_owed [OF wf(1) st refl]
  note idx = owed(1)
  note evs = goStep_events [OF wf(2) st]
  have evi: "e = Some ev \<Longrightarrow> ev_strategyIdx ev = g_idx ?h" for ev
    using submitToLog.step_event [OF wf(1)] st by blast
  note upd = outSet_update [OF i d owed]
  have sends1: "\<And>ev. e = Some ev \<Longrightarrow> goOwed ?h = 1"
    using submitToLog.silent [OF wf(1) _ st] submitToLog.owed_le [OF wf(1)] by fastforce
  then have z: "\<And>ev. e = Some ev \<Longrightarrow> chanFinals (g_idx ?h) (sys_chan y) = 0" using wf(3) by fastforce
  have last: "finalsLast ?chan"
    using inv evi z by (auto simp: sysInv_def finalsLast_snoc split: option.split)
  have inOut: "\<And>ev. e = Some ev \<Longrightarrow> g_idx ?h \<in> outSet (sys_gos y) (sys_chan y)"
    using sends1 h by (force simp: outSet_def)
  have "\<forall>ev \<in> set ?chan. ev_strategyIdx ev \<in> outSet (sys_gos y) (sys_chan y)"
    using inv inOut evi by (auto simp: sysInv_def split: option.split)
  moreover have "list_all (eventOK sub) ?chan"
    using inv evs(2) by (auto simp: sysInv_def split: option.split)
  moreover have "map g_idx ((sys_gos y)[i := g]) = map g_idx (sys_gos y)"
    by (metis idx list_update_id map_update)
  moreover have "\<forall>k \<in> set ((sys_gos y)[i := g]). goWF k \<and> list_all (eventOK sub) (sends (g_pending k)) \<and>
      goOwed k + chanFinals (g_idx k) ?chan \<le> 1"
  proof
    fix k assume k: "k \<in> set ((sys_gos y)[i := g])"
    then have "k = g \<or> k \<in> set (sys_gos y)" using set_update_subset_insert by fast
    then have "goWF k \<and> list_all (eventOK sub) (sends (g_pending k))"
      using inv submitToLog.step_good [OF wf(1) st] evs(1) by (auto simp: sysInv_def)
    moreover have "\<forall>h \<in> set (sys_gos y). goOwed h + chanFinals (g_idx h) (sys_chan y) \<le> 1"
      using inv by (simp add: sysInv_def)
    ultimately show "goWF k \<and> list_all (eventOK sub) (sends (g_pending k)) \<and> goOwed k + chanFinals (g_idx k) ?chan \<le> 1"
      using upd(2) k by blast
  qed
  ultimately show ?thesis
    using inv last upd(1) by (auto simp: sysInv_def goroutineMoved_def)
qed

lemma sysStep_sysInv:
  assumes "sysInv sub strategy0 y" and "sysStep sub y y'"
    and "requirementsOK (sub_sr sub)" and "\<forall>n. 0 < sub_elapsed sub n"
  shows "sysInv sub strategy0 y'"
  using assms(2)
proof (rule sysStepE)
  fix ev rest
  assume "sys_chan y = ev # rest" "y' = coordinatorMoved
    (receiveEvent (sub_sr sub) (sub_elapsed sub) (sub_eligible sub) ev (sys_co y)) (y\<lparr>sys_chan := rest\<rparr>)"
  then show ?thesis using receive_sysInv [OF assms(1) _ assms(3,4)] by simp
next
  fix e assume "y' = coordinatorMoved (ctxDone e (sys_co y)) y" "sys_ctx y = Some e"
  then show ?thesis using contextDone_sysInv [OF assms(1)] by simp
next
  fix e assume "y' = y\<lparr>sys_ctx := Some e, sys_cause := cancelWith (sys_cause y) (Some e)\<rparr>"
    "e = ContextCanceled \<or> e = ContextDeadlineExceeded"
  then show ?thesis using assms(1) by (auto simp: sysInv_def)
next
  fix i e g assume "y' = goroutineMoved i g e y" "i < length (sys_gos y)"
    "goStep (sub_lib sub) (sub_entry sub) (sys_cause y) (sys_gos y ! i) e g"
  then show ?thesis using goroutineStep_sysInv [OF assms(1)] by simp
next
  assume "y' = y\<lparr>sys_panicked := True\<rparr>"
  then show ?thesis using assms(1) by (simp add: sysInv_def)
qed

text \<open>The coordinator's start is a state of the invariant, with one new goroutine per launched log.\<close>

lemma sysStart_sysInv:
  assumes "coInv (accepts sub) (sub_sr sub) (sub_eligible sub) strategy0 (set (st_spawned s)) s"
  shows "sysInv sub strategy0 (sysStart s)"
proof -
  have "outSet (map newGoroutine (st_spawned s)) [] = set (st_spawned s)"
    using outSet_launch [of "[]" "st_spawned s" "[]"] by (simp add: outSet_def)
  then show ?thesis using assms coInv_spawned [OF assms] by (auto simp: sysInv_def sysStart_def comp_def)
qed

lemma sysReach_sysInv:
  assumes "sysReach sub y y'" and "sysInv sub strategy0 y"
    and "requirementsOK (sub_sr sub)" and "\<forall>n. 0 < sub_elapsed sub n"
  shows "sysInv sub strategy0 y'"
  using assms by (induction rule: sysReach.induct) (use sysStep_sysInv in blast)+

section \<open>Every submission returns\<close>

definition sysMeasure :: "submission \<Rightarrow> system \<Rightarrow> nat" where
  "sysMeasure sub y =
     2 * (\<Sum>g \<leftarrow> sys_gos y. goBudget g) + length (sys_chan y) +
     21 * (length (sub_eligible sub) - length (st_spawned (sys_co y))) +
     (if st_control (sys_co y) = Looping then 1 else 0) +
     (if sys_ctx y = None then 1 else 0) + (if sys_panicked y then 0 else 1)"

lemma receiveEvent_control:
  "st_control s \<noteq> Looping \<Longrightarrow> st_control (receiveEvent sr elapsed eligible ev s) \<noteq> Looping"
  by (auto simp: receiveEvent_def drainQuorum_def drainCtx_def returnTrimmed_def returnWith_def Let_def
      split: control.splits prod.splits)

lemma sum_budget_update:
  "i < length gos \<Longrightarrow> (\<Sum>g \<leftarrow> gos[i := g']. goBudget g) + goBudget (gos ! i) = (\<Sum>g \<leftarrow> gos. goBudget g) + goBudget g'"
  by (induction gos arbitrary: i) (auto simp: nth_Cons' split: nat.split)

lemma spawned_le:
  assumes "sysInv sub strategy0 y"
  shows "length (st_spawned (sys_co y)) \<le> length (sub_eligible sub)"
proof -
  have "coInv (accepts sub) (sub_sr sub) (sub_eligible sub) strategy0 (outSet (sys_gos y) (sys_chan y)) (sys_co y)"
    using assms by (simp add: sysInv_def)
  note sp = coInv_spawned [OF this]
  have "length (st_spawned (sys_co y)) = card (set (st_spawned (sys_co y)))" using sp by (simp add: distinct_card)
  also have "\<dots> \<le> card (set (sub_eligible sub))" by (rule card_mono) (use sp in simp_all)
  also have "\<dots> \<le> length (sub_eligible sub)" by (rule card_length)
  finally show ?thesis .
qed

text \<open>What a step of the coordinator does to the measure: each launch is paid for.\<close>

lemma coordinatorMoved_measure:
  assumes inv: "sysInv sub strategy0 y" and inv': "sysInv sub strategy0 (coordinatorMoved s (y\<lparr>sys_chan := chan\<rparr>))"
    and sp: "st_spawned s = st_spawned (sys_co y) @ xs"
    and less: "length chan + (if st_control s = Looping then 1 else 0) <
      length (sys_chan y) + (if st_control (sys_co y) = Looping then 1 else (0 :: nat))"
  shows "sysMeasure sub (coordinatorMoved s (y\<lparr>sys_chan := chan\<rparr>)) < sysMeasure sub y"
proof -
  have "map g_idx (sys_gos y) = st_spawned (sys_co y)" using inv by (simp add: sysInv_def)
  then have len: "length (sys_gos y) = length (st_spawned (sys_co y))" by (metis length_map)
  have b: "(\<Sum>g \<leftarrow> map newGoroutine xs. goBudget g) = 10 * length xs" for xs
    by (induction xs) simp_all
  have le: "length (st_spawned (sys_co y)) + length xs \<le> length (sub_eligible sub)"
    using spawned_le [OF inv'] sp by (simp add: coordinatorMoved_def)
  show ?thesis using less le sp len b by (simp add: sysMeasure_def coordinatorMoved_def comp_def)
qed

lemma sysStep_measure:
  assumes inv: "sysInv sub strategy0 y" and st: "sysStep sub y y'"
    and ok: "requirementsOK (sub_sr sub)" and pos: "\<forall>n. 0 < sub_elapsed sub n"
  shows "sysMeasure sub y' < sysMeasure sub y"
  using st
proof (rule sysStepE)
  fix ev rest
  let ?s = "receiveEvent (sub_sr sub) (sub_elapsed sub) (sub_eligible sub) ev (sys_co y)"
  assume a: "sys_chan y = ev # rest" "y' = coordinatorMoved ?s (y\<lparr>sys_chan := rest\<rparr>)"
  obtain xs where xs: "st_spawned ?s = st_spawned (sys_co y) @ xs" using receiveEvent_spawned by blast
  show ?thesis unfolding a(2)
    by (rule coordinatorMoved_measure [OF inv receive_sysInv [OF inv a(1) ok pos] xs])
      (use a(1) receiveEvent_control in auto)
next
  fix e assume a: "y' = coordinatorMoved (ctxDone e (sys_co y)) y" "sys_ctx y = Some e" "st_control (sys_co y) = Looping"
  have "sysInv sub strategy0 (coordinatorMoved (ctxDone e (sys_co y)) (y\<lparr>sys_chan := sys_chan y\<rparr>))"
    using contextDone_sysInv [OF inv a(2)] by simp
  from coordinatorMoved_measure [OF inv this, of "[]"] show ?thesis
    using a by (simp add: ctxDone_def)
next
  fix e assume "y' = y\<lparr>sys_ctx := Some e, sys_cause := cancelWith (sys_cause y) (Some e)\<rparr>" "sys_ctx y = None"
  then show ?thesis by (simp add: sysMeasure_def)
next
  fix i e g assume a: "y' = goroutineMoved i g e y" "i < length (sys_gos y)"
    "goStep (sub_lib sub) (sub_entry sub) (sys_cause y) (sys_gos y ! i) e g"
  have "goWF (sys_gos y ! i)" using inv a(2) by (simp add: sysInv_def)
  then have "goBudget g < goBudget (sys_gos y ! i)" using submitToLog.step_budget a(3) by blast
  then show ?thesis using a(1) sum_budget_update [OF a(2), of g]
    by (simp add: sysMeasure_def goroutineMoved_def split: option.split)
next
  assume "y' = y\<lparr>sys_panicked := True\<rparr>" "\<not> sys_panicked y"
  then show ?thesis by (simp add: sysMeasure_def)
qed

text \<open>No deadlock: until submit has returned, some party can move.\<close>

lemma progress:
  assumes inv: "sysInv sub strategy0 y" and run: "\<not> sys_panicked y" "\<not> isReturned (st_control (sys_co y))"
  shows "\<exists>y'. sysStep sub y y'"
proof (cases "sys_chan y")
  case (Cons ev rest)
  then show ?thesis using receive run by blast
next
  case Nil
  have co: "coInv (accepts sub) (sub_sr sub) (sub_eligible sub) strategy0 (outSet (sys_gos y) (sys_chan y)) (sys_co y)"
    using inv by (simp add: sysInv_def)
  then have ne: "outSet (sys_gos y) [] \<noteq> {}"
    using run(2) Nil by (auto simp: coInv_def isReturned_def split: control.splits)
  then obtain g where g: "g \<in> set (sys_gos y)" "0 < goOwed g" by (auto simp: outSet_def)
  then obtain i where i: "i < length (sys_gos y)" "sys_gos y ! i = g" by (auto simp: in_set_conv_nth)
  have "goWF g" using inv g(1) by (simp add: sysInv_def)
  then obtain e g' where st: "goStep (sub_lib sub) (sub_entry sub) (sys_cause y) g e g'"
    using submitToLog.live g(2) by blast
  have "st_spawned (sys_co y) \<noteq> []" using inv g(1) by (metis sysInv_def empty_iff empty_set list.map_disc_iff)
  then have "0 < length (sub_eligible sub)" using spawned_le [OF inv] by (cases "sub_eligible sub") auto
  then have "length (sys_chan y) < length (sub_eligible sub)" using Nil by simp
  then show ?thesis using goroutineStep [of y i sub e g'] run(1) i st by blast
qed

text \<open>So every run of the system is finite, and can only end after submit has returned (or a panic).\<close>

fun sysRuns :: "submission \<Rightarrow> system list \<Rightarrow> bool" where
  "sysRuns sub (y # y' # ys) \<longleftrightarrow> sysStep sub y y' \<and> sysRuns sub (y' # ys)"
| "sysRuns sub _ \<longleftrightarrow> True"

lemma sysRuns_bounded:
  "sysInv sub strategy0 y \<Longrightarrow> requirementsOK (sub_sr sub) \<Longrightarrow> \<forall>n. 0 < sub_elapsed sub n \<Longrightarrow>
     sysRuns sub (y # ys) \<Longrightarrow> length ys \<le> sysMeasure sub y"
proof (induction ys arbitrary: y)
  case Nil
  then show ?case by simp
next
  case (Cons y' ys)
  then have st: "sysStep sub y y'" and r: "sysRuns sub (y' # ys)" by auto
  have "sysInv sub strategy0 y'" by (rule sysStep_sysInv [OF Cons.prems(1) st Cons.prems(2,3)])
  with Cons.IH [OF this Cons.prems(2,3) r] sysStep_measure [OF Cons.prems(1) st Cons.prems(2,3)] show ?case by simp
qed

section \<open>No panic\<close>

text \<open>A goroutine can only panic on a precertificate without an issuer key hash.\<close>

definition issuerKnown :: "submittedEntry \<Rightarrow> bool" where
  "issuerKnown se \<longleftrightarrow> se_entryType se \<noteq> PrecertLogEntryType \<or> se_sha256IssuerSPKI se \<noteq> None"

lemma verify_no_panic: "issuerKnown se \<Longrightarrow> verifySCTSignature lib s se \<noteq> Panic"
  by (auto simp: verifySCTSignature_def leafFor_def issuerKnown_def split: option.split)

lemma wake_no_panic: "issuerKnown se \<Longrightarrow> wake lib se cause w g \<noteq> Panic"
  using verify_no_panic [of se lib]
  by (cases w) (auto simp: processHTTPResponse_def processBody_def Let_def
      split: sum.splits outcome.splits if_splits)

lemma sysReach_no_panic:
  assumes "sysReach sub y y'" and "\<not> sys_panicked y" and "issuerKnown (sub_entry sub)"
  shows "\<not> sys_panicked y'"
  using assms
proof (induction rule: sysReach.induct)
  case (start y)
  then show ?case by simp
next
  case (step y y1 y2)
  then have n: "\<not> sys_panicked y1" by simp
  from step.hyps(2) show ?case
    by (rule sysStepE) (use n wake_no_panic [OF assms(3)] in \<open>auto simp: coordinatorMoved_def goroutineMoved_def\<close>)
qed

section \<open>What holds when submit has returned\<close>

lemma returned_quiet:
  assumes inv: "sysInv sub strategy0 y" and r: "st_control (sys_co y) = Returned res"
  shows "sys_chan y = []" and "\<forall>g \<in> set (sys_gos y). goOwed g = 0"
    and "resultOK (accepts sub) (sub_sr sub) (sub_eligible sub) (sys_co y) res"
proof -
  have co: "coInv (accepts sub) (sub_sr sub) (sub_eligible sub) strategy0 (outSet (sys_gos y) (sys_chan y)) (sys_co y)"
    using inv by (simp add: sysInv_def)
  then have none: "outSet (sys_gos y) (sys_chan y) = {}"
    and ok: "resultOK (accepts sub) (sub_sr sub) (sub_eligible sub) (sys_co y) res" using r by (auto simp: coInv_def)
  have "\<forall>ev \<in> set (sys_chan y). ev_strategyIdx ev \<in> outSet (sys_gos y) (sys_chan y)"
    using inv by (simp add: sysInv_def)
  then show "sys_chan y = []" using none by (cases "sys_chan y") auto
  show "\<forall>g \<in> set (sys_gos y). goOwed g = 0" using none by (auto simp: outSet_def)
  show "resultOK (accepts sub) (sub_sr sub) (sub_eligible sub) (sys_co y) res" using ok .
qed

text \<open>A submission that got past its early errors is a state of the invariant.\<close>

lemma submitSystem_cases:
  assumes "freshStrategy strategy" and "requirementsOK sr" and "\<forall>n. 0 < elapsed n"
  obtains (early) e where "sys_co (submitSystem marshal sr elapsed strategy se) =
      (initState strategy)\<lparr>st_control := Returned (Err e)\<rparr>"
      "sys_gos (submitSystem marshal sr elapsed strategy se) = []"
      "sys_chan (submitSystem marshal sr elapsed strategy se) = []"
  | (running) "sysInv (submissionOf sr elapsed strategy lib se) strategy (submitSystem marshal sr elapsed strategy se)"
proof (cases rule: submitStart_cases [OF assms, where ctxErr = None and marshal = marshal and
    entryType = "se_entryType se" and acc = "accepts (submissionOf sr elapsed strategy lib se)",
    case_names early running])
  case (early e)
  then show ?thesis using that(1) by (simp add: submitSystem_def sysStart_def initState_def)
next
  case running
  then show ?thesis
    using that(2) sysStart_sysInv [of "submissionOf sr elapsed strategy lib se"]
    by (simp add: submitSystem_def submissionOf_def)
qed

text \<open>After an early error nothing moves but the request's context.\<close>

lemma early_stuck:
  assumes "sysReach sub y0 y" and "sys_gos y0 = []" and "sys_chan y0 = []" and "st_control (sys_co y0) = Returned r"
  shows "sys_co y = sys_co y0 \<and> sys_gos y = [] \<and> sys_chan y = []"
  using assms
proof (induction rule: sysReach.induct)
  case (start y)
  then show ?case by simp
next
  case (step y0 y1 y2)
  then have n: "sys_co y1 = sys_co y0" "sys_gos y1 = []" "sys_chan y1 = []" by auto
  from step.hyps(2) show ?case
    by (rule sysStepE) (use n step.prems in \<open>auto simp: isReturned_def\<close>)
qed

text \<open>So a returned submission either failed early or satisfies the promise of resultOK.\<close>

lemma submit_returned:
  assumes fresh: "freshStrategy strategy" and ok: "requirementsOK sr" and pos: "\<forall>n. 0 < elapsed n"
    and reach: "sysReach (submissionOf sr elapsed strategy lib se) (submitSystem marshal sr elapsed strategy se) y"
    and r: "st_control (sys_co y) = Returned res"
  shows "(\<exists>e. res = Err e \<and> sys_co y = (initState strategy)\<lparr>st_control := Returned (Err e)\<rparr> \<and> sys_gos y = [] \<and> sys_chan y = []) \<or>
    sysInv (submissionOf sr elapsed strategy lib se) strategy y"
proof (cases rule: submitSystem_cases [OF fresh ok pos, where marshal = marshal and se = se and lib = lib, case_names early running])
  case (early e)
  then have "sys_co y = (initState strategy)\<lparr>st_control := Returned (Err e)\<rparr> \<and> sys_gos y = [] \<and> sys_chan y = []"
    using early_stuck [OF reach] by simp
  then show ?thesis using r by auto
next
  case running
  have "sysInv (submissionOf sr elapsed strategy lib se) strategy y"
    by (rule sysReach_sysInv [OF reach running]) (use ok pos in \<open>simp_all add: submissionOf_def\<close>)
  then show ?thesis by simp
qed

text \<open>A cancellation other than the quorum's comes from the request's context.\<close>

lemma startNext_cause [simp]: "st_cancelCause (startNextEligible sr elapsed eligible s) = st_cancelCause s"
  by (simp add: startNextEligible_def Let_def split: option.split)

lemma returnWith_cause [simp]: "st_cancelCause (returnWith eligible r s) = st_cancelCause s"
  by (simp add: returnWith_def)

lemma returnTrimmed_cause [simp]: "st_cancelCause (returnTrimmed sr eligible s) = st_cancelCause s"
  by (simp add: returnTrimmed_def split: prod.split)

lemma loopCheck_cause [simp]: "st_cancelCause (loopCheck sr eligible s) = st_cancelCause s"
  by (simp add: loopCheck_def loopExit_def)

lemma receiveEvent_cause:
  "st_cancelCause (receiveEvent sr elapsed eligible ev s) = st_cancelCause s \<or>
   st_cancelCause (receiveEvent sr elapsed eligible ev s) = Some QuorumMetCause"
  by (simp add: receiveEvent_def handleSuccess_def handleFailure_def handleTryNext_def handleSlow_def
      drainQuorum_def drainCtx_def quorumReached_def recordSuccess_def completeInFlight_def Let_def
      split: control.split submissionEventType.split)

definition causeOK :: "system \<Rightarrow> bool" where
  "causeOK y \<longleftrightarrow> (\<forall>e. st_cancelCause (sys_co y) = Some e \<longrightarrow> e = QuorumMetCause \<or> sys_ctx y = Some e)"

lemma sysReach_causeOK: "sysReach sub y0 y \<Longrightarrow> causeOK y0 \<Longrightarrow> causeOK y"
proof (induction rule: sysReach.induct)
  case (start y)
  then show ?case by simp
next
  case (step y0 y1 y2)
  then have c: "causeOK y1" by simp
  from step.hyps(2) show ?case
  proof (rule sysStepE)
    fix ev rest
    let ?s = "receiveEvent (sub_sr sub) (sub_elapsed sub) (sub_eligible sub) ev (sys_co y1)"
    assume "y2 = coordinatorMoved ?s (y1\<lparr>sys_chan := rest\<rparr>)"
    then show ?thesis
      using c receiveEvent_cause [of "sub_sr sub" "sub_elapsed sub" "sub_eligible sub" ev "sys_co y1"]
      by (auto simp: causeOK_def coordinatorMoved_def)
  qed (use c in \<open>auto simp: causeOK_def coordinatorMoved_def goroutineMoved_def ctxDone_def\<close>)
qed

lemma submitSystem_causeOK: "causeOK (submitSystem marshal sr elapsed strategy se)"
proof -
  have l: "st_cancelCause (launchEligible elapsed eligible i s) = st_cancelCause s" for eligible i s by simp
  have o: "st_cancelCause (launchInOrder elapsed eligible n is s) = st_cancelCause s" for eligible n "is" s
    by (induction "is" arbitrary: s) auto
  have "st_cancelCause (launchInitialBatch sr elapsed eligible s) = st_cancelCause s" for eligible s
    by (simp add: launchInitialBatch_def ensureLogType_def Let_def o split: option.split)
  then show ?thesis
    by (simp add: causeOK_def submitSystem_def sysStart_def submitStart_def initState_def Let_def
        split: option.split sum.split)
qed

text \<open>How many steps there can be, from the start of a submission.\<close>

lemma early_step:
  assumes "sysStep sub y y'" and "sys_gos y = []" and "sys_chan y = []" and "st_control (sys_co y) = Returned r"
  shows "sys_ctx y = None" and "sys_ctx y' \<noteq> None" and "sys_gos y' = []" and "sys_chan y' = []"
    and "st_control (sys_co y') = Returned r"
  using assms by (auto elim!: sysStepE)

lemma early_runs:
  assumes "sysRuns sub (y # ys)" and "sys_gos y = []" and "sys_chan y = []" and "st_control (sys_co y) = Returned r"
  shows "length ys \<le> 1"
proof (cases ys)
  case (Cons y1 ys')
  then have s: "sysStep sub y y1" "sysRuns sub (y1 # ys')" using assms(1) by auto
  note e = early_step [OF s(1) assms(2-4)]
  have "ys' = []"
  proof (cases ys')
    case (Cons y2 ys2)
    then have st: "sysStep sub y1 y2" using s(2) by simp
    show ?thesis using early_step(1) [OF st e(3) e(4) e(5)] e(2) by simp
  qed simp
  then show ?thesis using Cons by simp
qed simp

lemma start_measure:
  assumes "sysInv (submissionOf sr elapsed strategy lib se) strategy (submitSystem marshal sr elapsed strategy se)"
  shows "sysMeasure (submissionOf sr elapsed strategy lib se) (submitSystem marshal sr elapsed strategy se) \<le>
    21 * length (eligibleLogs strategy) + 3"
proof -
  let ?s = "submitStart None marshal elapsed sr strategy (se_entryType se)"
  have "length (st_spawned ?s) \<le> length (eligibleLogs strategy)"
    using spawned_le [OF assms] by (simp add: submitSystem_def sysStart_def submissionOf_def)
  then have "20 * length (st_spawned ?s) + 21 * (length (eligibleLogs strategy) - length (st_spawned ?s)) \<le>
      21 * length (eligibleLogs strategy)" by simp
  moreover have "(\<Sum>g \<leftarrow> map newGoroutine xs. goBudget g) = 10 * length xs" for xs
    by (induction xs) simp_all
  ultimately show ?thesis
    by (simp add: sysMeasure_def submitSystem_def sysStart_def submissionOf_def comp_def)
qed

section \<open>Running a schedule\<close>

text \<open>An executable scheduler: each choice is one step of the system, if it is enabled.\<close>

datatype choice = ChReceive | ChContextDone | ChRequestDone go_error | ChWake nat wakeup | ChPerform nat

fun sysChoose :: "submission \<Rightarrow> choice \<Rightarrow> system \<Rightarrow> system option" where
  "sysChoose sub ChReceive y =
     (case sys_chan y of
        [] \<Rightarrow> None
      | ev # rest \<Rightarrow>
          if sys_panicked y \<or> isReturned (st_control (sys_co y)) then None
          else Some (coordinatorMoved
            (receiveEvent (sub_sr sub) (sub_elapsed sub) (sub_eligible sub) ev (sys_co y)) (y\<lparr>sys_chan := rest\<rparr>)))"
| "sysChoose sub ChContextDone y =
     (case sys_ctx y of
        None \<Rightarrow> None
      | Some e \<Rightarrow> if sys_panicked y \<or> st_control (sys_co y) \<noteq> Looping then None
                  else Some (coordinatorMoved (ctxDone e (sys_co y)) y))"
| "sysChoose sub (ChRequestDone e) y =
     (if sys_panicked y \<or> sys_ctx y \<noteq> None \<or> e \<noteq> ContextCanceled \<and> e \<noteq> ContextDeadlineExceeded then None
      else Some (y\<lparr>sys_ctx := Some e, sys_cause := cancelWith (sys_cause y) (Some e)\<rparr>))"
| "sysChoose sub (ChWake i w) y =
     (if sys_panicked y \<or> length (sys_gos y) \<le> i \<or> \<not> wakeEnabled (sys_cause y) w (sys_gos y ! i) then None
      else (case wake (sub_lib sub) (sub_entry sub) (sys_cause y) w (sys_gos y ! i) of
              Ok g \<Rightarrow> Some (goroutineMoved i g None y)
            | Panic \<Rightarrow> Some (y\<lparr>sys_panicked := True\<rparr>)
            | Err e \<Rightarrow> None))"
| "sysChoose sub (ChPerform i) y =
     (if sys_panicked y \<or> length (sys_gos y) \<le> i \<or> g_pending (sys_gos y ! i) = [] then None
      else (case perform (sys_gos y ! i) of
              (MonCall c, g) \<Rightarrow> Some (goroutineMoved i g None y)
            | (SendEvent ev, g) \<Rightarrow>
                if length (sys_chan y) < length (sub_eligible sub) then Some (goroutineMoved i g (Some ev) y) else None))"

fun sysExec :: "submission \<Rightarrow> choice list \<Rightarrow> system \<Rightarrow> system option" where
  "sysExec sub [] y = Some y"
| "sysExec sub (c # cs) y = (case sysChoose sub c y of None \<Rightarrow> None | Some y' \<Rightarrow> sysExec sub cs y')"

lemma sysChoose_step: "sysChoose sub c y = Some y' \<Longrightarrow> sysStep sub y y'"
proof (cases c)
  case ChReceive
  assume "sysChoose sub c y = Some y'"
  then show ?thesis using ChReceive receive [of y _ _ sub] by (auto split: list.splits if_splits)
next
  case ChContextDone
  assume "sysChoose sub c y = Some y'"
  then show ?thesis using ChContextDone contextDone [of y _ sub] by (auto split: option.splits if_splits)
next
  case (ChRequestDone e)
  assume "sysChoose sub c y = Some y'"
  then show ?thesis using ChRequestDone requestDone [of y e sub] by (auto split: if_splits)
next
  case (ChWake i w)
  assume a: "sysChoose sub c y = Some y'"
  then have e: "\<not> sys_panicked y" "i < length (sys_gos y)" "wakeEnabled (sys_cause y) w (sys_gos y ! i)"
    using ChWake by (auto split: if_splits)
  show ?thesis
  proof (cases "wake (sub_lib sub) (sub_entry sub) (sys_cause y) w (sys_gos y ! i)")
    case (Ok g)
    then have "goStep (sub_lib sub) (sub_entry sub) (sys_cause y) (sys_gos y ! i) None g"
      using goWake e(3) by blast
    then show ?thesis using goroutineStep [OF e(1,2)] a ChWake e Ok by auto
  next
    case (Err x)
    then show ?thesis using a ChWake e by simp
  next
    case Panic
    then show ?thesis using goroutinePanic [OF e Panic] a ChWake e by auto
  qed
next
  case (ChPerform i)
  assume a: "sysChoose sub c y = Some y'"
  then have e: "\<not> sys_panicked y" "i < length (sys_gos y)" "g_pending (sys_gos y ! i) \<noteq> []"
    using ChPerform by (auto split: if_splits)
  obtain act g where p: "perform (sys_gos y ! i) = (act, g)" by fastforce
  show ?thesis
  proof (cases act)
    case (MonCall c)
    then show ?thesis
      using goroutineStep [OF e(1,2) goMon [OF e(3)]] a ChPerform e p by auto
  next
    case (SendEvent ev)
    then show ?thesis
      using goroutineStep [OF e(1,2) goSend [OF e(3)]] a ChPerform e p by (auto split: if_splits)
  qed
qed

lemma sysReach_prepend: "sysReach sub y1 y2 \<Longrightarrow> sysStep sub y y1 \<Longrightarrow> sysReach sub y y2"
proof (induction rule: sysReach.induct)
  case (start y1)
  then show ?case using sysReach.start sysReach.step by blast
next
  case (step y1 y2 y3)
  then show ?case using sysReach.step by blast
qed

text \<open>The states a schedule goes through, up to the first choice that is not enabled.\<close>

fun sysTrace :: "submission \<Rightarrow> choice list \<Rightarrow> system \<Rightarrow> system list" where
  "sysTrace sub [] y = [y]"
| "sysTrace sub (c # cs) y = y # (case sysChoose sub c y of None \<Rightarrow> [] | Some y' \<Rightarrow> sysTrace sub cs y')"

lemma sysTrace_Cons: "sysTrace sub cs y = y # tl (sysTrace sub cs y)"
  by (cases cs) simp_all

lemma sysTrace_runs: "sysRuns sub (sysTrace sub cs y)"
proof (induction cs arbitrary: y)
  case (Cons c cs)
  show ?case
  proof (cases "sysChoose sub c y")
    case (Some y')
    then have st: "sysStep sub y y'" by (rule sysChoose_step)
    obtain ys where ys: "sysTrace sub cs y' = y' # ys" using sysTrace_Cons by metis
    have "sysTrace sub (c # cs) y = y # y' # ys" using Some ys by simp
    then show ?thesis using Cons [of y'] ys st by simp
  qed simp
qed simp

lemma sysExec_reach: "sysExec sub cs y = Some y' \<Longrightarrow> sysReach sub y y'"
  by (induction sub cs y rule: sysExec.induct)
    (auto intro: sysReach.start sysReach_prepend sysChoose_step split: option.splits)

section \<open>submit returns a value\<close>

lemma startNext_control: "st_control (startNextEligible sr elapsed eligible s) = st_control s"
  by (simp add: startNextEligible_def Let_def split: option.split)

lemma returns_no_Panic:
  "st_control (returnTrimmed sr eligible s) \<noteq> Returned Panic"
  "st_control s \<noteq> Returned Panic \<Longrightarrow> st_control (loopCheck sr eligible s) \<noteq> Returned Panic"
  by (simp_all add: returnTrimmed_def returnWith_def loopCheck_def loopExit_def split: prod.split)

lemma receiveEvent_no_Panic:
  "st_control s \<noteq> Returned Panic \<Longrightarrow> st_control (receiveEvent sr elapsed eligible ev s) \<noteq> Returned Panic"
  by (auto simp: receiveEvent_def handleSuccess_def handleFailure_def handleTryNext_def handleSlow_def
      drainQuorum_def drainCtx_def quorumReached_def recordSuccess_def completeInFlight_def Let_def
      returns_no_Panic startNext_control returnWith_def
      split: control.split submissionEventType.split intro!: returns_no_Panic(2))

lemma sysReach_no_Panic:
  "sysReach sub y0 y \<Longrightarrow> st_control (sys_co y0) \<noteq> Returned Panic \<Longrightarrow> st_control (sys_co y) \<noteq> Returned Panic"
proof (induction rule: sysReach.induct)
  case (start y)
  then show ?case by simp
next
  case (step y0 y1 y2)
  then have c: "st_control (sys_co y1) \<noteq> Returned Panic" by simp
  from step.hyps(2) show ?case
    by (rule sysStepE)
      (use c in \<open>auto simp: coordinatorMoved_def goroutineMoved_def ctxDone_def receiveEvent_no_Panic split: if_splits\<close>)
qed

lemma launch_control: "st_control (launchInitialBatch sr elapsed eligible s) = st_control s"
proof -
  have "st_control (launchInOrder elapsed eligible n is s) = st_control s" for n "is" s
    by (induction "is" arbitrary: s) auto
  then show ?thesis by (simp add: launchInitialBatch_def ensureLogType_def Let_def split: option.split)
qed

lemma submitSystem_no_Panic: "st_control (sys_co (submitSystem marshal sr elapsed strategy se)) \<noteq> Returned Panic"
  by (simp add: submitSystem_def sysStart_def submitStart_def initState_def Let_def launch_control returns_no_Panic(2)
      split: option.split sum.split)

end
