(* ===== verification/Submission_Spec.thy ===== *)
theory Submission_Spec
  imports Submit_System
begin

text \<open>
  What a submission is meant to be, without goroutines, channels, timers or trimming loops: a
  collection of SCTs that contacts logs, keeps or discards their outcomes, and ends with a quorum
  or a reason. The detailed model of submitter/orchestrate.go and submitter/submitToLog.go is shown
  to implement it by a simulation: every step of the system is some steps of the collection.
\<close>

section \<open>The collection of a quorum\<close>

datatype collectionPhase =
    Collecting
  | Met
  | Abandoned go_error
  | Completed "addChainResponse list" "sct list"
  | Refused go_error
  | Faulted

type_synonym keptSCT = "nat \<times> addChainResponse \<times> sct"

record collection =
  cl_contacted :: "nat set"
  cl_open :: "nat set"
  cl_kept :: "keptSCT list"
  cl_phase :: collectionPhase

definition keptLogs :: "keptSCT list \<Rightarrow> nat list" where
  "keptLogs kept = map fst kept"

definition operatorsOf :: "StrategyMember list \<Rightarrow> nat list \<Rightarrow> string set" where
  "operatorsOf strategy idxs = (\<lambda>i. sm_Operator (strategy ! i)) ` set idxs"

definition includesType :: "LogType \<Rightarrow> StrategyMember list \<Rightarrow> nat list \<Rightarrow> bool" where
  "includesType lt strategy idxs \<longleftrightarrow> (\<exists>i \<in> set idxs. sm_LogType (strategy ! i) = lt)"

text \<open>A set of logs makes a quorum; one more log brings it closer, or to the preferred static SCT.\<close>

definition suffices :: "SubmissionRequest \<Rightarrow> StrategyMember list \<Rightarrow> nat list \<Rightarrow> bool" where
  "suffices sr strategy idxs \<longleftrightarrow>
     sr_SCTs sr \<le> int (length idxs) \<and> sr_Operators sr \<le> int (card (operatorsOf strategy idxs)) \<and>
     (sr_RequireAtLeastOneRFC6962SCT sr \<longrightarrow> includesType LOGTYPE_RFC6962 strategy idxs)"

definition advances :: "SubmissionRequest \<Rightarrow> StrategyMember list \<Rightarrow> nat list \<Rightarrow> nat \<Rightarrow> bool" where
  "advances sr strategy idxs i \<longleftrightarrow>
     int (length idxs) < sr_SCTs sr \<or>
     int (card (operatorsOf strategy idxs)) < sr_Operators sr \<and> sm_Operator (strategy ! i) \<notin> operatorsOf strategy idxs \<or>
     sr_RequireAtLeastOneRFC6962SCT sr \<and> \<not> includesType LOGTYPE_RFC6962 strategy idxs \<and>
       sm_LogType (strategy ! i) = LOGTYPE_RFC6962 \<or>
     sr_PreferAtLeastOneStaticSCT sr \<and> \<not> includesType LOGTYPE_STATIC strategy idxs \<and>
       sm_LogType (strategy ! i) = LOGTYPE_STATIC"

text \<open>The SCTs that are returned: a quorum of exactly the requested size out of those that were kept.\<close>

definition chosenFrom :: "SubmissionRequest \<Rightarrow> StrategyMember list \<Rightarrow> keptSCT list \<Rightarrow> keptSCT list \<Rightarrow> bool" where
  "chosenFrom sr strategy kept picked \<longleftrightarrow>
     subseq picked kept \<and> int (length picked) = sr_SCTs sr \<and> suffices sr strategy (keptLogs picked) \<and>
     (sr_PreferAtLeastOneStaticSCT sr \<and> includesType LOGTYPE_STATIC strategy (keptLogs kept) \<longrightarrow>
        includesType LOGTYPE_STATIC strategy (keptLogs picked))"

definition contextError :: "go_error \<Rightarrow> bool" where
  "contextError e \<longleftrightarrow> e = ContextCanceled \<or> e = ContextDeadlineExceeded"

inductive specStep :: "submission \<Rightarrow> StrategyMember list \<Rightarrow> collection \<Rightarrow> collection \<Rightarrow> bool"
  for sub :: submission and strategy :: "StrategyMember list" where
  contact: "cl_phase c = Collecting \<Longrightarrow> i \<in> set (sub_eligible sub) \<Longrightarrow> i \<notin> cl_contacted c \<Longrightarrow>
    specStep sub strategy c (c\<lparr>cl_contacted := insert i (cl_contacted c), cl_open := insert i (cl_open c)\<rparr>)"
| keep: "cl_phase c = Collecting \<Longrightarrow> i \<in> cl_open c \<Longrightarrow> accepts sub i r s \<Longrightarrow>
    advances (sub_sr sub) strategy (keptLogs (cl_kept c)) i \<Longrightarrow>
    specStep sub strategy c (c\<lparr>cl_open := cl_open c - {i}, cl_kept := cl_kept c @ [(i, r, s)]\<rparr>)"
| discard: "i \<in> cl_open c \<Longrightarrow> specStep sub strategy c (c\<lparr>cl_open := cl_open c - {i}\<rparr>)"
| meet: "cl_phase c = Collecting \<Longrightarrow> suffices (sub_sr sub) strategy (keptLogs (cl_kept c)) \<Longrightarrow>
    specStep sub strategy c (c\<lparr>cl_phase := Met\<rparr>)"
| abandon: "cl_phase c = Collecting \<Longrightarrow> contextError e \<Longrightarrow> specStep sub strategy c (c\<lparr>cl_phase := Abandoned e\<rparr>)"
| answer: "cl_phase c = Met \<Longrightarrow> cl_open c = {} \<Longrightarrow> chosenFrom (sub_sr sub) strategy (cl_kept c) picked \<Longrightarrow>
    specStep sub strategy c
      (c\<lparr>cl_kept := picked, cl_phase := Completed (map (fst \<circ> snd) picked) (map (snd \<circ> snd) picked)\<rparr>)"
| refuse: "cl_phase c = Collecting \<Longrightarrow> cl_open c = {} \<Longrightarrow> \<not> suffices (sub_sr sub) strategy (keptLogs (cl_kept c)) \<Longrightarrow>
    \<forall>i \<in> set (sub_eligible sub) - cl_contacted c. \<not> advances (sub_sr sub) strategy (keptLogs (cl_kept c)) i \<Longrightarrow>
    specStep sub strategy c (c\<lparr>cl_phase := Refused (Errorf m)\<rparr>)"
| giveUp: "cl_phase c = Abandoned e \<Longrightarrow> cl_open c = {} \<Longrightarrow> specStep sub strategy c (c\<lparr>cl_phase := Refused e\<rparr>)"
| reject: "cl_phase c = Collecting \<Longrightarrow> cl_contacted c = {} \<Longrightarrow>
    specStep sub strategy c (c\<lparr>cl_phase := Refused (Errorf m)\<rparr>)"

definition specStart :: collection where
  "specStart = \<lparr>cl_contacted = {}, cl_open = {}, cl_kept = [], cl_phase = Collecting\<rparr>"

section \<open>The collection that a state of the coordinator stands for\<close>

fun phaseOf :: "control \<Rightarrow> collectionPhase" where
  "phaseOf Looping = Collecting"
| "phaseOf DrainingQuorum = Met"
| "phaseOf (DrainingCtx e) = Abandoned e"
| "phaseOf (Returned (Ok (responses, scts))) = Completed responses scts"
| "phaseOf (Returned (Err e)) = Refused e"
| "phaseOf (Returned Panic) = Faulted"

definition keptOf :: "quorumState \<Rightarrow> keptSCT list" where
  "keptOf qs = zip (qs_strategyIndices qs) (zip (qs_responses qs) (qs_scts qs))"

definition collectionOf :: "nat set \<Rightarrow> submitState \<Rightarrow> collection" where
  "collectionOf Out s =
     \<lparr>cl_contacted = set (st_spawned s), cl_open = Out, cl_kept = keptOf (st_qs s),
      cl_phase = phaseOf (st_control s)\<rparr>"

definition systemCollection :: "system \<Rightarrow> collection" where
  "systemCollection y = collectionOf (outSet (sys_gos y) (sys_chan y)) (sys_co y)"

abbreviation specSteps :: "submission \<Rightarrow> StrategyMember list \<Rightarrow> collection \<Rightarrow> collection \<Rightarrow> bool" where
  "specSteps sub strategy \<equiv> (specStep sub strategy)\<^sup>*\<^sup>*"

text \<open>The parallel lists and the summaries of the quorum state say what the list of kept SCTs says.\<close>

lemma keptLogs_keptOf:
  "collectedOK acc A qs \<Longrightarrow> keptLogs (keptOf qs) = qs_strategyIndices qs"
  by (simp add: keptLogs_def keptOf_def collectedOK_def)

lemma frame_member:
  assumes "frameOK strategy0 strategy" and "i < length strategy"
  shows "sm_Operator (strategy ! i) = sm_Operator (strategy0 ! i)" "sm_LogType (strategy ! i) = sm_LogType (strategy0 ! i)"
  using assms by (auto simp: frameOK_def sameLog_def)

lemma frame_summaries:
  assumes f: "frameOK strategy0 strategy" and b: "\<forall>i \<in> set idxs. i < length strategy"
  shows "operatorsOf strategy idxs = operatorsOf strategy0 idxs" "includesType lt strategy idxs = includesType lt strategy0 idxs"
proof -
  show "operatorsOf strategy idxs = operatorsOf strategy0 idxs"
    unfolding operatorsOf_def by (rule image_cong) (use b frame_member(1) [OF f] in auto)
  show "includesType lt strategy idxs = includesType lt strategy0 idxs"
    unfolding includesType_def by (rule bex_cong) (use b frame_member(2) [OF f] in auto)
qed

lemma coBase_summaries:
  assumes b: "coBase acc eligible strategy0 Out s"
  defines "idxs \<equiv> keptLogs (keptOf (st_qs s))"
  shows "length (qs_responses (st_qs s)) = length idxs" "qs_operators (st_qs s) = operatorsOf strategy0 idxs"
    "qs_hasRFC6962SCT (st_qs s) = includesType LOGTYPE_RFC6962 strategy0 idxs"
    "qs_hasStaticSCT (st_qs s) = includesType LOGTYPE_STATIC strategy0 idxs"
proof -
  have idxs: "idxs = qs_strategyIndices (st_qs s)"
    unfolding idxs_def by (rule keptLogs_keptOf [OF coBaseD(8) [OF b]])
  have wf: "quorumWF (st_strategy s) (st_qs s)" by (rule coBaseD(7) [OF b])
  then have lt: "\<forall>i \<in> set idxs. i < length (st_strategy s)" by (simp add: quorumWF_def idxs)
  note fs = frame_summaries [OF coBaseD(6) [OF b] lt]
  show "length (qs_responses (st_qs s)) = length idxs" using wf by (simp add: quorumWF_def idxs)
  show "qs_operators (st_qs s) = operatorsOf strategy0 idxs"
    unfolding fs(1) [symmetric] using wf by (simp add: quorumWF_def idxs operatorsOf_def)
  show "qs_hasRFC6962SCT (st_qs s) = includesType LOGTYPE_RFC6962 strategy0 idxs"
    "qs_hasStaticSCT (st_qs s) = includesType LOGTYPE_STATIC strategy0 idxs"
    unfolding fs(2) [symmetric] using wf by (simp_all add: quorumWF_def idxs includesType_def)
qed

lemma suffices_met:
  assumes "coBase acc eligible strategy0 Out s"
  shows "isQuorumMet (st_qs s) sr \<longleftrightarrow> suffices sr strategy0 (keptLogs (keptOf (st_qs s)))"
  using coBase_summaries [OF assms] by (simp add: isQuorumMet_iff suffices_def)

lemma advances_helps:
  assumes "coBase acc eligible strategy0 Out s" and "i < length (st_strategy s)"
  shows "helpsQuorum (st_qs s) sr (st_strategy s ! i) \<longleftrightarrow> advances sr strategy0 (keptLogs (keptOf (st_qs s))) i"
    and "wouldHelp (st_qs s) sr (st_strategy s ! i) (st_strategy s) {} \<longleftrightarrow>
      advances sr strategy0 (keptLogs (keptOf (st_qs s))) i"
  using coBase_summaries [OF assms(1)] frame_member [OF coBaseD(6) [OF assms(1)] assms(2)]
  by (auto simp: helpsQuorum_def wouldHelp_def advances_def Let_def)

section \<open>Every event is some steps of the collection\<close>

lemma collectionOf_simps [simp]:
  "cl_contacted (collectionOf Out s) = set (st_spawned s)" "cl_open (collectionOf Out s) = Out"
  "cl_kept (collectionOf Out s) = keptOf (st_qs s)" "cl_phase (collectionOf Out s) = phaseOf (st_control s)"
  by (simp_all add: collectionOf_def)

lemma collectionOf_write:
  assumes "st_spawned s' = st_spawned s" and "st_qs s' = st_qs s" and "st_control s' = st_control s"
  shows "collectionOf Out s' = collectionOf Out s"
  using assms by (simp add: collectionOf_def)

text \<open>One step of the collection whose result is the collection of a state.\<close>

lemma specStepsI: "specStep sub strategy c c1 \<Longrightarrow> c1 = c' \<Longrightarrow> specSteps sub strategy c c'"
  by blast

lemma specSteps_trans: "specSteps sub strategy a b \<Longrightarrow> specSteps sub strategy b c \<Longrightarrow> specSteps sub strategy a c"
  by (rule rtranclp_trans)

lemma launch_spec:
  assumes b: "coBase acc (sub_eligible sub) strategy0 Out s" and st: "st_control s = Looping"
    and i: "i < length (sub_eligible sub)" "unattempted (sub_eligible sub) s i"
  shows "specSteps sub strategy0 (collectionOf Out s)
    (collectionOf (insert (sub_eligible sub ! i) Out) (launchEligible elapsed (sub_eligible sub) i s))"
proof -
  have "sub_eligible sub ! i \<notin> set (st_spawned s)" using coBase_unattempted [OF b i(1)] i(2) by simp
  then show ?thesis
    by (intro specStepsI [OF contact [of _ "sub_eligible sub ! i"]]) (use i st in \<open>auto simp: collectionOf_def\<close>)
qed

lemma exhausted_advances:
  assumes b: "coBase acc eligible strategy0 Out s" and ex: "exhausted sr eligible s"
  shows "\<forall>i \<in> set eligible - set (st_spawned s). \<not> advances sr strategy0 (keptLogs (keptOf (st_qs s))) i"
  using ex advances_helps(2) [OF b coBase_eligible_bound [OF b]] by (auto simp: exhausted_def)

text \<open>The loop's test: with nothing outstanding the submission fails, since no further log helps.\<close>

lemma loopCheck_spec:
  assumes b: "coBase acc (sub_eligible sub) strategy0 Out s"
    and st: "\<not> isQuorumMet (st_qs s) (sub_sr sub)" "st_control s = Looping"
    and ex: "Out = {} \<Longrightarrow> exhausted (sub_sr sub) (sub_eligible sub) s"
  shows "specSteps sub strategy0 (collectionOf Out s) (collectionOf Out (loopCheck (sub_sr sub) (sub_eligible sub) s))"
proof (cases "Out = {}")
  case False
  then have "0 < st_inFlight s" using coBaseD(3) [OF b] coBase_finite [OF b] by (simp add: card_gt_0_iff)
  then show ?thesis by (simp add: loopCheck_def)
next
  case True
  let ?m = "''quorum not achieved: '' @ quorumFailureReason (st_qs s) (sub_sr sub)"
  have "loopCheck (sub_sr sub) (sub_eligible sub) s = returnWith (sub_eligible sub) (Err (Errorf ?m)) s"
    using coBaseD(3) [OF b] st True by (simp add: loopCheck_def loopExit_def)
  moreover have "specStep sub strategy0 (collectionOf Out s) (collectionOf Out s\<lparr>cl_phase := Refused (Errorf ?m)\<rparr>)"
    by (rule refuse) (use st True suffices_met [OF b] exhausted_advances [OF b ex] in simp_all)
  ultimately show ?thesis
    by (intro specStepsI) (simp_all add: collectionOf_def returnWith_def)
qed

lemma startNext_spec:
  assumes b: "coBase acc (sub_eligible sub) strategy0 Out s" and l: "loopSets Out s"
    and st: "\<not> isQuorumMet (st_qs s) (sub_sr sub)" "st_control s = Looping" and pos: "\<forall>n. 0 < elapsed n"
    and s': "s' = loopCheck (sub_sr sub) (sub_eligible sub) (startNextEligible (sub_sr sub) elapsed (sub_eligible sub) s)"
  shows "specSteps sub strategy0 (collectionOf Out s) (collectionOf (Out \<union> (set (st_spawned s') - set (st_spawned s))) s')"
proof (cases rule: startNextEligible_cases [of "sub_eligible sub" s "sub_sr sub" elapsed])
  case (launched i)
  let ?idx = "sub_eligible sub ! i"
  let ?s = "launchEligible elapsed (sub_eligible sub) i s"
  have "specSteps sub strategy0 (collectionOf (insert ?idx Out) ?s)
      (collectionOf (insert ?idx Out) (loopCheck (sub_sr sub) (sub_eligible sub) ?s))"
    by (rule loopCheck_spec [OF launch_coBase(1) [OF b launched(1,2) pos]]) (use st in simp_all)
  with launch_spec [OF b st(2) launched(1,2)]
  have "specSteps sub strategy0 (collectionOf Out s)
      (collectionOf (insert ?idx Out) (loopCheck (sub_sr sub) (sub_eligible sub) ?s))" by (rule specSteps_trans)
  moreover have "?idx \<notin> set (st_spawned s)" using coBase_unattempted [OF b launched(1)] launched(2) by simp
  then have "Out \<union> (set (st_spawned s') - set (st_spawned s)) = insert ?idx Out" using s' launched(4) by auto
  ultimately show ?thesis using s' launched(4) by simp
next
  case none
  have "exhausted (sub_sr sub) (sub_eligible sub) s" if "Out = {}"
  proof -
    have "st_inFlightIndices s = {}" using l that by (auto simp: loopSets_def)
    then show ?thesis using none(2) coBase_unattempted [OF b] by (auto simp: exhausted_def in_set_conv_nth)
  qed
  then show ?thesis using loopCheck_spec [OF b st] s' none(1) by simp
qed

lemma specSteps_two: "specStep sub strategy a b \<Longrightarrow> specStep sub strategy b c \<Longrightarrow> specSteps sub strategy a c"
  by (meson converse_rtranclp_into_rtranclp r_into_rtranclp)

section \<open>Outcomes and returns\<close>

lemma subseq_keep: "length sel = length xs \<Longrightarrow> subseq (keep sel xs) xs"
proof (induction sel xs rule: list_induct2)
  case Nil
  then show ?case by (simp add: mask_simps)
next
  case (Cons b sel x xs)
  then show ?case by (auto simp: mask_simps)
qed

lemma keptOf_keep:
  assumes c: "collectedOK acc A qs" and sel: "length sel = length (qs_responses qs)"
    and k: "qs_responses qs' = keep sel (qs_responses qs)" "qs_scts qs' = keep sel (qs_scts qs)"
      "qs_strategyIndices qs' = keep sel (qs_strategyIndices qs)"
  shows "keptOf qs' = keep sel (keptOf qs)"
  using c sel by (simp add: keptOf_def k collectedOK_def keep_zip)

text \<open>Trimming returns a quorum chosen from what was kept.\<close>

lemma trim_picks:
  assumes b: "coBase acc eligible strategy0 Out s" and met: "isQuorumMet (st_qs s) sr" and ok: "requirementsOK sr"
    and trim: "trimToQuorum (st_qs s) sr (st_strategy s) = (qs, strategy)"
  shows "chosenFrom sr strategy0 (keptOf (st_qs s)) (keptOf qs)"
    and "qs_responses qs = map (fst \<circ> snd) (keptOf qs)" and "qs_scts qs = map (snd \<circ> snd) (keptOf qs)"
proof -
  have ok3: "1 \<le> sr_SCTs sr" "sr_Operators sr \<le> sr_SCTs sr" "\<not> staticConflict sr"
    using ok by (auto simp: requirementsOK_def)
  note wf = coBaseD(7) [OF b] and coll = coBaseD(8) [OF b]
  note spec = trimToQuorum_spec [OF wf met ok3 trim]
  obtain sel where sel: "length sel = length (qs_responses (st_qs s))" "qs_responses qs = keep sel (qs_responses (st_qs s))"
    "qs_scts qs = keep sel (qs_scts (st_qs s))" "qs_strategyIndices qs = keep sel (qs_strategyIndices (st_qs s))"
    using spec(5) by blast
  have coll': "collectedOK acc (set (st_spawned s) - Out) qs" by (rule collectedOK_keep [OF coll sel])
  have idxs: "keptLogs (keptOf qs) = qs_strategyIndices qs" by (rule keptLogs_keptOf [OF coll'])
  have lens: "length (qs_strategyIndices qs) = length (qs_responses qs)" "length (qs_scts qs) = length (qs_responses qs)"
    using coll' by (auto simp: collectedOK_def)
  show "qs_responses qs = map (fst \<circ> snd) (keptOf qs)" "qs_scts qs = map (snd \<circ> snd) (keptOf qs)"
    using lens by (simp_all add: keptOf_def flip: map_map)
  have "length sel = length (keptOf (st_qs s))" using sel(1) coll by (simp add: keptOf_def collectedOK_def)
  then have "subseq (keptOf qs) (keptOf (st_qs s))"
    unfolding keptOf_keep [OF coll sel] by (rule subseq_keep)
  moreover have lt: "\<forall>i \<in> set (qs_strategyIndices qs). i < length (st_strategy s)"
    using coll' coBase_bound [OF b] by (auto simp: collectedOK_def)
  note fs = frame_summaries [OF coBaseD(6) [OF b] lt]
  have "sr_Operators sr \<le> int (card (operatorsOf strategy0 (qs_strategyIndices qs)))"
    unfolding fs(1) [symmetric] using spec(2) by (simp add: operatorsOf_def)
  moreover have "sr_RequireAtLeastOneRFC6962SCT sr \<Longrightarrow> includesType LOGTYPE_RFC6962 strategy0 (qs_strategyIndices qs)"
    unfolding fs(2) [symmetric] using spec(3) by (simp add: includesType_def)
  moreover have "sr_PreferAtLeastOneStaticSCT sr \<Longrightarrow> includesType LOGTYPE_STATIC strategy0 (keptLogs (keptOf (st_qs s))) \<Longrightarrow>
      includesType LOGTYPE_STATIC strategy0 (qs_strategyIndices qs)"
    unfolding fs(2) [symmetric] using spec(4) coBase_summaries(4) [OF b] by (simp add: includesType_def)
  ultimately show "chosenFrom sr strategy0 (keptOf (st_qs s)) (keptOf qs)"
    using spec(1) lens by (simp add: chosenFrom_def suffices_def idxs) (simp add: keptOf_def)
qed

text \<open>Returning, from a met quorum with nothing outstanding.\<close>

lemma returnTrimmed_spec:
  assumes b: "coBase acc (sub_eligible sub) strategy0 {} s" and met: "isQuorumMet (st_qs s) (sub_sr sub)"
    and ok: "requirementsOK (sub_sr sub)"
  shows "specStep sub strategy0 (collectionOf {} s\<lparr>cl_phase := Met\<rparr>)
    (collectionOf {} (returnTrimmed (sub_sr sub) (sub_eligible sub) s))"
proof -
  obtain qs strategy where trim: "trimToQuorum (st_qs s) (sub_sr sub) (st_strategy s) = (qs, strategy)" by fastforce
  let ?c = "collectionOf {} s\<lparr>cl_phase := Met\<rparr>"
  note picks = trim_picks [OF b met ok trim]
  have "specStep sub strategy0 ?c (?c\<lparr>cl_kept := keptOf qs,
      cl_phase := Completed (map (fst \<circ> snd) (keptOf qs)) (map (snd \<circ> snd) (keptOf qs))\<rparr>)"
    by (rule answer) (use picks(1) in simp_all)
  moreover have "collectionOf {} (returnTrimmed (sub_sr sub) (sub_eligible sub) s) =
      ?c\<lparr>cl_kept := keptOf qs, cl_phase := Completed (qs_responses qs) (qs_scts qs)\<rparr>"
    using trim by (simp add: collectionOf_def returnTrimmed_def returnWith_def)
  ultimately show ?thesis using picks(2,3) by simp
qed

lemma quorumReached_spec:
  assumes b: "coBase acc (sub_eligible sub) strategy0 Out s" and l: "loopSets Out s" and ok: "requirementsOK (sub_sr sub)"
    and met: "isQuorumMet (st_qs s) (sub_sr sub)" and st: "st_control s = Looping"
  shows "specSteps sub strategy0 (collectionOf Out s) (collectionOf Out (quorumReached (sub_sr sub) (sub_eligible sub) s))"
proof -
  let ?s = "s\<lparr>st_strategy := setOutcomes Out ''Submission cancelled (quorum met)'' (st_strategy s),
              st_cancelCause := Some QuorumMetCause\<rparr>"
  have eq: "quorumReached (sub_sr sub) (sub_eligible sub) s = (if 0 < st_inFlight s then ?s\<lparr>st_control := DrainingQuorum\<rparr>
      else returnTrimmed (sub_sr sub) (sub_eligible sub) ?s)"
    using l by (simp add: quorumReached_def Let_def loopSets_def)
  have "succeeded (st_strategy s) - Out = succeeded (st_strategy s)"
    using coBaseD(8,9) [OF b] by (auto simp: collectedOK_def)
  then have b': "coBase acc (sub_eligible sub) strategy0 Out ?s"
    using coBase_write [OF b, of "setOutcomes Out ''Submission cancelled (quorum met)'' (st_strategy s)"]
    by (simp add: succeeded_set successful_def)
  have m: "specStep sub strategy0 (collectionOf Out s) (collectionOf Out s\<lparr>cl_phase := Met\<rparr>)"
    by (rule meet) (use st met suffices_met [OF b] in simp_all)
  show ?thesis
  proof (cases "Out = {}")
    case False
    then have "0 < st_inFlight s" using coBaseD(3) [OF b] coBase_finite [OF b] by (simp add: card_gt_0_iff)
    then show ?thesis using eq by (intro specStepsI [OF m]) (simp add: collectionOf_def)
  next
    case True
    have "collectionOf Out ?s = collectionOf Out s" by (rule collectionOf_write) simp_all
    moreover have "specStep sub strategy0 (collectionOf Out ?s\<lparr>cl_phase := Met\<rparr>)
        (collectionOf Out (returnTrimmed (sub_sr sub) (sub_eligible sub) ?s))"
      using returnTrimmed_spec [of acc sub strategy0 ?s] b' met ok True by simp
    ultimately have r: "specStep sub strategy0 (collectionOf Out s\<lparr>cl_phase := Met\<rparr>)
        (collectionOf Out (returnTrimmed (sub_sr sub) (sub_eligible sub) ?s))" by (simp only:)
    have "\<not> 0 < st_inFlight s" using coBaseD(3) [OF b] True by simp
    then have q: "quorumReached (sub_sr sub) (sub_eligible sub) s = returnTrimmed (sub_sr sub) (sub_eligible sub) ?s"
      using eq by (simp only: if_False)
    show ?thesis unfolding q by (rule specSteps_two [OF m r])
  qed
qed

text \<open>The outcome of one log: its SCT is kept, or it is discarded.\<close>

lemma complete_spec:
  assumes "ev_strategyIdx ev \<in> Out"
  shows "specSteps sub strategy0 (collectionOf Out s) (collectionOf (Out - {ev_strategyIdx ev}) (completeInFlight ev s))"
  by (rule specStepsI [OF discard [of "ev_strategyIdx ev"]]) (use assms in \<open>simp_all add: collectionOf_def\<close>)

lemma recordSuccess_spec:
  assumes b: "coBase (accepts sub) (sub_eligible sub) strategy0 Out s" and st: "st_control s = Looping"
    and ev: "ev_strategyIdx ev \<in> Out" "accepts sub (ev_strategyIdx ev) (ev_response ev) (ev_sct ev)"
  defines "s1 \<equiv> recordSuccess (sub_sr sub) ev (completeInFlight ev s)"
  shows "specSteps sub strategy0 (collectionOf Out s) (collectionOf (Out - {ev_strategyIdx ev}) s1)"
proof -
  let ?idx = "ev_strategyIdx ev"
  let ?s0 = "completeInFlight ev s"
  have b0: "coBase (accepts sub) (sub_eligible sub) strategy0 (Out - {?idx}) ?s0"
    by (rule completeInFlight_coBase(1) [OF b ev(1)])
  have "?idx \<in> set (st_spawned ?s0)" using coBaseD(2) [OF b] ev(1) by auto
  then have lt: "?idx < length (st_strategy ?s0)" by (rule coBase_bound [OF b0])
  show ?thesis
  proof (cases "helpsQuorum (st_qs ?s0) (sub_sr sub) (st_strategy ?s0 ! ?idx)")
    case False
    then have "collectionOf (Out - {?idx}) s1 = collectionOf (Out - {?idx}) ?s0"
      by (intro collectionOf_write) (simp_all add: s1_def recordSuccess_def Let_def)
    then show ?thesis using complete_spec [OF ev(1), of sub strategy0 s] by simp
  next
    case True
    then have adv: "advances (sub_sr sub) strategy0 (keptLogs (keptOf (st_qs s))) ?idx"
      using advances_helps(1) [OF b0 lt] by simp
    have "keptOf (st_qs s1) = keptOf (st_qs s) @ [(?idx, ev_response ev, ev_sct ev)]"
      using True coBaseD(8) [OF b]
      by (simp add: s1_def recordSuccess_def Let_def addSuccess_def keptOf_def collectedOK_def)
    then show ?thesis
      by (intro specStepsI [OF specStep.keep [of _ ?idx sub "ev_response ev" "ev_sct ev"]])
        (use st ev adv in \<open>simp_all add: collectionOf_def s1_def\<close>)
  qed
qed

section \<open>Every input of the coordinator\<close>

lemma handleSuccess_spec:
  assumes b: "coBase (accepts sub) (sub_eligible sub) strategy0 Out s" and l: "loopSets Out s"
    and ok: "requirementsOK (sub_sr sub)" and st: "st_control s = Looping" and pos: "\<forall>n. 0 < elapsed n"
    and ev: "evOK (accepts sub) Out ev" "ev_eventType ev = eventSuccess"
  defines "s' \<equiv> handleSuccess (sub_sr sub) elapsed (sub_eligible sub) ev s"
  shows "specSteps sub strategy0 (collectionOf Out s) (collectionOf (outAfter Out ev s s') s')"
proof -
  let ?Out = "Out - {ev_strategyIdx ev}"
  let ?s1 = "recordSuccess (sub_sr sub) ev (completeInFlight ev s)"
  have idx: "ev_strategyIdx ev \<in> Out" "ev_outcome ev = successful" "accepts sub (ev_strategyIdx ev) (ev_response ev) (ev_sct ev)"
    using ev by (auto simp: evOK_def)
  note c = completeInFlight_coBase [OF b idx(1)]
  have "ev_strategyIdx ev \<in> set (st_spawned (completeInFlight ev s)) - ?Out" using coBaseD(2) [OF b] idx(1) by auto
  then have b1: "coBase (accepts sub) (sub_eligible sub) strategy0 ?Out ?s1"
    by (rule recordSuccess_coBase [OF c(1)]) (use c(2) idx in simp_all)
  have l1: "loopSets ?Out ?s1" using completeInFlight_loopSets [OF l, of ev] by (simp add: loopSets_def)
  have out: "outAfter Out ev s s' = ?Out \<union> (set (st_spawned s') - set (st_spawned ?s1))"
    using ev(2) by (simp add: outAfter_def isFinal_def)
  have st1: "st_control ?s1 = Looping" using st by simp
  have inf: "st_inFlight ?s1 = 0 \<longleftrightarrow> ?Out = {}" using coBaseD(3) [OF b1] coBase_finite [OF b1] by simp
  have "specSteps sub strategy0 (collectionOf ?Out ?s1) (collectionOf (outAfter Out ev s s') s')"
  proof (cases "isQuorumMet (st_qs ?s1) (sub_sr sub)")
    case True
    then have eq: "s' = quorumReached (sub_sr sub) (sub_eligible sub) ?s1" by (simp add: s'_def handleSuccess_def Let_def)
    have "outAfter Out ev s s' = ?Out" using out unfolding eq by simp
    moreover have "specSteps sub strategy0 (collectionOf ?Out ?s1) (collectionOf ?Out s')"
      unfolding eq by (rule quorumReached_spec [OF b1 l1 ok True st1])
    ultimately show ?thesis by simp
  next
    case False
    show ?thesis
    proof (cases "st_inFlight ?s1 = 0")
      case True
      then have "s' = loopCheck (sub_sr sub) (sub_eligible sub) (startNextEligible (sub_sr sub) elapsed (sub_eligible sub) ?s1)"
        using False by (simp add: s'_def handleSuccess_def Let_def)
      from startNext_spec [OF b1 l1 False st1 pos this] show ?thesis unfolding out .
    next
      case nz: False
      then have eq: "s' = loopCheck (sub_sr sub) (sub_eligible sub) ?s1"
        using False by (simp add: s'_def handleSuccess_def Let_def)
      have "outAfter Out ev s s' = ?Out" using out unfolding eq by simp
      moreover have "specSteps sub strategy0 (collectionOf ?Out ?s1) (collectionOf ?Out s')"
        unfolding eq by (rule loopCheck_spec [OF b1 False st1]) (use nz inf in blast)
      ultimately show ?thesis by simp
    qed
  qed
  with recordSuccess_spec [OF b st idx(1,3)] show ?thesis by (rule specSteps_trans)
qed

lemma handleFailure_spec:
  assumes b: "coBase (accepts sub) (sub_eligible sub) strategy0 Out s" and l: "loopSets Out s"
    and ok: "\<not> isQuorumMet (st_qs s) (sub_sr sub)" and st: "st_control s = Looping" and pos: "\<forall>n. 0 < elapsed n"
    and ev: "evOK (accepts sub) Out ev" "ev_eventType ev = eventFailure"
  defines "s' \<equiv> handleFailure (sub_sr sub) elapsed (sub_eligible sub) ev s"
  shows "specSteps sub strategy0 (collectionOf Out s) (collectionOf (outAfter Out ev s s') s')"
proof -
  let ?idx = "ev_strategyIdx ev"
  let ?Out = "Out - {?idx}"
  let ?s0 = "completeInFlight ev s"
  let ?s1 = "?s0\<lparr>st_strategy := setOutcome ?idx (ev_outcome ev) (st_strategy ?s0)\<rparr>"
  have idx: "?idx \<in> Out" "ev_outcome ev \<noteq> successful" using ev by (auto simp: evOK_def)
  note b1 = failed_coBase [OF b idx]
  have l1: "loopSets ?Out ?s1" using completeInFlight_loopSets [OF l, of ev] by (simp add: loopSets_def)
  have out: "outAfter Out ev s s' = ?Out \<union> (set (st_spawned s') - set (st_spawned ?s1))"
    using ev(2) by (simp add: outAfter_def isFinal_def)
  have st1: "\<not> isQuorumMet (st_qs ?s1) (sub_sr sub)" "st_control ?s1 = Looping" using st ok by simp_all
  have s': "s' = loopCheck (sub_sr sub) (sub_eligible sub)
      (if st_inFlight ?s1 = 0 then startNextEligible (sub_sr sub) elapsed (sub_eligible sub) ?s1 else ?s1)"
    by (simp add: s'_def handleFailure_def Let_def completeInFlight_def)
  have "specSteps sub strategy0 (collectionOf ?Out ?s1) (collectionOf (outAfter Out ev s s') s')"
  proof (cases "st_inFlight ?s1 = 0")
    case True
    then have "s' = loopCheck (sub_sr sub) (sub_eligible sub) (startNextEligible (sub_sr sub) elapsed (sub_eligible sub) ?s1)"
      using s' by simp
    from startNext_spec [OF b1 l1 st1 pos this] show ?thesis unfolding out .
  next
    case False
    then have eq: "s' = loopCheck (sub_sr sub) (sub_eligible sub) ?s1" using s' by simp
    have "?Out \<noteq> {}"
    proof
      assume "?Out = {}"
      then have "st_inFlight ?s1 = int (card ({} :: nat set))" using coBaseD(3) [OF b1] by (simp only:)
      then show False using False by simp
    qed
    then have "specSteps sub strategy0 (collectionOf ?Out ?s1) (collectionOf ?Out s')"
      unfolding eq using loopCheck_spec [OF b1 st1] by blast
    moreover have "outAfter Out ev s s' = ?Out" using out unfolding eq by simp
    ultimately show ?thesis by simp
  qed
  moreover have "collectionOf ?Out ?s1 = collectionOf ?Out ?s0" by (rule collectionOf_write) simp_all
  ultimately show ?thesis using complete_spec [OF idx(1), of sub strategy0 s] specSteps_trans by metis
qed

lemma handleTryNext_spec:
  assumes b: "coBase (accepts sub) (sub_eligible sub) strategy0 Out s" and l: "loopSets Out s"
    and st: "\<not> isQuorumMet (st_qs s) (sub_sr sub)" "st_control s = Looping" and pos: "\<forall>n. 0 < elapsed n"
    and ev: "evOK (accepts sub) Out ev" "ev_eventType ev = eventTryNext"
  defines "s' \<equiv> handleTryNext (sub_sr sub) elapsed (sub_eligible sub) ev s"
  shows "specSteps sub strategy0 (collectionOf Out s) (collectionOf (outAfter Out ev s s') s')"
proof -
  let ?s1 = "s\<lparr>st_inFlightIndices := st_inFlightIndices s - {ev_strategyIdx ev},
               st_slowInFlightIndices := insert (ev_strategyIdx ev) (st_slowInFlightIndices s)\<rparr>"
  have b1: "coBase (accepts sub) (sub_eligible sub) strategy0 Out ?s1" using b by simp
  have l1: "loopSets Out ?s1" using l ev(1) by (auto simp: loopSets_def evOK_def)
  have "s' = loopCheck (sub_sr sub) (sub_eligible sub) (startNextEligible (sub_sr sub) elapsed (sub_eligible sub) ?s1)"
    by (simp add: s'_def handleTryNext_def Let_def)
  from startNext_spec [OF b1 l1 _ _ pos this]
  have "specSteps sub strategy0 (collectionOf Out ?s1) (collectionOf (Out \<union> (set (st_spawned s') - set (st_spawned ?s1))) s')"
    using st by simp
  moreover have "collectionOf Out ?s1 = collectionOf Out s" by (rule collectionOf_write) simp_all
  ultimately show ?thesis using ev(2) by (simp add: outAfter_def isFinal_def)
qed

lemma handleSlow_spec:
  assumes b: "coBase (accepts sub) (sub_eligible sub) strategy0 Out s" and ne: "Out \<noteq> {}"
    and ev: "ev_eventType ev = eventSlow"
  defines "s' \<equiv> handleSlow (sub_sr sub) (sub_eligible sub) ev s"
  shows "collectionOf (outAfter Out ev s s') s' = collectionOf Out s"
proof -
  have "0 < st_inFlight s" using ne coBaseD(3) [OF b] coBase_finite [OF b] by (simp add: card_gt_0_iff)
  then show ?thesis
    using ev by (simp add: s'_def handleSlow_def loopCheck_def outAfter_def isFinal_def collectionOf_def)
qed

lemma drainQuorum_spec:
  assumes b: "coBase acc (sub_eligible sub) strategy0 Out s" and ok: "requirementsOK (sub_sr sub)"
    and st: "isQuorumMet (st_qs s) (sub_sr sub)" "st_control s = DrainingQuorum"
    and ne: "Out \<noteq> {}" and ev: "ev_strategyIdx ev \<in> Out"
  defines "s' \<equiv> drainQuorum (sub_sr sub) (sub_eligible sub) ev s"
  shows "specSteps sub strategy0 (collectionOf Out s) (collectionOf (outAfter Out ev s s') s')"
proof (cases "isFinal ev")
  case False
  then have "s' = s" using ne coBaseD(3) [OF b] coBase_finite [OF b] by (simp add: s'_def drainQuorum_def card_gt_0_iff)
  then show ?thesis using False by (simp add: outAfter_final)
next
  case True
  let ?Out = "Out - {ev_strategyIdx ev}"
  let ?s1 = "s\<lparr>st_inFlight := st_inFlight s - 1,
               st_strategy := setTimeTaken (ev_strategyIdx ev) (ev_timeTaken ev) (st_strategy s)\<rparr>"
  have b1: "coBase acc (sub_eligible sub) strategy0 ?Out ?s1"
    by (rule drained_coBase [OF b]) (use ev in \<open>simp_all add: succeeded_set\<close>)
  have s': "s' = (if 0 < st_inFlight ?s1 then ?s1 else returnTrimmed (sub_sr sub) (sub_eligible sub) ?s1)"
    using True by (simp add: s'_def drainQuorum_def Let_def)
  have out: "outAfter Out ev s s' = ?Out"
    unfolding outAfter_final(1) [OF True] s'_def drain_spawned by simp
  have "specStep sub strategy0 (collectionOf Out s) (collectionOf Out s\<lparr>cl_open := ?Out\<rparr>)"
    by (rule specStep.discard [of "ev_strategyIdx ev" "collectionOf Out s" sub strategy0, simplified]) (rule ev)
  moreover have "collectionOf Out s\<lparr>cl_open := ?Out\<rparr> = collectionOf ?Out ?s1"
    by (simp add: collectionOf_def)
  ultimately have d: "specSteps sub strategy0 (collectionOf Out s) (collectionOf ?Out ?s1)" by simp
  show ?thesis
  proof (cases "0 < st_inFlight ?s1")
    case True
    then have "s' = ?s1" using s' by simp
    with d have "specSteps sub strategy0 (collectionOf Out s) (collectionOf ?Out s')" by simp
    then show ?thesis unfolding out .
  next
    case False
    have "?Out = {}"
      using False unfolding coBaseD(3) [OF b1] using coBase_finite [OF b1] by (simp add: card_gt_0_iff)
    then have b2: "coBase acc (sub_eligible sub) strategy0 {} ?s1" using b1 by (simp only:)
    have "specStep sub strategy0 (collectionOf {} ?s1\<lparr>cl_phase := Met\<rparr>)
        (collectionOf {} (returnTrimmed (sub_sr sub) (sub_eligible sub) ?s1))"
      by (rule returnTrimmed_spec [OF b2 _ ok]) (use st in simp)
    moreover have "collectionOf {} ?s1\<lparr>cl_phase := Met\<rparr> = collectionOf {} ?s1"
      using st(2) by (simp add: collectionOf_def)
    moreover have "s' = returnTrimmed (sub_sr sub) (sub_eligible sub) ?s1" using s' False by simp
    ultimately have "specSteps sub strategy0 (collectionOf {} ?s1) (collectionOf {} s')" by (metis r_into_rtranclp)
    then show ?thesis using d unfolding out \<open>?Out = {}\<close> by (rule specSteps_trans [rotated])
  qed
qed

lemma drainCtx_spec:
  assumes b: "drainBase (sub_eligible sub) strategy0 Out s" and st: "st_control s = DrainingCtx e"
    and ne: "Out \<noteq> {}" and ev: "ev_strategyIdx ev \<in> Out"
  defines "s' \<equiv> drainCtx e (sub_eligible sub) ev s"
  shows "specSteps sub strategy0 (collectionOf Out s) (collectionOf (outAfter Out ev s s') s')"
proof (cases "isFinal ev")
  case False
  have "0 < st_inFlight s" using b ne by (auto simp: drainBase_def card_gt_0_iff intro: finite_subset)
  then have "s' = s" using False by (simp add: s'_def drainCtx_def Let_def)
  then show ?thesis using False by (simp add: outAfter_final(2))
next
  case True
  let ?idx = "ev_strategyIdx ev"
  let ?Out = "Out - {?idx}"
  have fin: "finite Out" using b by (auto simp: drainBase_def intro: finite_subset)
  have card: "card Out = Suc (card ?Out)" using fin ev by (rule card.remove)
  have out: "outAfter Out ev s s' = ?Out"
    unfolding outAfter_final(1) [OF True] s'_def drain_spawned by simp
  have "specStep sub strategy0 (collectionOf Out s) (collectionOf Out s\<lparr>cl_open := ?Out\<rparr>)"
    by (rule specStep.discard [of "?idx" "collectionOf Out s" sub strategy0, simplified]) (rule ev)
  then have d: "specSteps sub strategy0 (collectionOf Out s) (collectionOf ?Out s)"
    by (simp add: collectionOf_def)
  show ?thesis
  proof (cases "?Out = {}")
    case e: True
    have "st_inFlight s = 1" using b card unfolding e by (simp add: drainBase_def)
    then have "st_spawned s' = st_spawned s" "st_qs s' = st_qs s" "st_control s' = Returned (Err e)"
      using True by (simp_all add: s'_def drainCtx_def returnWith_def Let_def)
    moreover have "specStep sub strategy0 (collectionOf {} s) (collectionOf {} s\<lparr>cl_phase := Refused e\<rparr>)"
      by (rule giveUp) (use st in simp_all)
    ultimately have "specSteps sub strategy0 (collectionOf {} s) (collectionOf {} s')"
      by (simp add: collectionOf_def)
    then show ?thesis using d unfolding out e by (rule specSteps_trans [rotated])
  next
    case False
    then have "0 < card ?Out" using fin by (simp add: card_gt_0_iff)
    then have "1 < st_inFlight s" using b card by (simp add: drainBase_def)
    then have "collectionOf ?Out s' = collectionOf ?Out s"
      using True by (intro collectionOf_write) (simp_all add: s'_def drainCtx_def Let_def)
    then show ?thesis using d unfolding out by simp
  qed
qed

lemma receiveEvent_spec:
  assumes inv: "coInv (accepts sub) (sub_sr sub) (sub_eligible sub) strategy0 Out s" and ok: "requirementsOK (sub_sr sub)"
    and pos: "\<forall>n. 0 < elapsed n" and ev: "evOK (accepts sub) Out ev"
  defines "s' \<equiv> receiveEvent (sub_sr sub) elapsed (sub_eligible sub) ev s"
  shows "specSteps sub strategy0 (collectionOf Out s) (collectionOf (outAfter Out ev s s') s')"
proof (cases "st_control s")
  case Looping
  then have i: "coBase (accepts sub) (sub_eligible sub) strategy0 Out s" "loopSets Out s"
    "\<not> isQuorumMet (st_qs s) (sub_sr sub)" "Out \<noteq> {}"
    using inv by (auto simp: coInv_def)
  show ?thesis
  proof (cases "ev_eventType ev")
    case eventSuccess
    then show ?thesis using handleSuccess_spec [OF i(1,2) ok Looping pos ev] Looping by (simp add: s'_def receiveEvent_def)
  next
    case eventFailure
    then show ?thesis using handleFailure_spec [OF i(1,2,3) Looping pos ev] Looping by (simp add: s'_def receiveEvent_def)
  next
    case eventTryNext
    then show ?thesis using handleTryNext_spec [OF i(1,2,3) Looping pos ev] Looping by (simp add: s'_def receiveEvent_def)
  next
    case eventSlow
    then show ?thesis using handleSlow_spec [OF i(1,4) eventSlow] Looping by (simp add: s'_def receiveEvent_def)
  qed
next
  case DrainingQuorum
  then show ?thesis
    using inv drainQuorum_spec [of "accepts sub" sub strategy0 Out s ev] ok ev
    by (simp add: coInv_def s'_def receiveEvent_def evOK_def)
next
  case (DrainingCtx e)
  then show ?thesis
    using inv drainCtx_spec [of sub strategy0 Out s e ev] ev by (simp add: coInv_def s'_def receiveEvent_def evOK_def)
next
  case (Returned r)
  then show ?thesis using inv ev by (simp add: coInv_def evOK_def)
qed

lemma ctxDone_spec:
  assumes "contextError e"
  shows "specSteps sub strategy0 (collectionOf Out s) (collectionOf Out (ctxDone e s))"
proof (cases "st_control s")
  case Looping
  show ?thesis
    by (rule specStepsI [OF abandon [OF _ assms]]) (use Looping in \<open>simp_all add: collectionOf_def ctxDone_def\<close>)
qed (simp_all add: ctxDone_def)

section \<open>The system simulates the collection\<close>

text \<open>
  Functional simulation between two step relations: along a step the invariant is kept and the
  abstraction makes some abstract steps. So it does along every run.
\<close>

locale simulation =
  fixes cstep :: "'c \<Rightarrow> 'c \<Rightarrow> bool" and inv :: "'c \<Rightarrow> bool"
    and astep :: "'a \<Rightarrow> 'a \<Rightarrow> bool" and abs :: "'c \<Rightarrow> 'a"
  assumes keeps: "inv x \<Longrightarrow> cstep x x' \<Longrightarrow> inv x'"
    and simulates: "inv x \<Longrightarrow> cstep x x' \<Longrightarrow> astep\<^sup>*\<^sup>* (abs x) (abs x')"
begin

lemma run_keeps: "cstep\<^sup>*\<^sup>* x x' \<Longrightarrow> inv x \<Longrightarrow> inv x'"
  by (induction rule: rtranclp_induct) (auto intro: keeps)

lemma run_simulates: "cstep\<^sup>*\<^sup>* x x' \<Longrightarrow> inv x \<Longrightarrow> astep\<^sup>*\<^sup>* (abs x) (abs x')"
proof (induction rule: rtranclp_induct)
  case base
  then show ?case by simp
next
  case (step x1 x2)
  then have "inv x1" using run_keeps by blast
  from simulates [OF this step.hyps(2)] step show ?case by (meson rtranclp_trans)
qed

end

text \<open>What a step of the system needs: the invariant, a request that can be met, and a known context error.\<close>

definition simInv :: "submission \<Rightarrow> StrategyMember list \<Rightarrow> system \<Rightarrow> bool" where
  "simInv sub strategy0 y \<longleftrightarrow>
     sysInv sub strategy0 y \<and> requirementsOK (sub_sr sub) \<and> (\<forall>n. 0 < sub_elapsed sub n) \<and>
     (\<forall>e. sys_ctx y = Some e \<longrightarrow> contextError e)"

lemma sysStep_simInv: "simInv sub strategy0 y \<Longrightarrow> sysStep sub y y' \<Longrightarrow> simInv sub strategy0 y'"
proof -
  assume i: "simInv sub strategy0 y" and st: "sysStep sub y y'"
  have "\<forall>e. sys_ctx y' = Some e \<longrightarrow> contextError e"
    using st by (rule sysStepE) (use i in \<open>auto simp: simInv_def contextError_def coordinatorMoved_def goroutineMoved_def\<close>)
  then show ?thesis using i sysStep_sysInv [OF _ st] by (auto simp: simInv_def)
qed

lemma receive_collection:
  assumes inv: "sysInv sub strategy0 y" and chan: "sys_chan y = ev # rest"
    and co: "coInv (accepts sub) (sub_sr sub) (sub_eligible sub) strategy0 Out' s"
    and sp: "st_spawned s = st_spawned (sys_co y) @ xs"
  shows "outSet (sys_gos (coordinatorMoved s (y\<lparr>sys_chan := rest\<rparr>))) rest =
    outAfter (outSet (sys_gos y) (sys_chan y)) ev (sys_co y) s"
proof -
  have i: "map g_idx (sys_gos y) = st_spawned (sys_co y)" "distinct (map g_idx (sys_gos y))"
    "\<forall>g \<in> set (sys_gos y). goOwed g + chanFinals (g_idx g) (ev # rest) \<le> 1"
    "finalsLast (ev # rest)" "\<forall>x \<in> set (ev # rest). ev_strategyIdx x \<in> outSet (sys_gos y) (ev # rest)"
    using inv chan by (auto simp: sysInv_def)
  note recv = outSet_receive [OF i(2,3)]
  have d: "distinct (st_spawned s)" using coInv_spawned [OF co] by simp
  have "\<forall>x \<in> set rest. ev_strategyIdx x \<in> outSet (sys_gos y) rest" using i(4,5) recv by auto
  note os = launched_outSet [OF i(1) sp d this]
  have "outSet (sys_gos (coordinatorMoved s (y\<lparr>sys_chan := rest\<rparr>))) rest = outSet (sys_gos y) rest \<union> set xs"
    unfolding os(1) by (rule os(3))
  moreover have "set (st_spawned s) - set (st_spawned (sys_co y)) = set xs" using d sp by auto
  ultimately show ?thesis using recv chan by (simp add: outAfter_def)
qed

lemma goroutineStep_collection:
  assumes inv: "sysInv sub strategy0 y" and i: "i < length (sys_gos y)"
    and st: "goStep (sub_lib sub) (sub_entry sub) (sys_cause y) (sys_gos y ! i) e g"
  shows "systemCollection (goroutineMoved i g e y) = systemCollection y"
proof -
  have wf: "goWF (sys_gos y ! i)" and d: "distinct (map g_idx (sys_gos y))" using inv i by (auto simp: sysInv_def)
  from outSet_update(1) [OF i d goroutineStep_owed [OF wf st refl]]
  show ?thesis by (simp add: systemCollection_def goroutineMoved_def)
qed

lemma sysStep_simulates:
  assumes inv: "simInv sub strategy0 y" and st: "sysStep sub y y'"
  shows "specSteps sub strategy0 (systemCollection y) (systemCollection y')"
proof -
  have i: "sysInv sub strategy0 y" "requirementsOK (sub_sr sub)" "\<forall>n. 0 < sub_elapsed sub n"
    "\<And>e. sys_ctx y = Some e \<Longrightarrow> contextError e" using inv by (auto simp: simInv_def)
  from st show ?thesis
  proof (rule sysStepE)
    fix ev rest
    let ?s = "receiveEvent (sub_sr sub) (sub_elapsed sub) (sub_eligible sub) ev (sys_co y)"
    let ?Out = "outSet (sys_gos y) (sys_chan y)"
    assume chan: "sys_chan y = ev # rest" and y': "y' = coordinatorMoved ?s (y\<lparr>sys_chan := rest\<rparr>)"
    have co: "coInv (accepts sub) (sub_sr sub) (sub_eligible sub) strategy0 ?Out (sys_co y)"
      using i(1) by (simp add: sysInv_def)
    have ev: "evOK (accepts sub) ?Out ev" using i(1) chan by (auto simp: sysInv_def evOK_def eventOK_def)
    obtain xs where "st_spawned ?s = st_spawned (sys_co y) @ xs" using receiveEvent_spawned by blast
    from receive_collection [OF i(1) chan receiveEvent_coInv [OF co i(2,3) ev] this]
    have "outSet (sys_gos y') (sys_chan y') = outAfter ?Out ev (sys_co y) ?s"
      by (simp add: y' coordinatorMoved_def)
    then have "systemCollection y' = collectionOf (outAfter ?Out ev (sys_co y) ?s) ?s"
      by (simp add: systemCollection_def) (simp add: y' coordinatorMoved_def)
    then show ?thesis using receiveEvent_spec [OF co i(2,3) ev] by (simp add: systemCollection_def)
  next
    fix e assume e: "sys_ctx y = Some e" and y': "y' = coordinatorMoved (ctxDone e (sys_co y)) y"
    have "length (sys_gos y) = length (st_spawned (sys_co y))" using i(1) by (metis length_map sysInv_def)
    then have "systemCollection y' = collectionOf (outSet (sys_gos y) (sys_chan y)) (ctxDone e (sys_co y))"
      by (simp add: y' systemCollection_def coordinatorMoved_def)
    then show ?thesis using ctxDone_spec [OF i(4) [OF e]] by (simp add: systemCollection_def)
  next
    fix i e g assume "y' = goroutineMoved i g e y" "i < length (sys_gos y)"
      "goStep (sub_lib sub) (sub_entry sub) (sys_cause y) (sys_gos y ! i) e g"
    then show ?thesis using goroutineStep_collection [OF i(1)] by simp
  qed (simp_all add: systemCollection_def)
qed

interpretation submissionSpec: simulation "sysStep sub" "simInv sub strategy0" "specStep sub strategy0" systemCollection
  for sub strategy0
  by unfold_locales (blast intro: sysStep_simInv sysStep_simulates)+

lemma sysReach_rtranclp: "sysReach sub y y' \<Longrightarrow> (sysStep sub)\<^sup>*\<^sup>* y y'"
  by (induction rule: sysReach.induct) (auto intro: rtranclp.rtrancl_into_rtrancl)

section \<open>The start of a submission\<close>

text \<open>Contacting distinct eligible logs one after the other.\<close>

lemma contact_all:
  assumes "distinct xs" and "set xs \<subseteq> set (sub_eligible sub)"
  shows "specSteps sub strategy0 specStart (specStart\<lparr>cl_contacted := set xs, cl_open := set xs\<rparr>)"
  using assms
proof (induction xs rule: rev_induct)
  case Nil
  then show ?case by (simp add: specStart_def)
next
  case (snoc i xs)
  let ?c = "specStart\<lparr>cl_contacted := set xs, cl_open := set xs\<rparr>"
  have "specStep sub strategy0 ?c (?c\<lparr>cl_contacted := insert i (cl_contacted ?c), cl_open := insert i (cl_open ?c)\<rparr>)"
    by (rule contact) (use snoc.prems in \<open>auto simp: specStart_def\<close>)
  moreover have "specSteps sub strategy0 specStart ?c" using snoc by auto
  ultimately show ?case by (simp add: rtranclp.rtrancl_into_rtrancl)
qed

lemma launchInitialBatch_qs: "st_qs (launchInitialBatch sr elapsed eligible s) = st_qs s"
proof -
  have o: "st_qs (launchInOrder elapsed eligible n is s) = st_qs s" for n "is" s
    by (induction "is" arbitrary: s) auto
  show ?thesis by (simp add: launchInitialBatch_def ensureLogType_def Let_def o split: option.split)
qed

lemma submitStart_early:
  assumes "st_control (submitStart None marshal elapsed sr strategy et) = Returned (Err e)"
  shows "\<exists>m. e = Errorf m"
proof -
  have "st_control (launchInitialBatch sr elapsed (eligibleLogs strategy) (initState strategy)) = Looping"
    by (simp add: launch_control initState_def)
  then show ?thesis using assms
  by (auto simp: submitStart_def loopCheck_def loopExit_def returnTrimmed_def returnWith_def Let_def
      split: option.splits sum.splits if_splits prod.splits)
qed

text \<open>Up to its first receive, submit has rejected the request or contacted the first batch.\<close>

lemma submitSystem_starts:
  assumes fresh: "freshStrategy strategy" and ok: "requirementsOK sr" and pos: "\<forall>n. 0 < elapsed n"
    and sub: "sub = submissionOf sr elapsed strategy lib se"
  shows "specSteps sub strategy specStart (systemCollection (submitSystem marshal sr elapsed strategy se))"
proof -
  let ?s = "submitStart None marshal elapsed sr strategy (se_entryType se)"
  have out: "outSet (map newGoroutine xs) [] = set xs" for xs
    using outSet_launch [of "[]" xs "[]"] by (simp add: outSet_def)
  have sys: "systemCollection (submitSystem marshal sr elapsed strategy se) = collectionOf (set (st_spawned ?s)) ?s"
    by (simp add: systemCollection_def submitSystem_def sysStart_def out)
  show ?thesis
  proof (cases rule: submitStart_cases [OF fresh ok pos, where ctxErr = None and marshal = marshal and
      entryType = "se_entryType se" and acc = "accepts sub", case_names early running])
    case (early e)
    then obtain m where "e = Errorf m" using submitStart_early [of marshal elapsed sr strategy "se_entryType se" e]
      by (auto simp: initState_def)
    then have "collectionOf (set (st_spawned ?s)) ?s = specStart\<lparr>cl_phase := Refused (Errorf m)\<rparr>"
      using early by (simp add: collectionOf_def specStart_def initState_def newQuorumState_def keptOf_def)
    moreover have "specStep sub strategy specStart (specStart\<lparr>cl_phase := Refused (Errorf m)\<rparr>)"
      by (rule reject) (simp_all add: specStart_def)
    ultimately show ?thesis unfolding sys by simp
  next
    case running
    have "st_qs ?s = newQuorumState" using running(3) launchInitialBatch_qs by (simp add: initState_def)
    then have "collectionOf (set (st_spawned ?s)) ?s =
        specStart\<lparr>cl_contacted := set (st_spawned ?s), cl_open := set (st_spawned ?s)\<rparr>"
      using running(2) by (simp add: collectionOf_def specStart_def newQuorumState_def keptOf_def)
    moreover have "distinct (st_spawned ?s)" "set (st_spawned ?s) \<subseteq> set (sub_eligible sub)"
      using coInv_spawned [OF running(1)] by (auto simp: sub submissionOf_def)
    ultimately show ?thesis unfolding sys using contact_all by simp
  qed
qed

section \<open>What the collection guarantees\<close>

text \<open>
  Contacted logs are eligible, outstanding ones are contacted, kept SCTs are accepted ones of distinct
  finished logs, a quorum is met before it is returned, and nothing is outstanding at the end.
\<close>

definition collectionOK :: "submission \<Rightarrow> StrategyMember list \<Rightarrow> collection \<Rightarrow> bool" where
  "collectionOK sub strategy c \<longleftrightarrow>
     cl_contacted c \<subseteq> set (sub_eligible sub) \<and> cl_open c \<subseteq> cl_contacted c \<and>
     distinct (keptLogs (cl_kept c)) \<and> set (keptLogs (cl_kept c)) \<subseteq> cl_contacted c - cl_open c \<and>
     list_all (\<lambda>(i, r, s). accepts sub i r s) (cl_kept c) \<and>
     (case cl_phase c of
        Collecting \<Rightarrow> True
      | Met \<Rightarrow> suffices (sub_sr sub) strategy (keptLogs (cl_kept c))
      | Abandoned e \<Rightarrow> contextError e
      | Completed responses scts \<Rightarrow> cl_open c = {} \<and> suffices (sub_sr sub) strategy (keptLogs (cl_kept c)) \<and>
          int (length (cl_kept c)) = sr_SCTs (sub_sr sub) \<and> responses = map (fst \<circ> snd) (cl_kept c) \<and>
          scts = map (snd \<circ> snd) (cl_kept c)
      | Refused e \<Rightarrow> cl_open c = {}
      | Faulted \<Rightarrow> False)"

lemma specStart_OK: "collectionOK sub strategy specStart"
  by (simp add: collectionOK_def specStart_def keptLogs_def)

lemma subseq_kept:
  assumes "subseq picked kept"
  shows "set (keptLogs picked) \<subseteq> set (keptLogs kept)" and "distinct (keptLogs kept) \<Longrightarrow> distinct (keptLogs picked)"
    and "list_all P kept \<Longrightarrow> list_all P picked"
proof -
  have s: "subseq (keptLogs picked) (keptLogs kept)" unfolding keptLogs_def by (rule subseq_map [OF assms])
  show "set (keptLogs picked) \<subseteq> set (keptLogs kept)" by (rule subseq_set [OF s])
  show "distinct (keptLogs kept) \<Longrightarrow> distinct (keptLogs picked)" using s by (rule distinct_subseq)
  show "list_all P kept \<Longrightarrow> list_all P picked"
    using subseq_set [OF assms] by (auto simp: list_all_iff)
qed

lemma specStep_OK:
  assumes ok: "collectionOK sub strategy c" and st: "specStep sub strategy c c'"
  shows "collectionOK sub strategy c'"
  using st
proof cases
  case (contact i)
  then show ?thesis using ok by (auto simp: collectionOK_def)
next
  case (keep i r s)
  then show ?thesis using ok by (auto simp: collectionOK_def keptLogs_def)
next
  case (discard i)
  then show ?thesis using ok by (auto simp: collectionOK_def split: collectionPhase.splits)
next
  case (answer picked)
  then have "subseq picked (cl_kept c)" by (simp add: chosenFrom_def)
  note sub = subseq_kept [OF this]
  show ?thesis using answer ok sub by (auto simp: collectionOK_def chosenFrom_def)
qed (use ok in \<open>auto simp: collectionOK_def\<close>)

lemma specSteps_OK: "specSteps sub strategy specStart c \<Longrightarrow> collectionOK sub strategy c"
  by (induction rule: rtranclp_induct) (auto intro: specStart_OK specStep_OK)

section \<open>Every submission is a run of the collection\<close>

lemma submission_collection:
  assumes fresh: "freshStrategy strategy" and ok: "requirementsOK sr" and pos: "\<forall>n. 0 < elapsed n"
    and reach: "sysReach (submissionOf sr elapsed strategy lib se) (submitSystem marshal sr elapsed strategy se) y"
  defines "sub \<equiv> submissionOf sr elapsed strategy lib se"
  shows "specSteps sub strategy specStart (systemCollection y)"
    and "sysStep sub y y' \<Longrightarrow> specSteps sub strategy (systemCollection y) (systemCollection y')"
proof -
  let ?y0 = "submitSystem marshal sr elapsed strategy se"
  have run: "(sysStep sub)\<^sup>*\<^sup>* ?y0 y" using sysReach_rtranclp [OF reach] by (simp add: sub_def)
  have start: "specSteps sub strategy specStart (systemCollection ?y0)"
    by (rule submitSystem_starts [OF fresh ok pos]) (simp add: sub_def)
  consider (early) "systemCollection y = systemCollection ?y0" "sysStep sub y y' \<Longrightarrow> systemCollection y' = systemCollection ?y0"
    | (running) "simInv sub strategy ?y0"
  proof (cases rule: submitSystem_cases [OF fresh ok pos, where marshal = marshal and se = se and lib = lib, case_names early running])
    case (early e)
    have st: "systemCollection z = systemCollection ?y0" if "sysReach sub ?y0 z" for z
      using early_stuck [OF that early(2,3)] early by (simp add: systemCollection_def)
    have "sysStep sub y y' \<Longrightarrow> sysReach sub ?y0 y'" using sysReach.step reach by (simp add: sub_def)
    then show thesis using st reach that(1) by (simp add: sub_def)
  next
    case running
    then have "simInv sub strategy ?y0"
      using ok pos by (simp add: simInv_def sub_def submissionOf_def submitSystem_def sysStart_def)
    then show thesis by (rule that(2))
  qed
  then have "specSteps sub strategy (systemCollection ?y0) (systemCollection y) \<and>
      (sysStep sub y y' \<longrightarrow> specSteps sub strategy (systemCollection y) (systemCollection y'))"
  proof cases
    case early
    then show ?thesis by simp
  next
    case running
    note submissionSpec.run_simulates [OF run running] submissionSpec.run_keeps [OF run running]
    then show ?thesis using sysStep_simulates by blast
  qed
  then show "specSteps sub strategy specStart (systemCollection y)"
    "sysStep sub y y' \<Longrightarrow> specSteps sub strategy (systemCollection y) (systemCollection y')"
    using start specSteps_trans by blast+
qed

end
