(* ===== verification/Requirements.thy ===== *)
theory Requirements
  imports Orchestrate_Correct
begin

text \<open>
  submitter/request.go: the base log list and the numbers of SCTs and operators a request needs.
  The log lists are global pointers of package loglists (and ctloglists.CrtshV3Active); which one
  is meant is a value of \<open>baseList\<close>. \<open>oidBIMI\<close> is ctlint's identifier of the extended key
  usage of mark certificates.
\<close>

datatype baseList = UsableTLSLogs | ActiveTLSLogs | TestTLSLogs | UsableBIMILogs | CrtshV3Active

definition isMarkCertificate :: "nat list \<Rightarrow> certificate \<Rightarrow> bool" where
  "isMarkCertificate oidBIMI cert \<longleftrightarrow> list_ex (\<lambda>eku. eku = oidBIMI) (cert_UnknownExtKeyUsage cert)"

definition halfYear :: duration where
  "halfYear = 180 * 24 * hour"

definition baseLogList :: "SubmissionRequest \<Rightarrow> bool \<Rightarrow> baseList" where
  "baseLogList sr isMark =
     (if sr_TestLogs sr then TestTLSLogs
      else if sr_PolicyCompliant sr then (if isMark then UsableBIMILogs else UsableTLSLogs)
      else CrtshV3Active)"

text \<open>The policy step, the bare minimum, and SCTs raised to the number of operators.\<close>

definition enforcePolicy :: "certificate \<Rightarrow> SubmissionRequest \<Rightarrow> SubmissionRequest" where
  "enforcePolicy cert sr =
     (let sr1 = sr\<lparr>sr_PreferAtLeastOneStaticSCT := True\<rparr>;
          sr2 = (if sr_Operators sr1 < 2 then sr1\<lparr>sr_Operators := 2\<rparr> else sr1);
          scts = (if halfYear < timeSub (cert_NotAfter cert) (cert_NotBefore cert) then 2 + 1 else 2)
      in if sr_SCTs sr2 < scts then sr2\<lparr>sr_SCTs := scts\<rparr> else sr2)"

definition enforceMinimum :: "SubmissionRequest \<Rightarrow> SubmissionRequest" where
  "enforceMinimum sr =
     (let sr1 = (if sr_Operators sr < 1 then sr\<lparr>sr_Operators := 1\<rparr> else sr);
          sr2 = (if sr_SCTs sr1 < 1 then sr1\<lparr>sr_SCTs := 1\<rparr> else sr1)
      in if sr_SCTs sr2 < sr_Operators sr2 then sr2\<lparr>sr_SCTs := sr_Operators sr2\<rparr> else sr2)"

definition determineSubmissionRequirements ::
  "nat list \<Rightarrow> certificate \<Rightarrow> SubmissionRequest \<Rightarrow> SubmissionRequest \<times> baseList" where
  "determineSubmissionRequirements oidBIMI cert sr =
     (let isMark = isMarkCertificate oidBIMI cert;
          sr1 = (if sr_PolicyCompliant sr \<and> \<not> isMark then enforcePolicy cert sr else sr)
      in (enforceMinimum sr1, baseLogList sr isMark))"

section \<open>The requirements that come out\<close>

lemma enforcePolicy_simps [simp]:
  "sr_Chain (enforcePolicy cert sr) = sr_Chain sr"
  "sr_PolicyCompliant (enforcePolicy cert sr) = sr_PolicyCompliant sr"
  "sr_TestLogs (enforcePolicy cert sr) = sr_TestLogs sr"
  "sr_PreferAtLeastOneStaticSCT (enforcePolicy cert sr) = True"
  "sr_RequireAtLeastOneRFC6962SCT (enforcePolicy cert sr) = sr_RequireAtLeastOneRFC6962SCT sr"
  "sr_Operators (enforcePolicy cert sr) = max 2 (sr_Operators sr)"
  "sr_SCTs (enforcePolicy cert sr) =
     max (if halfYear < timeSub (cert_NotAfter cert) (cert_NotBefore cert) then 3 else 2) (sr_SCTs sr)"
  by (simp_all add: enforcePolicy_def Let_def)

lemma enforceMinimum_simps [simp]:
  "sr_Chain (enforceMinimum sr) = sr_Chain sr"
  "sr_PolicyCompliant (enforceMinimum sr) = sr_PolicyCompliant sr"
  "sr_TestLogs (enforceMinimum sr) = sr_TestLogs sr"
  "sr_PreferAtLeastOneStaticSCT (enforceMinimum sr) = sr_PreferAtLeastOneStaticSCT sr"
  "sr_RequireAtLeastOneRFC6962SCT (enforceMinimum sr) = sr_RequireAtLeastOneRFC6962SCT sr"
  "sr_Operators (enforceMinimum sr) = max 1 (sr_Operators sr)"
  "sr_SCTs (enforceMinimum sr) = max (max 1 (sr_Operators sr)) (sr_SCTs sr)"
  by (simp_all add: enforceMinimum_def Let_def)

text \<open>Without a conflict between the two log type wishes, the requirements suit trimToQuorum.\<close>

lemma determined_requirementsOK:
  assumes "determineSubmissionRequirements oidBIMI cert sr = (sr', ll)"
  shows "1 \<le> sr_SCTs sr'" and "1 \<le> sr_Operators sr'" and "sr_Operators sr' \<le> sr_SCTs sr'"
    and "sr_SCTs sr \<le> sr_SCTs sr'" and "sr_Operators sr \<le> sr_Operators sr'"
    and "requirementsOK sr' \<longleftrightarrow> \<not> staticConflict sr'"
    and "sr_Chain sr' = sr_Chain sr" and "sr_PolicyCompliant sr' = sr_PolicyCompliant sr" and "sr_TestLogs sr' = sr_TestLogs sr"
  using assms by (auto simp: determineSubmissionRequirements_def Let_def requirementsOK_def split: if_splits)

lemma policy_requirements:
  assumes "determineSubmissionRequirements oidBIMI cert sr = (sr', ll)"
    and "sr_PolicyCompliant sr" and "\<not> isMarkCertificate oidBIMI cert"
  shows "2 \<le> sr_SCTs sr'" and "2 \<le> sr_Operators sr'" and "sr_PreferAtLeastOneStaticSCT sr'"
    and "halfYear < timeSub (cert_NotAfter cert) (cert_NotBefore cert) \<Longrightarrow> 3 \<le> sr_SCTs sr'"
    and "requirementsOK sr'"
    and "ll = (if sr_TestLogs sr then TestTLSLogs else UsableTLSLogs)"
  using assms by (auto simp: determineSubmissionRequirements_def Let_def requirementsOK_def staticConflict_def baseLogList_def)

end
