(* ===== verification/CSV.thy ===== *)
theory CSV
  imports Prelude
begin

text \<open>
  encoding/csv as the code uses it: ReadAll with the options the three readers set (pki/discovery.go,
  monitor/uptimeFetcher.go, cmd/optimalparents) and Write with its defaults. A string is its UTF-8
  bytes; the delimiter is the comma, there are no comments, and the positions in the errors are left
  out.
\<close>

section \<open>Lines\<close>

text \<open>readLine: a line with its newline, which the last one may lack; a carriage return before it goes.\<close>

definition chompCR :: "string \<Rightarrow> string" where
  "chompCR l = (if l \<noteq> [] \<and> last l = CHR 0x0D then butlast l else l)"

lemma length_dropWhile_Cons: "dropWhile P s = x # rest \<Longrightarrow> length rest < length s"
  using length_dropWhile_le [of P s] by simp

function readLines :: "string \<Rightarrow> string list" where
  "readLines s =
     (if s = [] then []
      else case dropWhile (\<lambda>c. c \<noteq> CHR 0x0A) s of
        [] \<Rightarrow> [chompCR s]
      | nl # rest \<Rightarrow> (chompCR (takeWhile (\<lambda>c. c \<noteq> CHR 0x0A) s) @ [nl]) # readLines rest)"
  by pat_completeness auto

termination by (relation "measure length") (auto dest: length_dropWhile_Cons)

declare readLines.simps [simp del]

definition chompNL :: "string \<Rightarrow> string" where
  "chompNL l = (if l \<noteq> [] \<and> last l = CHR 0x0A then butlast l else l)"

text \<open>The runes of unicode.IsSpace, which TrimLeadingSpace drops.\<close>

definition spaceRunes :: "string list" where
  "spaceRunes =
     [[CHR 0x09], [CHR 0x0A], [CHR 0x0B], [CHR 0x0C], [CHR 0x0D], [CHR 0x20], [CHR 0xC2, CHR 0x85],
      [CHR 0xC2, CHR 0xA0], [CHR 0xE1, CHR 0x9A, CHR 0x80], [CHR 0xE2, CHR 0x80, CHR 0x80],
      [CHR 0xE2, CHR 0x80, CHR 0x81], [CHR 0xE2, CHR 0x80, CHR 0x82], [CHR 0xE2, CHR 0x80, CHR 0x83],
      [CHR 0xE2, CHR 0x80, CHR 0x84], [CHR 0xE2, CHR 0x80, CHR 0x85], [CHR 0xE2, CHR 0x80, CHR 0x86],
      [CHR 0xE2, CHR 0x80, CHR 0x87], [CHR 0xE2, CHR 0x80, CHR 0x88], [CHR 0xE2, CHR 0x80, CHR 0x89],
      [CHR 0xE2, CHR 0x80, CHR 0x8A], [CHR 0xE2, CHR 0x80, CHR 0xA8], [CHR 0xE2, CHR 0x80, CHR 0xA9],
      [CHR 0xE2, CHR 0x80, CHR 0xAF], [CHR 0xE2, CHR 0x81, CHR 0x9F], [CHR 0xE3, CHR 0x80, CHR 0x80]]"

definition leadingSpace :: "string \<Rightarrow> nat" where
  "leadingSpace s = (case find (\<lambda>r. prefix r s) spaceRunes of None \<Rightarrow> 0 | Some r \<Rightarrow> length r)"

function trimLeadingSpace :: "string \<Rightarrow> string" where
  "trimLeadingSpace s =
     (if 0 < leadingSpace s \<and> s \<noteq> [] then trimLeadingSpace (drop (leadingSpace s) s) else s)"
  by pat_completeness auto

termination by (relation "measure length") auto

declare trimLeadingSpace.simps [simp del]

section \<open>Reading\<close>

text \<open>
  The options; a positive number of fields per record is enforced, zero takes it from the first
  record, a negative one enforces nothing.
\<close>

record csvReader =
  rd_FieldsPerRecord :: int
  rd_LazyQuotes :: bool
  rd_TrimLeadingSpace :: bool

definition NewReader :: csvReader where
  "NewReader = \<lparr>rd_FieldsPerRecord = 0, rd_LazyQuotes = False, rd_TrimLeadingSpace = False\<rparr>"

definition ErrFieldCount :: go_error where
  "ErrFieldCount = Errorf ''wrong number of fields''"

definition ErrQuote :: go_error where
  "ErrQuote = Errorf (''extraneous or missing '' @ [CHR 0x22] @ '' in quoted-field'')"

definition ErrBareQuote :: go_error where
  "ErrBareQuote = Errorf (''bare '' @ [CHR 0x22] @ '' in non-quoted-field'')"

lemma length_trim: "length (trimLeadingSpace s) \<le> length s"
proof (induction s rule: trimLeadingSpace.induct)
  case (1 s)
  show ?case using 1 by (subst trimLeadingSpace.simps) auto
qed

lemma parse_terminates:
  "dropWhile P (if b then trimLeadingSpace l else l) = c # l' \<Longrightarrow> length l' < length l"
  "(if b then trimLeadingSpace l else l) \<noteq> [] \<Longrightarrow> length (tl (if b then trimLeadingSpace l else l)) < length l"
  using length_trim [of l] length_dropWhile_Cons [of P "if b then trimLeadingSpace l else l" c l']
  by (cases b; cases "trimLeadingSpace l"; cases l; simp)+

text \<open>
  The rest of a line, the lines after it and the fields so far, on entry to a field and within a
  quoted field, of which \<open>buf\<close> has been read; the result is the record and the lines left.
\<close>

function parseField :: "csvReader \<Rightarrow> string \<Rightarrow> string list \<Rightarrow> string list \<Rightarrow> go_error + (string list \<times> string list)"
  and parseQuoted :: "csvReader \<Rightarrow> string \<Rightarrow> string list \<Rightarrow> string list \<Rightarrow> string \<Rightarrow> go_error + (string list \<times> string list)" where
  "parseField rd line0 lines acc =
     (let line = (if rd_TrimLeadingSpace rd then trimLeadingSpace line0 else line0) in
      if line = [] \<or> hd line \<noteq> CHR 0x22 then
        (case dropWhile (\<lambda>c. c \<noteq> CHR 0x2C) line of
           [] \<Rightarrow> if \<not> rd_LazyQuotes rd \<and> CHR 0x22 \<in> set (chompNL line) then Inl ErrBareQuote
                 else Inr (acc @ [chompNL line], lines)
         | comma # line' \<Rightarrow>
             let field = takeWhile (\<lambda>c. c \<noteq> CHR 0x2C) line in
             if \<not> rd_LazyQuotes rd \<and> CHR 0x22 \<in> set field then Inl ErrBareQuote
             else parseField rd line' lines (acc @ [field]))
      else parseQuoted rd (tl line) lines acc [])"
| "parseQuoted rd line lines acc buf =
     (case dropWhile (\<lambda>c. c \<noteq> CHR 0x22) line of
        quote # line' \<Rightarrow>
          let buf' = buf @ takeWhile (\<lambda>c. c \<noteq> CHR 0x22) line in
          if line' \<noteq> [] \<and> hd line' = CHR 0x22 then parseQuoted rd (tl line') lines acc (buf' @ [CHR 0x22])
          else if line' \<noteq> [] \<and> hd line' = CHR 0x2C then parseField rd (tl line') lines (acc @ [buf'])
          else if chompNL line' = [] then Inr (acc @ [buf'], lines)
          else if rd_LazyQuotes rd then parseQuoted rd line' lines acc (buf' @ [CHR 0x22])
          else Inl ErrQuote
      | [] \<Rightarrow>
          if line \<noteq> [] then
            (case lines of
               [] \<Rightarrow> parseQuoted rd [] [] acc (buf @ line)
             | line' # lines' \<Rightarrow> parseQuoted rd line' lines' acc (buf @ line))
          else if \<not> rd_LazyQuotes rd then Inl ErrQuote
          else Inr (acc @ [buf], lines))"
  by pat_completeness auto

termination
proof (relation "measure (\<lambda>x. case x of Inl (rd, line, lines, acc) \<Rightarrow> length line + sum_list (map length lines)
    | Inr (rd, line, lines, acc, buf) \<Rightarrow> length line + sum_list (map length lines))", goal_cases)
  case 1 show ?case by simp
next
  case 2 then show ?case using parse_terminates(1) by simp
next
  case 3 then show ?case using parse_terminates(2) by simp
qed (auto dest: length_dropWhile_Cons)

declare parseField.simps [simp del] parseQuoted.simps [simp del]

text \<open>ReadAll: blank lines are skipped, and the first error ends it. No record leaves more lines than it found.\<close>

lemma parse_lines:
  "parseField rd line lines acc = Inr (rec, lines') \<Longrightarrow> length lines' \<le> length lines"
  "parseQuoted rd line lines acc buf = Inr (rec, lines') \<Longrightarrow> length lines' \<le> length lines"
proof (induction rd line lines acc and rd line lines acc buf rule: parseField_parseQuoted.induct)
  case (1 rd line0 lines acc)
  let ?l = "if rd_TrimLeadingSpace rd then trimLeadingSpace line0 else line0"
  from "1.prems" show ?case
    using "1.IH"(1) [OF refl _ _ refl] "1.IH"(2) [OF refl]
    by (subst (asm) parseField.simps) (auto simp: Let_def split: if_splits list.splits)
next
  case (2 rd line lines acc buf)
  from "2.prems" show ?case
    using "2.IH"(1,2) "2.IH"(3-5) [OF _ refl]
    by (subst (asm) parseQuoted.simps) (force simp: Let_def split: if_splits list.splits)
qed

function readRecords :: "csvReader \<Rightarrow> int \<Rightarrow> string list \<Rightarrow> go_error + string list list" where
  "readRecords rd n [] = Inr []"
| "readRecords rd n (line # lines) =
     (if chompNL line = [] then readRecords rd n lines
      else case parseField rd line lines [] of
        Inl e \<Rightarrow> Inl e
      | Inr (rec, lines') \<Rightarrow>
          if 0 < n \<and> int (length rec) \<noteq> n then Inl ErrFieldCount
          else (case readRecords rd (if n = 0 then int (length rec) else n) lines' of
                  Inl e \<Rightarrow> Inl e
                | Inr records \<Rightarrow> Inr (rec # records)))"
  by pat_completeness auto

termination by (relation "measure (\<lambda>(rd, n, lines). length lines)") (auto dest: parse_lines(1))

definition ReadAll :: "csvReader \<Rightarrow> string \<Rightarrow> go_error + string list list" where
  "ReadAll rd s = readRecords rd (rd_FieldsPerRecord rd) (readLines s)"

section \<open>Writing\<close>

definition fieldNeedsQuotes :: "string \<Rightarrow> bool" where
  "fieldNeedsQuotes f \<longleftrightarrow>
     f \<noteq> [] \<and>
     (f = [CHR 0x5C, CHR 0x2E] \<or> list_ex (\<lambda>c. c = CHR 0x0A \<or> c = CHR 0x0D \<or> c = CHR 0x22 \<or> c = CHR 0x2C) f \<or> 0 < leadingSpace f)"

definition quoteField :: "string \<Rightarrow> string" where
  "quoteField f = concat (map (\<lambda>c. if c = CHR 0x22 then [CHR 0x22, CHR 0x22] else [c]) f)"

definition writeField :: "string \<Rightarrow> string" where
  "writeField f = (if fieldNeedsQuotes f then CHR 0x22 # quoteField f @ [CHR 0x22] else f)"

fun writeFields :: "string list \<Rightarrow> string" where
  "writeFields [] = []"
| "writeFields [f] = writeField f"
| "writeFields (f # fs) = writeField f @ CHR 0x2C # writeFields fs"

definition writeRecord :: "string list \<Rightarrow> string" where
  "writeRecord rec = writeFields rec @ [CHR 0x0A]"

definition WriteAll :: "string list list \<Rightarrow> string" where
  "WriteAll records = concat (map writeRecord records)"

section \<open>What is written is read again\<close>

text \<open>The line that a text starts with, and the lines after it.\<close>

definition lineOf :: "string \<Rightarrow> string \<times> string list" where
  "lineOf t = (case readLines t of [] \<Rightarrow> ([], []) | l # ls \<Rightarrow> (l, ls))"

lemma readLines_simps:
  "readLines [] = []"
  "readLines (CHR 0x0A # t) = [CHR 0x0A] # readLines t"
  by (subst readLines.simps; simp add: chompCR_def)+

lemma readLines_line: "t \<noteq> [] \<Longrightarrow> readLines t = fst (lineOf t) # snd (lineOf t)"
proof -
  assume "t \<noteq> []"
  then have "readLines t \<noteq> []" by (subst readLines.simps) (simp split: list.split)
  then show ?thesis by (cases "readLines t") (simp_all add: lineOf_def)
qed

lemma lineOf_newline [simp]: "lineOf (CHR 0x0A # t) = ([CHR 0x0A], readLines t)"
  by (simp add: lineOf_def readLines_simps(2))

lemma chompCR_Cons: "c \<noteq> CHR 0x0D \<Longrightarrow> chompCR (c # l) = c # chompCR l"
  by (simp add: chompCR_def)

lemma lineOf_char:
  assumes "c \<noteq> CHR 0x0A" and "c \<noteq> CHR 0x0D" and "t \<noteq> []"
  shows "lineOf (c # t) = (c # fst (lineOf t), snd (lineOf t))"
proof -
  have "readLines t = (case dropWhile (\<lambda>c. c \<noteq> CHR 0x0A) t of [] \<Rightarrow> [chompCR t]
      | nl # rest \<Rightarrow> (chompCR (takeWhile (\<lambda>c. c \<noteq> CHR 0x0A) t) @ [nl]) # readLines rest)"
    using assms(3) by (subst readLines.simps) simp
  moreover have "readLines (c # t) = (case dropWhile (\<lambda>c. c \<noteq> CHR 0x0A) t of [] \<Rightarrow> [c # chompCR t]
      | nl # rest \<Rightarrow> (c # chompCR (takeWhile (\<lambda>c. c \<noteq> CHR 0x0A) t) @ [nl]) # readLines rest)"
    using assms(1,2) by (cases "dropWhile (\<lambda>c. c \<noteq> CHR 0x0A) t")
      (simp_all add: chompCR_Cons readLines.simps [of "c # t"] del: dropWhile_eq_Nil_conv)
  ultimately show ?thesis
    by (cases "dropWhile (\<lambda>c. c \<noteq> CHR 0x0A) t") (simp_all add: lineOf_def del: dropWhile_eq_Nil_conv)
qed

lemma lineOf_nonempty: "t \<noteq> [] \<Longrightarrow> hd t \<noteq> CHR 0x0D \<Longrightarrow> fst (lineOf t) \<noteq> []"
proof (cases t)
  case (Cons c u)
  assume "hd t \<noteq> CHR 0x0D"
  then show ?thesis
  proof (cases "c = CHR 0x0A \<or> u \<noteq> []")
    case True
    then show ?thesis using Cons \<open>hd t \<noteq> CHR 0x0D\<close> by (cases "c = CHR 0x0A") (simp_all add: lineOf_char)
  next
    case False
    then show ?thesis using Cons \<open>hd t \<noteq> CHR 0x0D\<close>
      by (simp add: lineOf_def readLines.simps [of "[c]"] chompCR_def)
  qed
qed simp

lemma lineOf_append:
  "CHR 0x0A \<notin> set f \<Longrightarrow> CHR 0x0D \<notin> set f \<Longrightarrow> t \<noteq> [] \<Longrightarrow> lineOf (f @ t) = (f @ fst (lineOf t), snd (lineOf t))"
  by (induction f) (auto simp: lineOf_char)

text \<open>The two functions on the text that is left.\<close>

definition fieldAt :: "csvReader \<Rightarrow> string \<Rightarrow> string list \<Rightarrow> go_error + (string list \<times> string list)" where
  "fieldAt rd t acc = parseField rd (fst (lineOf t)) (snd (lineOf t)) acc"

definition quotedAt :: "csvReader \<Rightarrow> string \<Rightarrow> string list \<Rightarrow> string \<Rightarrow> go_error + (string list \<times> string list)" where
  "quotedAt rd t acc buf = parseQuoted rd (fst (lineOf t)) (snd (lineOf t)) acc buf"

lemma quotedAt_char:
  assumes "c \<noteq> CHR 0x22" and "c \<noteq> CHR 0x0D" and t: "t \<noteq> []" "hd t \<noteq> CHR 0x0D"
  shows "quotedAt rd (c # t) acc buf = quotedAt rd t acc (buf @ [c])"
proof (cases "c = CHR 0x0A")
  case True
  then show ?thesis using t
    by (simp add: quotedAt_def parseQuoted.simps [of rd "[CHR 0x0A]"] readLines_line)
next
  case False
  then show ?thesis using assms lineOf_nonempty [OF t]
    by (cases "dropWhile (\<lambda>c. c \<noteq> CHR 0x22) (fst (lineOf t))"; cases "snd (lineOf t)")
      (simp_all add: quotedAt_def lineOf_char parseQuoted.simps [of rd "c # l" for l] parseQuoted.simps [of rd "fst (lineOf t)"]
        del: dropWhile_eq_Nil_conv)
qed

lemma quotedAt_quote:
  "t \<noteq> [] \<Longrightarrow> quotedAt rd (CHR 0x22 # CHR 0x22 # t) acc buf = quotedAt rd t acc (buf @ [CHR 0x22])"
  "t \<noteq> [] \<Longrightarrow> quotedAt rd (CHR 0x22 # CHR 0x2C # t) acc buf = fieldAt rd t (acc @ [buf])"
  "quotedAt rd (CHR 0x22 # CHR 0x0A # t) acc buf = Inr (acc @ [buf], readLines t)"
  by (simp_all add: quotedAt_def fieldAt_def lineOf_char parseQuoted.simps [of rd "CHR 0x22 # l" for l] chompNL_def)

lemma quotedAt_field:
  "CHR 0x0D \<notin> set f \<Longrightarrow> quotedAt rd (quoteField f @ CHR 0x22 # t) acc buf = quotedAt rd (CHR 0x22 # t) acc (buf @ f)"
proof (induction f arbitrary: buf)
  case (Cons c f)
  have "hd (quoteField f @ CHR 0x22 # t) \<noteq> CHR 0x0D" using Cons.prems by (cases f) (auto simp: quoteField_def)
  then show ?case using Cons by (cases "c = CHR 0x22") (auto simp: quoteField_def quotedAt_char quotedAt_quote)
qed (simp add: quoteField_def)

lemma plain_field: "\<not> fieldNeedsQuotes f \<Longrightarrow> CHR 0x0A \<notin> set f \<and> CHR 0x0D \<notin> set f \<and> CHR 0x22 \<notin> set f \<and> CHR 0x2C \<notin> set f"
  by (auto simp: fieldNeedsQuotes_def list_ex_iff)

lemma takeWhile_end: "x \<notin> set f \<Longrightarrow> takeWhile (\<lambda>c. c \<noteq> x) (f @ x # t) = f \<and> dropWhile (\<lambda>c. c \<noteq> x) (f @ x # t) = x # t"
  by (induction f) auto

lemma fieldAt_write:
  assumes rd: "\<not> rd_TrimLeadingSpace rd" and f: "CHR 0x0D \<notin> set f"
  shows "t \<noteq> [] \<Longrightarrow> fieldAt rd (writeField f @ CHR 0x2C # t) acc = fieldAt rd t (acc @ [f])"
    and "fieldAt rd (writeField f @ CHR 0x0A # t) acc = Inr (acc @ [f], readLines t)"
proof -
  have quoted: "fieldAt rd (CHR 0x22 # quoteField f @ CHR 0x22 # u) acc = quotedAt rd (CHR 0x22 # u) acc f" for u
    using rd quotedAt_field [OF f, of rd u acc "[]"]
    by (simp add: fieldAt_def lineOf_char parseField.simps [of rd "CHR 0x22 # l" for l] flip: quotedAt_def)
  have hd: "f = [] \<or> hd f \<noteq> CHR 0x22" if "CHR 0x22 \<notin> set f" using that by (cases f) auto
  show "fieldAt rd (writeField f @ CHR 0x2C # t) acc = fieldAt rd t (acc @ [f])" if "t \<noteq> []"
  proof (cases "fieldNeedsQuotes f")
    case False
    note p = plain_field [OF False]
    have "hd (f @ CHR 0x2C # l) \<noteq> CHR 0x22" for l using hd p by (cases f) auto
    then show ?thesis using rd that p False
      by (simp add: fieldAt_def writeField_def lineOf_append lineOf_char parseField.simps [of rd "f @ CHR 0x2C # l" for l] takeWhile_end)
  qed (use quoted that in \<open>simp add: writeField_def quotedAt_quote\<close>)
  show "fieldAt rd (writeField f @ CHR 0x0A # t) acc = Inr (acc @ [f], readLines t)"
  proof (cases "fieldNeedsQuotes f")
    case False
    note p = plain_field [OF False]
    have "hd (f @ [CHR 0x0A]) \<noteq> CHR 0x22" using hd p by (cases f) auto
    moreover have "dropWhile (\<lambda>c. c \<noteq> CHR 0x2C) (f @ [CHR 0x0A]) = []" using p by (subst dropWhile_eq_Nil_conv) auto
    ultimately show ?thesis using rd p False
      by (simp add: fieldAt_def writeField_def lineOf_append parseField.simps [of rd "f @ [CHR 0x0A]"] chompNL_def)
  qed (use quoted in \<open>simp add: writeField_def quotedAt_quote\<close>)
qed

lemma fieldAt_writeFields:
  assumes rd: "\<not> rd_TrimLeadingSpace rd"
  shows "rec \<noteq> [] \<Longrightarrow> \<forall>f \<in> set rec. CHR 0x0D \<notin> set f \<Longrightarrow> fieldAt rd (writeFields rec @ CHR 0x0A # t) acc = Inr (acc @ rec, readLines t)"
  by (induction rec arbitrary: acc rule: writeFields.induct) (simp_all add: fieldAt_write [OF rd])

text \<open>The first line of a record is not blank, as long as it is not one empty field.\<close>

lemma writeFields_starts:
  assumes "rec \<noteq> []" and "rec \<noteq> [[]]"
  obtains c u where "writeFields rec = c # u" "c \<noteq> CHR 0x0A" "c \<noteq> CHR 0x0D"
proof -
  have field: "\<exists>c u. writeField f = c # u \<and> c \<noteq> CHR 0x0A \<and> c \<noteq> CHR 0x0D" if "f \<noteq> []" for f
    using that plain_field [of f] by (cases f) (auto simp: writeField_def)
  from assms show ?thesis
  proof (cases rec rule: writeFields.cases)
    case (2 f)
    then show ?thesis using field [of f] assms(2) that by auto
  next
    case (3 f g gs)
    show ?thesis
    proof (cases "f = []")
      case True
      then show ?thesis using 3 that by (simp add: writeField_def fieldNeedsQuotes_def)
    next
      case False
      then obtain c u where "writeField f = c # u" "c \<noteq> CHR 0x0A" "c \<noteq> CHR 0x0D" using field by blast
      then show ?thesis using 3 that by simp
    qed
  qed simp
qed

definition writable :: "nat \<Rightarrow> string list \<Rightarrow> bool" where
  "writable n rec \<longleftrightarrow> length rec = n \<and> rec \<noteq> [] \<and> rec \<noteq> [[]] \<and> list_all (\<lambda>f. CHR 0x0D \<notin> set f) rec"

lemma readRecords_write:
  assumes rd: "\<not> rd_TrimLeadingSpace rd"
  shows "list_all (writable n) records \<Longrightarrow> m \<le> 0 \<or> m = int n \<Longrightarrow> readRecords rd m (readLines (WriteAll records)) = Inr records"
proof (induction records arbitrary: m)
  case (Cons rec records)
  let ?t = "writeFields rec @ CHR 0x0A # WriteAll records"
  from Cons.prems have rec: "length rec = n" "rec \<noteq> []" "rec \<noteq> [[]]" "\<forall>f \<in> set rec. CHR 0x0D \<notin> set f"
    by (simp_all add: writable_def list_all_iff)
  obtain c u where cu: "writeFields rec = c # u" "c \<noteq> CHR 0x0A" "c \<noteq> CHR 0x0D" by (rule writeFields_starts [OF rec(2,3)])
  have "chompNL (fst (lineOf ?t)) \<noteq> []" using cu by (simp add: lineOf_char chompNL_def)
  moreover have "parseField rd (fst (lineOf ?t)) (snd (lineOf ?t)) [] = Inr (rec, readLines (WriteAll records))"
    using fieldAt_writeFields [OF rd rec(2,4), of "WriteAll records" "[]"] by (simp add: fieldAt_def)
  moreover have "WriteAll (rec # records) = ?t" by (simp add: WriteAll_def writeRecord_def)
  moreover have "?t \<noteq> []" by simp
  moreover have "readRecords rd k (readLines (WriteAll records)) = Inr records" if "k \<le> 0 \<or> k = int n" for k
    by (rule Cons.IH) (use Cons.prems that in auto)
  ultimately show ?case using Cons.prems(2) rec(1) by (auto simp: readLines_line)
qed (simp add: WriteAll_def readLines_simps(1))

lemma ReadAll_WriteAll:
  "list_all (writable n) records \<Longrightarrow> ReadAll NewReader (WriteAll records) = Inr records"
  unfolding ReadAll_def by (rule readRecords_write) (simp_all add: NewReader_def)

text \<open>A text without a record consists of blank lines; and every record has the number of fields that is asked for.\<close>

definition blankText :: "string \<Rightarrow> bool" where
  "blankText s \<longleftrightarrow> list_all (\<lambda>l. chompNL l = []) (readLines s)"

lemma ReadAll_none: "ReadAll rd s = Inr [] \<longleftrightarrow> blankText s"
proof -
  have "readRecords rd n ls = Inr [] \<longleftrightarrow> list_all (\<lambda>l. chompNL l = []) ls" for n ls
    by (induction rd n ls rule: readRecords.induct) (auto split: sum.split)
  then show ?thesis by (simp add: ReadAll_def blankText_def)
qed

lemma ReadAll_fields:
  assumes "ReadAll rd s = Inr records" and "rec \<in> set records" and "0 < rd_FieldsPerRecord rd"
  shows "int (length rec) = rd_FieldsPerRecord rd"
proof -
  have "0 < n \<Longrightarrow> readRecords rd n ls = Inr rs \<Longrightarrow> rec \<in> set rs \<Longrightarrow> int (length rec) = n" for n ls rs
    by (induction rd n ls arbitrary: rs rule: readRecords.induct) (auto split: sum.splits if_splits)
  then show ?thesis using assms by (auto simp: ReadAll_def)
qed

end
