(* ===== verification/Discovery.thy ===== *)
theory Discovery
  imports Requirements CSV
begin

text \<open>
  pki/discovery.go: the embedded table of optimal parents and the extension of a partial chain.
  A row gives, per log list context, the SHA-256 hash of the parent to use for an Authority Key
  Identifier; the zero hash means none. SHA-256, X.509 parsing and CCADB's certificates are
  parameters. A key identifier that is absent (nil) is the empty byte string.
\<close>

section \<open>The table\<close>

definition zeroHash :: bytes where
  "zeroHash = replicate 32 0"

text \<open>The columns of the table, in order, and the column of a base log list.\<close>

datatype parentContext = colUsableTLS | colActiveTLS | colTestTLS | colUsableBIMI

record parentHashes =
  ph_UsableTLS :: bytes
  ph_ActiveTLS :: bytes
  ph_TestTLS :: bytes
  ph_UsableBIMI :: bytes

fun parentFor :: "parentContext \<Rightarrow> parentHashes \<Rightarrow> bytes" where
  "parentFor colUsableTLS p = ph_UsableTLS p"
| "parentFor colActiveTLS p = ph_ActiveTLS p"
| "parentFor colTestTLS p = ph_TestTLS p"
| "parentFor colUsableBIMI p = ph_UsableBIMI p"

fun contextIndex :: "baseList \<Rightarrow> parentContext" where
  "contextIndex UsableTLSLogs = colUsableTLS"
| "contextIndex TestTLSLogs = colTestTLS"
| "contextIndex UsableBIMILogs = colUsableBIMI"
| "contextIndex _ = colActiveTLS"

text \<open>A column that is empty, not hexadecimal or not 32 bytes long leaves the zero hash.\<close>

definition columnHash :: "string \<Rightarrow> bytes" where
  "columnHash s =
     (if s = [] then zeroHash
      else case hexDecode s of
        None \<Rightarrow> zeroHash
      | Some h \<Rightarrow> if length h \<noteq> 32 then zeroHash else h)"

definition parentRow :: "string list \<Rightarrow> (string \<times> parentHashes) option" where
  "parentRow rec =
     (if length rec < 1 + 4 then None
      else Some (toUpper (rec ! 0),
        \<lparr>ph_UsableTLS = columnHash (rec ! 1), ph_ActiveTLS = columnHash (rec ! 2),
         ph_TestTLS = columnHash (rec ! 3), ph_UsableBIMI = columnHash (rec ! 4)\<rparr>))"

text \<open>
  init: the rows of the embedded file after the header, a later row of the same key replacing an
  earlier one. A file that is absent or no CSV leaves the table empty. The rows are kept as a list,
  latest first.
\<close>

type_synonym parentTable = "(string \<times> parentHashes) list"

definition loadOptimalParents :: "go_error + string \<Rightarrow> parentTable" where
  "loadOptimalParents readFile =
     (case readFile of
        Inl e \<Rightarrow> []
      | Inr text \<Rightarrow>
          (case ReadAll NewReader text of
             Inl e \<Rightarrow> []
           | Inr [] \<Rightarrow> []
           | Inr (header # records) \<Rightarrow> rev (List.map_filter parentRow records)))"

section \<open>Extending a chain\<close>

record discoveryLib =
  dl_sha256 :: "bytes \<Rightarrow> bytes"
  dl_parse :: "bytes \<Rightarrow> certificate option"
  dl_caCertificate :: "bytes \<Rightarrow> bytes option"
  dl_optimalParent :: parentTable

definition isSelfSignedCert :: "certificate \<Rightarrow> bool" where
  "isSelfSignedCert cert \<longleftrightarrow>
     (if cert_AuthorityKeyId cert \<noteq> [] \<and> cert_SubjectKeyId cert \<noteq> []
      then cert_AuthorityKeyId cert = cert_SubjectKeyId cert
      else cert_RawIssuer cert = cert_RawSubject cert)"

text \<open>The parent the loop would append for a key identifier: its hash and its parsed DER.\<close>

definition nextParent ::
  "discoveryLib \<Rightarrow> parentContext \<Rightarrow> bytes set \<Rightarrow> string \<Rightarrow> (bytes \<times> bytes \<times> certificate) option" where
  "nextParent lib ctxIdx seen aki =
     (case map_of (dl_optimalParent lib) aki of
        None \<Rightarrow> None
      | Some parents \<Rightarrow>
          let parentHash = parentFor ctxIdx parents in
          if parentHash = zeroHash then None
          else if parentHash \<in> seen then None
          else (case dl_caCertificate lib parentHash of
                  None \<Rightarrow> None
                | Some parentDER \<Rightarrow>
                    (case dl_parse lib parentDER of
                       None \<Rightarrow> None
                     | Some parentCert \<Rightarrow>
                         if isSelfSignedCert parentCert then None
                         else Some (parentHash, parentDER, parentCert))))"

text \<open>Every hash the table can give; each round uses up a new one, so the loop ends.\<close>

definition tableHashes :: "parentTable \<Rightarrow> parentContext \<Rightarrow> bytes set" where
  "tableHashes table ctxIdx = (\<lambda>(aki, p). parentFor ctxIdx p) ` set table"

lemma nextParent_hash:
  "nextParent lib ctxIdx seen aki = Some (h, der, cert) \<Longrightarrow>
     h \<in> tableHashes (dl_optimalParent lib) ctxIdx \<and> h \<notin> seen \<and> dl_caCertificate lib h = Some der \<and>
     dl_parse lib der = Some cert \<and> \<not> isSelfSignedCert cert"
  by (force simp: nextParent_def tableHashes_def Let_def dest: map_of_SomeD split: option.splits if_splits)

function extendChain ::
  "discoveryLib \<Rightarrow> parentContext \<Rightarrow> bytes set \<Rightarrow> string \<Rightarrow> bytes list \<Rightarrow> bytes list" where
  "extendChain lib ctxIdx seen aki chain =
     (case nextParent lib ctxIdx seen aki of
        None \<Rightarrow> chain
      | Some (parentHash, parentDER, parentCert) \<Rightarrow>
          let aki' = hexUpper (cert_AuthorityKeyId parentCert) in
          if aki' = [] then chain @ [parentDER]
          else extendChain lib ctxIdx (insert parentHash seen) aki' (chain @ [parentDER]))"
  by pat_completeness auto
termination
proof (relation "measure (\<lambda>(lib, ctxIdx, seen, aki, chain). card (tableHashes (dl_optimalParent lib) ctxIdx - seen))", simp)
  fix lib ctxIdx seen aki chain r h rc der cert aki'
  assume "nextParent lib ctxIdx seen aki = Some r" "(h, rc) = r" "(der, cert) = rc"
  then have "h \<in> tableHashes (dl_optimalParent lib) ctxIdx - seen" using nextParent_hash by fastforce
  moreover have "finite (tableHashes (dl_optimalParent lib) ctxIdx - seen)" by (simp add: tableHashes_def)
  moreover have "tableHashes (dl_optimalParent lib) ctxIdx - insert h seen =
      tableHashes (dl_optimalParent lib) ctxIdx - seen - {h}" by blast
  ultimately have "card (tableHashes (dl_optimalParent lib) ctxIdx - insert h seen) <
      card (tableHashes (dl_optimalParent lib) ctxIdx - seen)" by (metis card_Diff1_less)
  then show "((lib, ctxIdx, insert h seen, aki', chain @ [der]), lib, ctxIdx, seen, aki, chain)
      \<in> measure (\<lambda>(lib, ctxIdx, seen, aki, chain). card (tableHashes (dl_optimalParent lib) ctxIdx - seen))"
    by simp
qed

declare extendChain.simps [simp del]

text \<open>DiscoverChain on a chain that is not empty (it indexes the last certificate); None is nil.\<close>

definition DiscoverChain :: "discoveryLib \<Rightarrow> bytes list \<Rightarrow> baseList \<Rightarrow> bytes list option outcome" where
  "DiscoverChain lib partialChain ll =
     (if partialChain = [] then Panic
      else case dl_parse lib (last partialChain) of
        None \<Rightarrow> Ok None
      | Some lastCert \<Rightarrow>
          let seen = dl_sha256 lib ` set partialChain;
              aki = hexUpper (cert_AuthorityKeyId lastCert);
              chain = extendChain lib (contextIndex ll) seen aki partialChain
          in if length partialChain < length chain then Ok (Some chain) else Ok None)"

section \<open>What is discovered\<close>

text \<open>A certificate links to its parent when the parent is the table's choice for its key identifier.\<close>

definition optimalLink :: "discoveryLib \<Rightarrow> parentContext \<Rightarrow> string \<Rightarrow> bytes \<Rightarrow> bool" where
  "optimalLink lib ctxIdx aki der \<longleftrightarrow>
     (\<exists>p cert. map_of (dl_optimalParent lib) aki = Some p \<and> parentFor ctxIdx p \<noteq> zeroHash \<and>
        dl_caCertificate lib (parentFor ctxIdx p) = Some der \<and>
        dl_parse lib der = Some cert \<and> \<not> isSelfSignedCert cert)"

fun linked :: "discoveryLib \<Rightarrow> parentContext \<Rightarrow> string \<Rightarrow> bytes list \<Rightarrow> bool" where
  "linked lib ctxIdx aki [] \<longleftrightarrow> True"
| "linked lib ctxIdx aki (der # ders) \<longleftrightarrow>
     optimalLink lib ctxIdx aki der \<and>
     (\<exists>cert. dl_parse lib der = Some cert \<and> linked lib ctxIdx (hexUpper (cert_AuthorityKeyId cert)) ders)"

lemma nextParent_link:
  "nextParent lib ctxIdx seen aki = Some (h, der, cert) \<Longrightarrow> optimalLink lib ctxIdx aki der \<and> dl_parse lib der = Some cert"
  by (auto simp: nextParent_def optimalLink_def Let_def split: option.splits if_splits)

lemma extendChain_spec:
  "\<exists>more. extendChain lib ctxIdx seen aki chain = chain @ more \<and> linked lib ctxIdx aki more \<and>
     (\<exists>hs. distinct hs \<and> set hs \<inter> seen = {} \<and> set hs \<subseteq> tableHashes (dl_optimalParent lib) ctxIdx \<and>
        map (dl_caCertificate lib) hs = map Some more)"
proof (induction lib ctxIdx seen aki chain rule: extendChain.induct)
  case (1 lib ctxIdx seen aki chain)
  show ?case
  proof (cases "nextParent lib ctxIdx seen aki")
    case None
    then show ?thesis by (auto simp: extendChain.simps [of lib ctxIdx seen aki chain] intro!: exI [of _ "[]"])
  next
    case (Some r)
    obtain h der cert where r: "r = (h, der, cert)" by (cases r) auto
    note link = nextParent_link [OF Some [unfolded r]] and hash = nextParent_hash [OF Some [unfolded r]]
    let ?aki = "hexUpper (cert_AuthorityKeyId cert)"
    show ?thesis
    proof (cases "?aki = []")
      case True
      then have "extendChain lib ctxIdx seen aki chain = chain @ [der]"
        using Some r by (simp add: extendChain.simps [of lib ctxIdx seen aki chain] Let_def)
      moreover have "linked lib ctxIdx aki [der]" using link by simp
      moreover have "distinct [h] \<and> set [h] \<inter> seen = {} \<and> set [h] \<subseteq> tableHashes (dl_optimalParent lib) ctxIdx \<and>
          map (dl_caCertificate lib) [h] = map Some [der]" using hash by simp
      ultimately show ?thesis by blast
    next
      case False
      have eq: "extendChain lib ctxIdx seen aki chain = extendChain lib ctxIdx (insert h seen) ?aki (chain @ [der])"
        using Some r False by (simp add: extendChain.simps [of lib ctxIdx seen aki chain] Let_def)
      obtain more hs where IH: "extendChain lib ctxIdx (insert h seen) ?aki (chain @ [der]) = (chain @ [der]) @ more"
        "linked lib ctxIdx ?aki more" "distinct hs" "set hs \<inter> insert h seen = {}"
        "set hs \<subseteq> tableHashes (dl_optimalParent lib) ctxIdx" "map (dl_caCertificate lib) hs = map Some more"
        using "1.IH" [OF Some r [symmetric] refl refl False] by blast
      have "linked lib ctxIdx aki (der # more)" using link IH(2) by auto
      moreover have "distinct (h # hs) \<and> set (h # hs) \<inter> seen = {} \<and>
          set (h # hs) \<subseteq> tableHashes (dl_optimalParent lib) ctxIdx \<and>
          map (dl_caCertificate lib) (h # hs) = map Some (der # more)" using IH(3-6) hash by auto
      moreover have "extendChain lib ctxIdx seen aki chain = chain @ der # more" using eq IH(1) by simp
      ultimately show ?thesis by blast
    qed
  qed
qed

text \<open>Hexadecimal key identifiers in the table's upper case decode to exactly the bytes they were made from.\<close>

theorem hex_round_trip: "hexDecode (hexUpper bs) = Some bs \<and> hexDecode (hexEncode bs) = Some bs"
  by (simp add: hexDecode_hexUpper hexDecode_hexEncode)

text \<open>
  C34: DiscoverChain never drops or changes a submitted certificate: it appends at least one or
  returns nil. Each appended certificate is the table's optimal parent for the Authority Key
  Identifier of the one before it, is not self-signed, and none is appended twice or was already in the
  submitted chain; so no more are appended than the table has hashes.
\<close>

theorem discovered_chain:
  assumes "DiscoverChain lib partialChain ll = Ok (Some chain)"
  shows "\<exists>lastCert more hs. dl_parse lib (last partialChain) = Some lastCert \<and> chain = partialChain @ more \<and> more \<noteq> [] \<and>
    linked lib (contextIndex ll) (hexUpper (cert_AuthorityKeyId lastCert)) more \<and>
    distinct hs \<and> set hs \<inter> dl_sha256 lib ` set partialChain = {} \<and> map (dl_caCertificate lib) hs = map Some more \<and>
    length more \<le> card (tableHashes (dl_optimalParent lib) (contextIndex ll))"
proof -
  obtain lastCert where l: "dl_parse lib (last partialChain) = Some lastCert"
    using assms by (auto simp: DiscoverChain_def split: if_splits option.splits)
  let ?seen = "dl_sha256 lib ` set partialChain" and ?aki = "hexUpper (cert_AuthorityKeyId lastCert)"
  have c: "chain = extendChain lib (contextIndex ll) ?seen ?aki partialChain" "length partialChain < length chain"
    using assms l by (auto simp: DiscoverChain_def Let_def split: if_splits)
  obtain more hs where m: "chain = partialChain @ more" "linked lib (contextIndex ll) ?aki more" "distinct hs"
    "set hs \<inter> ?seen = {}" "set hs \<subseteq> tableHashes (dl_optimalParent lib) (contextIndex ll)"
    "map (dl_caCertificate lib) hs = map Some more"
    using extendChain_spec [of lib "contextIndex ll" ?seen ?aki partialChain] c(1) by blast
  have "length more = card (set hs)" using m(3,6) by (metis distinct_card length_map)
  also have "\<dots> \<le> card (tableHashes (dl_optimalParent lib) (contextIndex ll))"
    by (rule card_mono [OF _ m(5)]) (simp add: tableHashes_def)
  finally have "length more \<le> card (tableHashes (dl_optimalParent lib) (contextIndex ll))" .
  moreover have "more \<noteq> []" using c(2) m(1) by auto
  ultimately show ?thesis using l m by blast
qed

text \<open>
  A leaf issued by key [11], whose certificate is issued by key [12], whose certificate names a
  parent the table does not know. A certificate is its subject and issuer keys.
\<close>

definition exParse :: "bytes \<Rightarrow> certificate option" where
  "exParse der =
     (if length der \<noteq> 2 then None
      else Some \<lparr>cert_Raw = der, cert_RawIssuer = [der ! 1], cert_RawSubject = [der ! 0], cert_RawSubjectPublicKeyInfo = [],
        cert_AuthorityKeyId = [der ! 1], cert_SubjectKeyId = [der ! 0], cert_NotBefore = 0, cert_NotAfter = 0,
        cert_IsPrecertificate = False, cert_UnknownExtKeyUsage = []\<rparr>)"

definition exDiscovery :: discoveryLib where
  "exDiscovery =
     \<lparr>dl_sha256 = (\<lambda>b. b), dl_parse = exParse,
      dl_caCertificate = (\<lambda>h. if h = replicate 32 1 then Some [11, 12] else if h = replicate 32 2 then Some [12, 13] else None),
      dl_optimalParent =
        [(''0B'', \<lparr>ph_UsableTLS = replicate 32 1, ph_ActiveTLS = zeroHash, ph_TestTLS = zeroHash, ph_UsableBIMI = zeroHash\<rparr>),
         (''0C'', \<lparr>ph_UsableTLS = replicate 32 2, ph_ActiveTLS = zeroHash, ph_TestTLS = zeroHash, ph_UsableBIMI = zeroHash\<rparr>)]\<rparr>"

theorem discovered_chain_witness:
  "\<exists>more. ([[10, 11], [11, 12], [12, 13]] :: bytes list) = [[10, 11]] @ more \<and> more \<noteq> [] \<and>
     length more \<le> card (tableHashes (dl_optimalParent exDiscovery) (contextIndex UsableTLSLogs))"
proof -
  let ?next = "nextParent exDiscovery colUsableTLS"
  have hex: "hexUpper [11] = ''0B''" "hexUpper [12] = ''0C''" "hexUpper [13] = ''0D''" by code_simp+
  have lib: "dl_parse exDiscovery = exParse" "dl_sha256 exDiscovery = (\<lambda>b. b)" by (simp_all add: exDiscovery_def)
  have short: "replicate 32 x \<noteq> [a, b]" for x a b :: "8 word"
    by (rule notI, drule arg_cong [where f = length]) simp
  have steps: "?next {[10, 11]} ''0B'' = Some (replicate 32 1, [11, 12], the (exParse [11, 12]))"
    "?next {replicate 32 1, [10, 11]} ''0C'' = Some (replicate 32 2, [12, 13], the (exParse [12, 13]))"
    "?next seen ''0D'' = None" for seen
    by (simp_all add: nextParent_def exDiscovery_def exParse_def zeroHash_def isSelfSignedCert_def Let_def replicate_eq_replicate short)
  let ?extend = "extendChain exDiscovery colUsableTLS"
  have last: "?extend seen ''0D'' c = c" for seen c
    by (subst extendChain.simps) (simp add: steps(3))
  have middle: "?extend {replicate 32 1, [10, 11]} ''0C'' c = c @ [[12, 13]]" for c
    by (subst extendChain.simps) (simp add: steps(2) hex last exParse_def)
  have run: "?extend {[10, 11]} ''0B'' c = c @ [[11, 12], [12, 13]]" for c
    by (subst extendChain.simps) (simp add: steps(1) hex middle exParse_def)
  have "DiscoverChain exDiscovery [[10, 11]] UsableTLSLogs = Ok (Some [[10, 11], [11, 12], [12, 13]])"
    unfolding DiscoverChain_def lib by (simp add: exParse_def hex run)
  from discovered_chain [OF this] show ?thesis by blast
qed

end
