(* ===== verification/Parents_Search.thy ===== *)
theory Parents_Search
  imports Discovery "HOL-Library.AList"
begin

text \<open>
  cmd/optimalparents/main.go, the certificates: loading CCADB's certificates, indexing them by key
  identifier, and climbing from a certificate to the roots by breadth-first search. SHA-256, PEM and
  X.509 parsing are parameters. A Go map that is ranged over is an association list: the order of
  its entries, which Go leaves open, is fixed to the order of insertion.
\<close>

section \<open>Loading the certificates\<close>

text \<open>The fields used of a crypto/x509 certificate; an absent key identifier is None.\<close>

record x509Certificate =
  x5_SubjectKeyId :: "bytes option"
  x5_AuthorityKeyId :: "bytes option"
  x5_RawIssuer :: bytes
  x5_RawSubject :: bytes
  x5_NotAfter :: time

record certInfo =
  ci_cert :: x509Certificate
  ci_raw :: bytes
  ci_sha256 :: bytes

record ccadbLib =
  cl_sha256 :: "bytes \<Rightarrow> bytes"
  cl_pemDecode :: "string \<Rightarrow> bytes option"
  cl_parseCertificate :: "bytes \<Rightarrow> x509Certificate option"

record dirEntry =
  de_IsDir :: bool
  de_contents :: "go_error + string"

text \<open>One record of a file: certificates already seen are skipped, as is what is no certificate.\<close>

definition addRecord :: "ccadbLib \<Rightarrow> string list \<Rightarrow> bytes set \<times> certInfo list \<Rightarrow> bytes set \<times> certInfo list" where
  "addRecord lib rec acc =
     (case cl_pemDecode lib (rec ! 1) of
        None \<Rightarrow> acc
      | Some block \<Rightarrow>
          (case cl_parseCertificate lib block of
             None \<Rightarrow> acc
           | Some cert \<Rightarrow>
               let hash = cl_sha256 lib block in
               if hash \<in> fst acc then acc
               else (insert hash (fst acc), snd acc @ [\<lparr>ci_cert = cert, ci_raw = block, ci_sha256 = hash\<rparr>])))"

fun loadRecords ::
  "ccadbLib \<Rightarrow> string list list \<Rightarrow> bytes set \<times> certInfo list \<Rightarrow> (bytes set \<times> certInfo list) outcome" where
  "loadRecords lib [] acc = Ok acc"
| "loadRecords lib (rec # records) acc =
     (if length rec < 2 then Panic else loadRecords lib records (addRecord lib rec acc))"

definition ccadbReader :: csvReader where
  "ccadbReader = \<lparr>rd_FieldsPerRecord = 2, rd_LazyQuotes = True, rd_TrimLeadingSpace = True\<rparr>"

text \<open>A directory, an unreadable file and a file that is no CSV are skipped; a file without a header panics.\<close>

fun loadEntries ::
  "ccadbLib \<Rightarrow> dirEntry list \<Rightarrow> bytes set \<times> certInfo list \<Rightarrow> (bytes set \<times> certInfo list) outcome" where
  "loadEntries lib [] acc = Ok acc"
| "loadEntries lib (entry # entries) acc =
     (if de_IsDir entry then loadEntries lib entries acc
      else case de_contents entry of
        Inl e \<Rightarrow> loadEntries lib entries acc
      | Inr contents \<Rightarrow>
          (case ReadAll ccadbReader contents of
             Inl e \<Rightarrow> loadEntries lib entries acc
           | Inr [] \<Rightarrow> Panic
           | Inr (header # records) \<Rightarrow>
               (case loadRecords lib records acc of
                  Ok acc' \<Rightarrow> loadEntries lib entries acc'
                | Err e \<Rightarrow> Err e
                | Panic \<Rightarrow> Panic)))"

definition loadCCADBCerts :: "ccadbLib \<Rightarrow> go_error + dirEntry list \<Rightarrow> certInfo list outcome" where
  "loadCCADBCerts lib readDir =
     (case readDir of
        Inl e \<Rightarrow> Err (Errorf (''Failed to read CCADB data directory: '' @ errorString e))
      | Inr entries \<Rightarrow>
          (case loadEntries lib entries ({}, []) of
             Ok (seen, certs) \<Rightarrow> Ok certs
           | Err e \<Rightarrow> Err e
           | Panic \<Rightarrow> Panic))"

text \<open>What has been loaded: no hash twice, and each is the hash of the certificate's bytes.\<close>

definition loadedOK :: "ccadbLib \<Rightarrow> bytes set \<times> certInfo list \<Rightarrow> bool" where
  "loadedOK lib acc \<longleftrightarrow>
     fst acc = ci_sha256 ` set (snd acc) \<and> distinct (map ci_sha256 (snd acc)) \<and>
     (\<forall>ci \<in> set (snd acc). ci_sha256 ci = cl_sha256 lib (ci_raw ci))"

lemma addRecord_ok: "loadedOK lib acc \<Longrightarrow> loadedOK lib (addRecord lib rec acc)"
  by (auto simp: addRecord_def loadedOK_def Let_def split: option.split)

lemma loadRecords_ok: "loadedOK lib acc \<Longrightarrow> loadRecords lib records acc = Ok acc' \<Longrightarrow> loadedOK lib acc'"
  by (induction lib records acc rule: loadRecords.induct) (auto simp: addRecord_ok split: if_splits)

lemma loadEntries_ok: "loadedOK lib acc \<Longrightarrow> loadEntries lib entries acc = Ok acc' \<Longrightarrow> loadedOK lib acc'"
proof (induction entries arbitrary: acc)
  case Nil
  then show ?case by simp
next
  case (Cons entry entries)
  have "loadEntries lib entries acc = Ok acc' \<or>
      (\<exists>records acc2. loadRecords lib records acc = Ok acc2 \<and> loadEntries lib entries acc2 = Ok acc')"
    using Cons.prems(2) by (simp del: split_paired_Ex split: if_splits sum.splits list.splits outcome.splits) blast+
  then show ?case using Cons.IH Cons.prems(1) loadRecords_ok by blast
qed

lemma loadCCADBCerts_ok:
  assumes "loadCCADBCerts lib readDir = Ok certs"
  shows "distinct (map ci_sha256 certs)" and "ci \<in> set certs \<Longrightarrow> ci_sha256 ci = cl_sha256 lib (ci_raw ci)"
proof -
  obtain entries seen where "loadEntries lib entries ({}, []) = Ok (seen, certs)"
    using assms by (auto simp: loadCCADBCerts_def split: sum.splits outcome.splits)
  from loadEntries_ok [OF _ this] have "loadedOK lib (seen, certs)" by (simp add: loadedOK_def)
  then show "distinct (map ci_sha256 certs)" "ci \<in> set certs \<Longrightarrow> ci_sha256 ci = cl_sha256 lib (ci_raw ci)"
    by (simp_all add: loadedOK_def)
qed

section \<open>The index and the parents of a certificate\<close>

type_synonym skiIndex = "(string \<times> certInfo list) list"

fun keyBytes :: "bytes option \<Rightarrow> bytes" where
  "keyBytes None = []"
| "keyBytes (Some bs) = bs"

definition bySKI :: "skiIndex \<Rightarrow> string \<Rightarrow> certInfo list" where
  "bySKI idx ski = (case map_of idx ski of None \<Rightarrow> [] | Some cs \<Rightarrow> cs)"

definition indexCert :: "certInfo \<Rightarrow> skiIndex \<Rightarrow> skiIndex" where
  "indexCert ci idx =
     (let key = keyBytes (x5_SubjectKeyId (ci_cert ci)) in
      if key = [] then idx
      else AList.update (hexEncode key) (bySKI idx (hexEncode key) @ [ci]) idx)"

definition certsBySKI :: "certInfo list \<Rightarrow> skiIndex" where
  "certsBySKI certs = fold indexCert certs []"

definition isSelfSigned :: "certInfo \<Rightarrow> bool" where
  "isSelfSigned ci \<longleftrightarrow>
     (case (x5_AuthorityKeyId (ci_cert ci), x5_SubjectKeyId (ci_cert ci)) of
        (Some aki, Some ski) \<Rightarrow> aki = ski
      | _ \<Rightarrow> x5_RawIssuer (ci_cert ci) = x5_RawSubject (ci_cert ci))"

definition findParents :: "certInfo \<Rightarrow> skiIndex \<Rightarrow> certInfo list" where
  "findParents ci idx =
     (let key = keyBytes (x5_AuthorityKeyId (ci_cert ci)) in
      if key = [] then []
      else filter (\<lambda>c. ci_sha256 c \<noteq> ci_sha256 ci) (bySKI idx (hexEncode key)))"

definition certsOf :: "skiIndex \<Rightarrow> certInfo set" where
  "certsOf idx = (\<Union>(ski, cs) \<in> set idx. set cs)"

lemma hexEncode_inject [simp]: "hexEncode a = hexEncode b \<longleftrightarrow> a = b"
  by (metis hexDecode_hexEncode option.inject)

lemma hexEncode_Nil_iff [simp]: "hexEncode bs = [] \<longleftrightarrow> bs = []"
  by (cases bs) (simp_all add: hexEncode_def)

lemma finite_certsOf [simp]: "finite (certsOf idx)"
  by (auto simp: certsOf_def)

lemma bySKI_certsOf: "set (bySKI idx ski) \<subseteq> certsOf idx"
proof (cases "map_of idx ski")
  case (Some cs)
  then have "(ski, cs) \<in> set idx" by (rule map_of_SomeD)
  then show ?thesis using Some by (auto simp: bySKI_def certsOf_def)
qed (simp add: bySKI_def)

lemma findParents_certsOf: "set (findParents ci idx) \<subseteq> certsOf idx"
  using bySKI_certsOf [of idx] by (auto simp: findParents_def Let_def)

lemma bySKI_fold:
  "bySKI (fold indexCert certs idx) ski =
     bySKI idx ski @ filter (\<lambda>ci. keyBytes (x5_SubjectKeyId (ci_cert ci)) \<noteq> [] \<and> hexEncode (keyBytes (x5_SubjectKeyId (ci_cert ci))) = ski) certs"
  by (induction certs arbitrary: idx) (auto simp: indexCert_def Let_def bySKI_def update_conv')

text \<open>The certificates under a key are exactly those with that key identifier.\<close>

lemma bySKI_certsBySKI:
  "bySKI (certsBySKI certs) ski =
     filter (\<lambda>ci. keyBytes (x5_SubjectKeyId (ci_cert ci)) \<noteq> [] \<and> hexEncode (keyBytes (x5_SubjectKeyId (ci_cert ci))) = ski) certs"
  by (simp add: certsBySKI_def bySKI_fold) (simp add: bySKI_def)

lemma distinct_fold_index: "distinct (map fst idx) \<Longrightarrow> distinct (map fst (fold indexCert certs idx))"
  by (induction certs arbitrary: idx) (simp_all add: indexCert_def Let_def distinct_update)

lemma certsOf_certsBySKI: "certsOf (certsBySKI certs) \<subseteq> set certs"
proof
  fix ci
  assume "ci \<in> certsOf (certsBySKI certs)"
  then obtain ski cs where "(ski, cs) \<in> set (certsBySKI certs)" "ci \<in> set cs" by (auto simp: certsOf_def)
  moreover have "distinct (map fst (certsBySKI certs))" using distinct_fold_index [of "[]"] by (simp add: certsBySKI_def)
  ultimately have "ci \<in> set (bySKI (certsBySKI certs) ski)" by (simp add: bySKI_def)
  then show "ci \<in> set certs" by (simp add: bySKI_certsBySKI)
qed

section \<open>Climbing to the roots\<close>

record bfsNode =
  node_ci :: certInfo
  node_path :: "bytes list"

record bfsState =
  bs_queue :: "bfsNode list"
  bs_visited :: "bytes set"
  bs_seenRoots :: "bytes set"
  bs_chains :: "bytes list list"

definition visitParent :: "bfsNode \<Rightarrow> certInfo \<Rightarrow> bfsState \<Rightarrow> bfsState" where
  "visitParent node parent st =
     (if ci_sha256 parent \<in> bs_visited st then st
      else
        let newPath = node_path node @ [ci_raw parent] in
        if isSelfSigned parent then
          (if ci_sha256 parent \<notin> bs_seenRoots st
           then st\<lparr>bs_seenRoots := insert (ci_sha256 parent) (bs_seenRoots st), bs_chains := bs_chains st @ [newPath]\<rparr>
           else st)
        else st\<lparr>bs_visited := insert (ci_sha256 parent) (bs_visited st),
                bs_queue := bs_queue st @ [\<lparr>node_ci = parent, node_path = newPath\<rparr>]\<rparr>)"

text \<open>Every certificate is queued at most once: the work left is what is unvisited and what is queued.\<close>

definition bfsWork :: "skiIndex \<Rightarrow> bfsState \<Rightarrow> nat" where
  "bfsWork idx st = card (ci_sha256 ` certsOf idx - bs_visited st) + length (bs_queue st)"

lemma visitParent_work: "parent \<in> certsOf idx \<Longrightarrow> bfsWork idx (visitParent node parent st) = bfsWork idx st"
proof -
  assume p: "parent \<in> certsOf idx"
  let ?h = "ci_sha256 parent" and ?H = "ci_sha256 ` certsOf idx"
  have "card (?H - bs_visited st) = Suc (card (?H - insert ?h (bs_visited st)))" if "?h \<notin> bs_visited st"
    using p that card_Suc_Diff1 [of "?H - bs_visited st" ?h] by (simp add: Diff_insert [symmetric])
  then show ?thesis by (auto simp: visitParent_def bfsWork_def Let_def)
qed

lemma visitParents_work: "set parents \<subseteq> certsOf idx \<Longrightarrow> bfsWork idx (fold (visitParent node) parents st) = bfsWork idx st"
  by (induction parents arbitrary: st) (simp_all add: visitParent_work)

function bfsLoop :: "skiIndex \<Rightarrow> bfsState \<Rightarrow> bfsState" where
  "bfsLoop idx st =
     (case bs_queue st of
        [] \<Rightarrow> st
      | node # queue \<Rightarrow> bfsLoop idx (fold (visitParent node) (findParents (node_ci node) idx) (st\<lparr>bs_queue := queue\<rparr>)))"
  by pat_completeness auto
termination
  by (relation "measure (\<lambda>(idx, st). bfsWork idx st)")
    (simp_all add: visitParents_work [OF findParents_certsOf], simp add: bfsWork_def)

declare bfsLoop.simps [simp del]

definition startBFS :: "certInfo \<Rightarrow> bfsState" where
  "startBFS ci =
     \<lparr>bs_queue = [\<lparr>node_ci = ci, node_path = [ci_raw ci]\<rparr>], bs_visited = {ci_sha256 ci}, bs_seenRoots = {}, bs_chains = []\<rparr>"

definition buildChains :: "certInfo \<Rightarrow> skiIndex \<Rightarrow> bytes list list" where
  "buildChains ci idx =
     (if isSelfSigned ci then []
      else
        let chains = bs_chains (bfsLoop idx (startBFS ci)) in
        if chains = [] then [[ci_raw ci]] else chains)"

section \<open>What climbing finds\<close>

text \<open>
  A climb goes from a certificate to a parent, from there to a parent of that one, and so on, over
  intermediates only; a root is reached when a parent of the last one is self-signed.
\<close>

inductive climb :: "skiIndex \<Rightarrow> certInfo \<Rightarrow> certInfo list \<Rightarrow> bool" for idx ci where
  start: "\<not> isSelfSigned ci \<Longrightarrow> climb idx ci [ci]"
| up: "climb idx ci cs \<Longrightarrow> parent \<in> set (findParents (last cs) idx) \<Longrightarrow> \<not> isSelfSigned parent \<Longrightarrow> climb idx ci (cs @ [parent])"

definition rootedChain :: "skiIndex \<Rightarrow> certInfo \<Rightarrow> certInfo list \<Rightarrow> certInfo \<Rightarrow> bool" where
  "rootedChain idx ci cs r \<longleftrightarrow> climb idx ci cs \<and> r \<in> set (findParents (last cs) idx) \<and> isSelfSigned r"

definition ders :: "certInfo list \<times> certInfo \<Rightarrow> bytes list" where
  "ders found = map ci_raw (fst found) @ [ci_raw (snd found)]"

lemma climb_nonempty: "climb idx ci cs \<Longrightarrow> cs \<noteq> []"
  by (induction rule: climb.induct) simp_all

lemma climb_certs: "climb idx ci cs \<Longrightarrow> last cs \<in> insert ci (certsOf idx) \<and> \<not> isSelfSigned (last cs)"
  by (induction rule: climb.induct) (use findParents_certsOf in auto)

text \<open>The parents of one certificate, taken in order.\<close>

definition queued :: "bfsNode \<Rightarrow> certInfo \<Rightarrow> bfsNode" where
  "queued node parent = \<lparr>node_ci = parent, node_path = node_path node @ [ci_raw parent]\<rparr>"

lemma visitParent_cases:
  obtains (old) "visitParent node parent st = st"
      "ci_sha256 parent \<in> bs_visited st \<or> isSelfSigned parent \<and> ci_sha256 parent \<in> bs_seenRoots st"
  | (root) "isSelfSigned parent" "ci_sha256 parent \<notin> bs_seenRoots st"
      "visitParent node parent st = st\<lparr>bs_seenRoots := insert (ci_sha256 parent) (bs_seenRoots st),
         bs_chains := bs_chains st @ [node_path node @ [ci_raw parent]]\<rparr>"
  | (inter) "\<not> isSelfSigned parent" "ci_sha256 parent \<notin> bs_visited st"
      "visitParent node parent st = st\<lparr>bs_visited := insert (ci_sha256 parent) (bs_visited st),
         bs_queue := bs_queue st @ [queued node parent]\<rparr>"
proof -
  consider "ci_sha256 parent \<in> bs_visited st" | "ci_sha256 parent \<notin> bs_visited st" "isSelfSigned parent" "ci_sha256 parent \<in> bs_seenRoots st"
    | "ci_sha256 parent \<notin> bs_visited st" "isSelfSigned parent" "ci_sha256 parent \<notin> bs_seenRoots st"
    | "ci_sha256 parent \<notin> bs_visited st" "\<not> isSelfSigned parent" by blast
  then show ?thesis
    by cases (use that in \<open>simp_all add: visitParent_def queued_def Let_def\<close>)
qed

lemma visitParents_spec:
  "\<exists>news roots. bs_queue (fold (visitParent node) parents st) = bs_queue st @ map (queued node) news \<and>
     bs_visited (fold (visitParent node) parents st) = bs_visited st \<union> ci_sha256 ` set news \<and>
     bs_chains (fold (visitParent node) parents st) = bs_chains st @ map (\<lambda>r. node_path node @ [ci_raw r]) roots \<and>
     bs_seenRoots (fold (visitParent node) parents st) = bs_seenRoots st \<union> ci_sha256 ` set roots \<and>
     (\<forall>p \<in> set news. p \<in> set parents \<and> \<not> isSelfSigned p \<and> ci_sha256 p \<notin> bs_visited st) \<and>
     (\<forall>p \<in> set roots. p \<in> set parents \<and> isSelfSigned p \<and> ci_sha256 p \<notin> bs_seenRoots st) \<and>
     distinct (map ci_sha256 roots) \<and>
     (\<forall>p \<in> set parents. ci_sha256 p \<in> bs_visited st \<union> ci_sha256 ` set news \<or>
        isSelfSigned p \<and> ci_sha256 p \<in> bs_seenRoots st \<union> ci_sha256 ` set roots)"
proof (induction parents arbitrary: st)
  case Nil
  then show ?case by (auto intro!: exI [of _ "[]"])
next
  case (Cons p parents)
  let ?st = "visitParent node p st"
  obtain news roots where IH: "bs_queue (fold (visitParent node) parents ?st) = bs_queue ?st @ map (queued node) news"
    "bs_visited (fold (visitParent node) parents ?st) = bs_visited ?st \<union> ci_sha256 ` set news"
    "bs_chains (fold (visitParent node) parents ?st) = bs_chains ?st @ map (\<lambda>r. node_path node @ [ci_raw r]) roots"
    "bs_seenRoots (fold (visitParent node) parents ?st) = bs_seenRoots ?st \<union> ci_sha256 ` set roots"
    "\<forall>p \<in> set news. p \<in> set parents \<and> \<not> isSelfSigned p \<and> ci_sha256 p \<notin> bs_visited ?st"
    "\<forall>p \<in> set roots. p \<in> set parents \<and> isSelfSigned p \<and> ci_sha256 p \<notin> bs_seenRoots ?st"
    "distinct (map ci_sha256 roots)"
    "\<forall>p \<in> set parents. ci_sha256 p \<in> bs_visited ?st \<union> ci_sha256 ` set news \<or>
        isSelfSigned p \<and> ci_sha256 p \<in> bs_seenRoots ?st \<union> ci_sha256 ` set roots"
    using Cons.IH [of ?st] by (elim exE conjE) (rule that)
  show ?case
  proof (cases rule: visitParent_cases [where node = node and parent = p and st = st])
    case old
    then show ?thesis using IH by (intro exI [of _ news] exI [of _ roots]) auto
  next
    case root
    then show ?thesis using IH by (intro exI [of _ news] exI [of _ "p # roots"]) auto
  next
    case inter
    then show ?thesis using IH by (intro exI [of _ "p # news"] exI [of _ roots]) auto
  qed
qed

text \<open>
  The invariant of the search: a set of certificates whose parents have all been looked at, the
  certificates seen (done or queued), and the roots found with the climbs that led to them.
\<close>

definition seenCerts :: "certInfo set \<Rightarrow> bfsState \<Rightarrow> certInfo set" where
  "seenCerts done st = done \<union> node_ci ` set (bs_queue st)"

definition bfsClosed :: "skiIndex \<Rightarrow> certInfo \<Rightarrow> certInfo set \<Rightarrow> certInfo set \<Rightarrow> bfsState \<Rightarrow> bool" where
  "bfsClosed idx ci done roots st \<longleftrightarrow>
     ci \<in> seenCerts done st \<and> seenCerts done st \<subseteq> insert ci (certsOf idx) \<and> (\<forall>c \<in> seenCerts done st. \<not> isSelfSigned c) \<and>
     (\<forall>r \<in> roots. r \<in> certsOf idx \<and> isSelfSigned r) \<and>
     bs_visited st = ci_sha256 ` seenCerts done st \<and> bs_seenRoots st = ci_sha256 ` roots \<and>
     (\<forall>c \<in> done. \<forall>p \<in> set (findParents c idx). if isSelfSigned p then p \<in> roots else p \<in> seenCerts done st)"

definition shortestNode :: "skiIndex \<Rightarrow> certInfo \<Rightarrow> bfsNode \<Rightarrow> bool" where
  "shortestNode idx ci node \<longleftrightarrow>
     (\<exists>cs. climb idx ci cs \<and> last cs = node_ci node \<and> node_path node = map ci_raw cs \<and>
        (\<forall>cs'. climb idx ci cs' \<and> last cs' = node_ci node \<longrightarrow> length cs \<le> length cs'))"

definition bfsQueue :: "skiIndex \<Rightarrow> certInfo \<Rightarrow> bfsState \<Rightarrow> bool" where
  "bfsQueue idx ci st \<longleftrightarrow>
     list_all (shortestNode idx ci) (bs_queue st) \<and> sorted (map (\<lambda>n. length (node_path n)) (bs_queue st)) \<and>
     (\<forall>node queue. bs_queue st = node # queue \<longrightarrow> (\<forall>n \<in> set queue. length (node_path n) \<le> Suc (length (node_path node))))"

definition shortestTo :: "skiIndex \<Rightarrow> certInfo \<Rightarrow> certInfo list \<times> certInfo \<Rightarrow> bool" where
  "shortestTo idx ci f \<longleftrightarrow>
     rootedChain idx ci (fst f) (snd f) \<and>
     (\<forall>cs. rootedChain idx ci cs (snd f) \<longrightarrow> length (fst f) \<le> length cs)"

definition bfsInv :: "skiIndex \<Rightarrow> certInfo \<Rightarrow> certInfo set \<Rightarrow> (certInfo list \<times> certInfo) list \<Rightarrow> bfsState \<Rightarrow> bool" where
  "bfsInv idx ci done found st \<longleftrightarrow>
     bfsClosed idx ci done (snd ` set found) st \<and> bfsQueue idx ci st \<and>
     bs_chains st = map ders found \<and> distinct (map snd found) \<and> list_all (shortestTo idx ci) found"

lemma bfsInv_start:
  assumes "\<not> isSelfSigned ci"
  shows "bfsInv idx ci {} [] (startBFS ci)"
proof -
  have "shortestNode idx ci \<lparr>node_ci = ci, node_path = [ci_raw ci]\<rparr>"
    unfolding shortestNode_def
    using climb.start [OF assms, of idx] by (intro exI [of _ "[ci]"]) (auto simp: Suc_le_eq dest: climb_nonempty)
  then show ?thesis
    using assms by (auto simp: bfsInv_def bfsClosed_def bfsQueue_def seenCerts_def startBFS_def)
qed

text \<open>A climb whose end has not been seen goes through a queued certificate.\<close>

lemma unseen_climb:
  assumes "bfsClosed idx ci done roots st" "climb idx ci cs" "last cs \<notin> seenCerts done st"
  shows "\<exists>node \<in> set (bs_queue st). \<exists>cs'. climb idx ci cs' \<and> last cs' = node_ci node \<and> length cs' < length cs"
  using assms(2,3)
proof (induction rule: climb.induct)
  case start
  then show ?case using assms(1) by (simp add: bfsClosed_def)
next
  case (up cs parent)
  show ?case
  proof (cases "last cs \<in> seenCerts done st")
    case False
    then obtain node cs' where "node \<in> set (bs_queue st)" "climb idx ci cs'" "last cs' = node_ci node" "length cs' < length cs"
      using up.IH by blast
    then show ?thesis by (intro bexI [of _ node] exI [of _ cs']) simp_all
  next
    case True
    have "parent \<notin> seenCerts done st" using up.prems by simp
    then have "last cs \<notin> done" using assms(1) up.hyps(2,3) unfolding bfsClosed_def by meson
    then obtain node where "node \<in> set (bs_queue st)" "last cs = node_ci node" using True by (auto simp: seenCerts_def)
    then show ?thesis using up.hyps(1) by (intro bexI [of _ node] exI [of _ cs]) simp_all
  qed
qed

lemma shortestNode_length:
  assumes "shortestNode idx ci node" "climb idx ci cs" "last cs = node_ci node"
  shows "length (node_path node) \<le> length cs"
  using assms by (auto simp: shortestNode_def)

text \<open>A climb that reaches an unseen certificate is longer than the path of the next certificate in the queue.\<close>

lemma unseen_longer:
  assumes "bfsClosed idx ci done roots st" "bfsQueue idx ci st" "bs_queue st = node # queue"
    and "climb idx ci cs" "last cs \<notin> seenCerts done st"
  shows "length (node_path node) < length cs"
proof -
  obtain n cs' where n: "n \<in> set (bs_queue st)" "climb idx ci cs'" "last cs' = node_ci n" "length cs' < length cs"
    using unseen_climb [OF assms(1,4,5)] by blast
  have "length (node_path node) \<le> length (node_path n)" using assms(2,3) n(1) by (auto simp: bfsQueue_def)
  also have "\<dots> \<le> length cs'"
    using assms(2) n by (intro shortestNode_length) (auto simp: bfsQueue_def list_all_iff)
  finally show ?thesis using n(4) by simp
qed

lemma unfound_longer:
  assumes "bfsClosed idx ci done roots st" "bfsQueue idx ci st" "bs_queue st = node # queue"
    and "rootedChain idx ci cs r" "r \<notin> roots"
  shows "length (node_path node) \<le> length cs"
proof (cases "last cs \<in> seenCerts done st")
  case False
  have "climb idx ci cs" using assms(4) by (simp add: rootedChain_def)
  from unseen_longer [OF assms(1-3) this False] show ?thesis by simp
next
  case True
  have "last cs \<notin> done" using assms(1,4,5) unfolding bfsClosed_def rootedChain_def by meson
  then obtain n where n: "n \<in> set (bs_queue st)" "last cs = node_ci n" using True by (auto simp: seenCerts_def)
  have "length (node_path node) \<le> length (node_path n)" using assms(2,3) n(1) by (auto simp: bfsQueue_def)
  also have "\<dots> \<le> length cs"
    using assms(2,4) n by (intro shortestNode_length) (auto simp: bfsQueue_def list_all_iff rootedChain_def)
  finally show ?thesis .
qed

text \<open>One round of the search keeps the invariant: the node taken from the queue is done.\<close>

lemma bfsClosed_step:
  assumes inj: "inj_on ci_sha256 (insert ci (certsOf idx))"
    and closed: "bfsClosed idx ci done roots st" and q: "bs_queue st = node # queue"
    and new: "bs_queue st' = queue @ map (queued node) news" "bs_visited st' = bs_visited st \<union> ci_sha256 ` set news"
      "bs_seenRoots st' = bs_seenRoots st \<union> ci_sha256 ` rs"
    and news: "\<forall>p \<in> set news. p \<in> set (findParents (node_ci node) idx) \<and> \<not> isSelfSigned p"
    and rs: "\<forall>p \<in> rs. p \<in> set (findParents (node_ci node) idx) \<and> isSelfSigned p"
    and all: "\<forall>p \<in> set (findParents (node_ci node) idx). ci_sha256 p \<in> bs_visited st' \<or> isSelfSigned p \<and> ci_sha256 p \<in> bs_seenRoots st'"
  shows "bfsClosed idx ci (insert (node_ci node) done) (roots \<union> rs) st'"
proof -
  let ?D = "insert (node_ci node) done"
  have seen: "seenCerts ?D st' = seenCerts done st \<union> set news"
    using q new(1) by (auto simp: seenCerts_def queued_def image_Un image_image)
  have sub: "seenCerts ?D st' \<subseteq> insert ci (certsOf idx)" "\<forall>c \<in> seenCerts ?D st'. \<not> isSelfSigned c"
    using closed news findParents_certsOf by (auto simp: seen bfsClosed_def)
  have rsub: "\<forall>r \<in> roots \<union> rs. r \<in> certsOf idx \<and> isSelfSigned r"
    using closed rs findParents_certsOf by (auto simp: bfsClosed_def)
  have vis: "bs_visited st' = ci_sha256 ` seenCerts ?D st'" "bs_seenRoots st' = ci_sha256 ` (roots \<union> rs)"
    using closed new(2,3) by (auto simp: seen bfsClosed_def)
  have node: "if isSelfSigned p then p \<in> roots \<union> rs else p \<in> seenCerts ?D st'" if p: "p \<in> set (findParents (node_ci node) idx)" for p
  proof -
    have u: "p \<in> insert ci (certsOf idx)" using p findParents_certsOf by auto
    have "ci_sha256 p \<in> ci_sha256 ` seenCerts ?D st' \<longleftrightarrow> p \<in> seenCerts ?D st'"
      by (rule inj_on_image_mem_iff [OF inj u sub(1)])
    moreover have "ci_sha256 p \<in> ci_sha256 ` (roots \<union> rs) \<longleftrightarrow> p \<in> roots \<union> rs"
      by (rule inj_on_image_mem_iff [OF inj u]) (use rsub in auto)
    ultimately show ?thesis using all p vis sub(2) by auto
  qed
  have old: "if isSelfSigned p then p \<in> roots else p \<in> seenCerts done st" if "c \<in> done" "p \<in> set (findParents c idx)" for c p
    using closed that unfolding bfsClosed_def by blast
  have "if isSelfSigned p then p \<in> roots \<union> rs else p \<in> seenCerts ?D st'" if "c \<in> ?D" "p \<in> set (findParents c idx)" for c p
  proof (cases "c = node_ci node")
    case True
    then have "p \<in> set (findParents (node_ci node) idx)" using that(2) by simp
    then show ?thesis by (rule node)
  next
    case False
    then have "c \<in> done" using that(1) by simp
    from old [OF this that(2)] show ?thesis by (cases "isSelfSigned p") (simp_all add: seen)
  qed
  moreover have "ci \<in> seenCerts ?D st'" using closed by (simp add: seen bfsClosed_def)
  ultimately show ?thesis
    using sub rsub vis unfolding bfsClosed_def by blast
qed

lemma bfsQueue_step:
  assumes "bfsClosed idx ci done roots st" "bfsQueue idx ci st" "bs_queue st = node # queue"
    and "bs_queue st' = queue @ map (queued node) news"
    and news: "\<forall>p \<in> set news. p \<in> set (findParents (node_ci node) idx) \<and> \<not> isSelfSigned p \<and> p \<notin> seenCerts done st"
  shows "bfsQueue idx ci st'"
proof -
  let ?k = "length (node_path node)"
  obtain cs where cs: "climb idx ci cs" "last cs = node_ci node" "node_path node = map ci_raw cs"
    using assms(2,3) by (auto simp: bfsQueue_def shortestNode_def)
  have "shortestNode idx ci (queued node p)" if "p \<in> set news" for p
  proof -
    have "climb idx ci (cs @ [p])" using climb.up [OF cs(1)] cs(2) news that by auto
    moreover have "length (cs @ [p]) \<le> length cs'" if "climb idx ci cs'" "last cs' = p" for cs'
      using unseen_longer [OF assms(1-3) that(1)] that(2) news \<open>p \<in> set news\<close> cs(3) by auto
    ultimately show ?thesis unfolding shortestNode_def
      by (intro exI [of _ "cs @ [p]"]) (auto simp: queued_def cs(3))
  qed
  then have short: "list_all (shortestNode idx ci) (bs_queue st')"
    using assms(2-4) by (auto simp: bfsQueue_def list_all_iff)
  have old: "?k \<le> length (node_path n) \<and> length (node_path n) \<le> Suc ?k" if "n \<in> set queue" for n
    using assms(2,3) that by (auto simp: bfsQueue_def)
  have "sorted (map (\<lambda>n. length (node_path n)) queue)" using assms(2,3) by (simp add: bfsQueue_def)
  then have sorted: "sorted (map (\<lambda>n. length (node_path n)) (bs_queue st'))"
    using assms(4) old by (auto simp: sorted_append queued_def o_def map_replicate_const)
  have bound: "?k \<le> length (node_path n) \<and> length (node_path n) \<le> Suc ?k" if "n \<in> set (bs_queue st')" for n
    using that assms(4) old by (auto simp: queued_def)
  have "length (node_path n) \<le> Suc (length (node_path h))" if "bs_queue st' = h # t" "n \<in> set t" for h t n
  proof -
    have "?k \<le> length (node_path h)" "length (node_path n) \<le> Suc ?k" using bound that by auto
    then show ?thesis by simp
  qed
  then show ?thesis using short sorted by (simp add: bfsQueue_def)
qed

lemma bfsInv_step:
  assumes inj: "inj_on ci_sha256 (insert ci (certsOf idx))"
    and inv: "bfsInv idx ci done found st" and q: "bs_queue st = node # queue"
  shows "\<exists>found'. bfsInv idx ci (insert (node_ci node) done) (found @ found')
    (fold (visitParent node) (findParents (node_ci node) idx) (st\<lparr>bs_queue := queue\<rparr>))"
proof -
  let ?ps = "findParents (node_ci node) idx" and ?roots = "snd ` set found"
  let ?st' = "fold (visitParent node) ?ps (st\<lparr>bs_queue := queue\<rparr>)"
  obtain news rs where new: "bs_queue ?st' = queue @ map (queued node) news"
    "bs_visited ?st' = bs_visited st \<union> ci_sha256 ` set news"
    "bs_chains ?st' = bs_chains st @ map (\<lambda>r. node_path node @ [ci_raw r]) rs"
    "bs_seenRoots ?st' = bs_seenRoots st \<union> ci_sha256 ` set rs"
    "\<forall>p \<in> set news. p \<in> set ?ps \<and> \<not> isSelfSigned p \<and> ci_sha256 p \<notin> bs_visited st"
    "\<forall>p \<in> set rs. p \<in> set ?ps \<and> isSelfSigned p \<and> ci_sha256 p \<notin> bs_seenRoots st"
    "distinct (map ci_sha256 rs)"
    "\<forall>p \<in> set ?ps. ci_sha256 p \<in> bs_visited st \<union> ci_sha256 ` set news \<or>
        isSelfSigned p \<and> ci_sha256 p \<in> bs_seenRoots st \<union> ci_sha256 ` set rs"
    using visitParents_spec [of node ?ps "st\<lparr>bs_queue := queue\<rparr>"] by (elim exE conjE) (rule that, simp_all)
  have closed: "bfsClosed idx ci done ?roots st" and bq: "bfsQueue idx ci st"
    using inv by (simp_all add: bfsInv_def)
  have unseen: "\<forall>p \<in> set news. p \<notin> seenCerts done st" "\<forall>p \<in> set rs. p \<notin> ?roots"
    using closed new(5,6) by (auto simp: bfsClosed_def)
  obtain cs where cs: "climb idx ci cs" "last cs = node_ci node" "node_path node = map ci_raw cs"
    using bq q by (auto simp: bfsQueue_def shortestNode_def)
  let ?found' = "map (Pair cs) rs"
  have "bfsClosed idx ci (insert (node_ci node) done) (?roots \<union> set rs) ?st'"
    by (rule bfsClosed_step [OF inj closed q new(1,2,4)]) (use new in auto)
  then have "bfsClosed idx ci (insert (node_ci node) done) (snd ` set (found @ ?found')) ?st'"
    by (simp add: image_Un image_image)
  moreover have "bfsQueue idx ci ?st'"
    by (rule bfsQueue_step [OF closed bq q new(1)]) (use new(5) unseen(1) in auto)
  moreover have "bs_chains ?st' = map ders (found @ ?found')"
    using inv new(3) cs(3) by (simp add: bfsInv_def ders_def)
  moreover have "distinct (map snd (found @ ?found'))"
  proof -
    have "map snd ?found' = rs" by (simp add: o_def)
    then show ?thesis using inv unseen(2) new(7) by (auto simp: bfsInv_def distinct_map)
  qed
  moreover have "shortestTo idx ci (cs, r)" if "r \<in> set rs" for r
  proof -
    have "rootedChain idx ci cs r" using cs new(6) that by (simp add: rootedChain_def)
    moreover have "length cs \<le> length cs'" if "rootedChain idx ci cs' r" for cs'
      using unfound_longer [OF closed bq q that] unseen(2) \<open>r \<in> set rs\<close> cs(3) by simp
    ultimately show ?thesis by (simp add: shortestTo_def)
  qed
  then have "list_all (shortestTo idx ci) (found @ ?found')" using inv by (auto simp: bfsInv_def list_all_iff)
  ultimately show ?thesis unfolding bfsInv_def by blast
qed

lemma bfsLoop_inv:
  "inj_on ci_sha256 (insert ci (certsOf idx)) \<Longrightarrow> bfsInv idx ci done found st \<Longrightarrow>
     \<exists>done' found'. bfsInv idx ci done' found' (bfsLoop idx st) \<and> bs_queue (bfsLoop idx st) = []"
proof (induction idx st arbitrary: "done" found rule: bfsLoop.induct)
  case (1 idx st)
  show ?case
  proof (cases "bs_queue st")
    case Nil
    then show ?thesis using "1.prems"(2) by (auto simp: bfsLoop.simps [of idx st])
  next
    case (Cons node queue)
    from bfsInv_step [OF "1.prems" Cons] obtain found' where
      "bfsInv idx ci (insert (node_ci node) done) (found @ found')
         (fold (visitParent node) (findParents (node_ci node) idx) (st\<lparr>bs_queue := queue\<rparr>))" by blast
    from "1.IH" [OF Cons "1.prems"(1) this] show ?thesis
      by (simp add: bfsLoop.simps [of idx st] Cons)
  qed
qed

text \<open>When the queue is empty, every root that can be reached has been found.\<close>

lemma bfs_complete:
  assumes "bfsInv idx ci done found st" "bs_queue st = []" "rootedChain idx ci cs r"
  shows "r \<in> snd ` set found"
proof -
  have closed: "bfsClosed idx ci done (snd ` set found) st" using assms(1) by (simp add: bfsInv_def)
  have "last cs \<in> seenCerts done st"
    using unseen_climb [OF closed] assms(2,3) by (fastforce simp: rootedChain_def)
  then have "last cs \<in> done" using assms(2) by (simp add: seenCerts_def)
  then show ?thesis using closed assms(3) unfolding bfsClosed_def rootedChain_def by meson
qed

text \<open>What buildChains returns for an intermediate whose hash no other certificate of the index has.\<close>

lemma buildChains_spec:
  assumes "inj_on ci_sha256 (insert ci (certsOf idx))" and "\<not> isSelfSigned ci"
  obtains found where "distinct (map snd found)" "list_all (shortestTo idx ci) found"
    "\<forall>cs r. rootedChain idx ci cs r \<longrightarrow> r \<in> snd ` set found"
    "buildChains ci idx = (if found = [] then [[ci_raw ci]] else map ders found)"
proof -
  obtain d found where f: "bfsInv idx ci d found (bfsLoop idx (startBFS ci))" "bs_queue (bfsLoop idx (startBFS ci)) = []"
    using bfsLoop_inv [OF assms(1) bfsInv_start [OF assms(2)]] by blast
  show ?thesis
  proof (rule that)
    show "distinct (map snd found)" "list_all (shortestTo idx ci) found" using f(1) by (simp_all add: bfsInv_def)
    show "\<forall>cs r. rootedChain idx ci cs r \<longrightarrow> r \<in> snd ` set found" using bfs_complete [OF f] by blast
    show "buildChains ci idx = (if found = [] then [[ci_raw ci]] else map ders found)"
      using f(1) assms(2) by (simp add: buildChains_def bfsInv_def)
  qed
qed

end
