(* ===== verification/Optimal_Parents.thy ===== *)
theory Optimal_Parents
  imports Parents_Search "HOL-Library.List_Lexorder" "HOL-Library.Char_ord"
begin

text \<open>
  cmd/optimalparents/main.go, the choice: per key and log list context, the certificate whose chain
  ends in the root accepted by the most logs, and the table that is written, which is the one the
  server embeds (Discovery). The accepted roots are parameters.
\<close>

section \<open>Choosing the parent of a key\<close>

text \<open>forEachLog gives the log IDs in the order it calls its function; a nil list has none.\<close>

definition forEachLog :: "(bytes \<Rightarrow> bytes) \<Rightarrow> logList option \<Rightarrow> bytes list" where
  "forEachLog sha256 ll =
     (case ll of
        None \<Rightarrow> []
      | Some ops \<Rightarrow>
          concat (map (\<lambda>op. map (\<lambda>l. sha256 (log_Key l)) (op_Logs op) @ map (\<lambda>tl. sha256 (tl_Key tl)) (op_TiledLogs op)) ops))"

text \<open>The logs of a context, counted by the hash of their accepted roots.\<close>

type_synonym logGroups = "(bytes \<times> int) list"

definition countLog :: "(bytes \<Rightarrow> bytes option) \<Rightarrow> bytes \<Rightarrow> logGroups \<Rightarrow> logGroups" where
  "countLog logAcceptedRoots logID groups =
     (case logAcceptedRoots logID of
        None \<Rightarrow> groups
      | Some rootsHash \<Rightarrow>
          AList.update rootsHash ((case map_of groups rootsHash of None \<Rightarrow> 0 | Some n \<Rightarrow> n) + 1) groups)"

definition contextLogGroups :: "(bytes \<Rightarrow> bytes) \<Rightarrow> (bytes \<Rightarrow> bytes option) \<Rightarrow> logList option \<Rightarrow> logGroups" where
  "contextLogGroups sha256 logAcceptedRoots ctx = fold (countLog logAcceptedRoots) (forEachLog sha256 ctx) []"

text \<open>The certificates of an accepted roots pool, by hash; a pool that is not known is empty.\<close>

definition rootHashSet :: "(bytes \<Rightarrow> bytes) \<Rightarrow> (bytes \<Rightarrow> bytes list option) \<Rightarrow> bytes \<Rightarrow> bytes set" where
  "rootHashSet sha256 acceptedRoots poolHash =
     (case acceptedRoots poolHash of None \<Rightarrow> {} | Some raws \<Rightarrow> sha256 ` set raws)"

definition scoreOf :: "(bytes \<Rightarrow> bytes set) \<Rightarrow> logGroups \<Rightarrow> bytes \<Rightarrow> int" where
  "scoreOf rootHashes groups rootHash =
     fold (\<lambda>(rootsHash, count) score. if rootHash \<in> rootHashes rootsHash then score + count else score) groups 0"

record bestParent =
  bp_Score :: int
  bp_ChainLen :: nat
  bp_NotAfter :: time
  bp_CertHash :: bytes

definition betterParent :: "int \<Rightarrow> nat \<Rightarrow> certInfo \<Rightarrow> bestParent option \<Rightarrow> bool" where
  "betterParent score chainLen ci best =
     (case best of
        None \<Rightarrow> True
      | Some b \<Rightarrow>
          if bp_Score b < score then True
          else if score < bp_Score b then False
          else if chainLen < bp_ChainLen b then True
          else if bp_ChainLen b < chainLen then False
          else if bp_NotAfter b < x5_NotAfter (ci_cert ci) then True
          else if x5_NotAfter (ci_cert ci) < bp_NotAfter b then False
          else ci_sha256 ci < bp_CertHash b)"

definition considerChain ::
  "(bytes \<Rightarrow> bytes) \<Rightarrow> (bytes \<Rightarrow> bytes set) \<Rightarrow> logGroups \<Rightarrow> certInfo \<Rightarrow> bytes list \<Rightarrow> bestParent option \<Rightarrow> bestParent option" where
  "considerChain sha256 rootHashes groups ci chain best =
     (let score = scoreOf rootHashes groups (sha256 (last chain)) in
      if 0 < score \<and> betterParent score (length chain) ci best
      then Some \<lparr>bp_Score = score, bp_ChainLen = length chain, bp_NotAfter = x5_NotAfter (ci_cert ci), bp_CertHash = ci_sha256 ci\<rparr>
      else best)"

definition chainsOf :: "certInfo \<Rightarrow> skiIndex \<Rightarrow> bytes list list" where
  "chainsOf ci idx = (if isSelfSigned ci then [[ci_raw ci]] else buildChains ci idx)"

definition selectParent ::
  "(bytes \<Rightarrow> bytes) \<Rightarrow> (bytes \<Rightarrow> bytes set) \<Rightarrow> skiIndex \<Rightarrow> certInfo list \<Rightarrow> logGroups \<Rightarrow> bestParent option" where
  "selectParent sha256 rootHashes idx candidates groups =
     fold (\<lambda>ci. fold (considerChain sha256 rootHashes groups ci) (chainsOf ci idx)) candidates None"

text \<open>One row of the table: the key and the hash chosen per context, in the order of the columns.\<close>

record parentsRow =
  or_SKI :: string
  or_Parents :: "string list"

definition parentColumn :: "bestParent option \<Rightarrow> string" where
  "parentColumn best = (case best of None \<Rightarrow> [] | Some b \<Rightarrow> hexUpper (bp_CertHash b))"

definition optimalRow ::
  "(bytes \<Rightarrow> bytes) \<Rightarrow> (bytes \<Rightarrow> bytes set) \<Rightarrow> skiIndex \<Rightarrow> logGroups list \<Rightarrow> string \<times> certInfo list \<Rightarrow> parentsRow" where
  "optimalRow sha256 rootHashes idx contextGroups entry =
     \<lparr>or_SKI = toUpper (fst entry),
      or_Parents = map (\<lambda>groups. parentColumn (selectParent sha256 rootHashes idx (snd entry) groups)) contextGroups\<rparr>"

definition csvHeader :: "string list" where
  "csvHeader = [''Authority Key Identifier'', ''Parent (Usable TLS)'', ''Parent (Active TLS)'', ''Parent (Test TLS)'', ''Parent (Usable BIMI)'']"

text \<open>What the tool takes from loglists and ctloglists: the four contexts and the accepted roots.\<close>

record rootsInput =
  ri_UsableTLSLogs :: "logList option"
  ri_ActiveTLSLogs :: "logList option"
  ri_TestTLSLogs :: "logList option"
  ri_UsableBIMILogs :: "logList option"
  ri_LogAcceptedRoots :: "bytes \<Rightarrow> bytes option"
  ri_AcceptedRoots :: "bytes \<Rightarrow> bytes list option"

definition contexts :: "rootsInput \<Rightarrow> logList option list" where
  "contexts ri = [ri_UsableTLSLogs ri, ri_ActiveTLSLogs ri, ri_TestTLSLogs ri, ri_UsableBIMILogs ri]"

definition optimalRows :: "ccadbLib \<Rightarrow> rootsInput \<Rightarrow> skiIndex \<Rightarrow> parentsRow list" where
  "optimalRows lib ri idx =
     (let contextGroups = map (contextLogGroups (cl_sha256 lib) (ri_LogAcceptedRoots ri)) (contexts ri);
          rootHashes = rootHashSet (cl_sha256 lib) (ri_AcceptedRoots ri)
      in sort_key or_SKI (filter (\<lambda>r. \<exists>p \<in> set (or_Parents r). p \<noteq> [])
           (map (optimalRow (cl_sha256 lib) rootHashes idx contextGroups) idx)))"

text \<open>The file is written in one go, or creating or flushing it fails.\<close>

definition writeOptimalParents :: "go_error option \<Rightarrow> go_error option \<Rightarrow> parentsRow list \<Rightarrow> string outcome" where
  "writeOptimalParents create flush rows =
     (case create of
        Some e \<Rightarrow> Err (Errorf (''Failed to create output file: '' @ errorString e))
      | None \<Rightarrow>
          let csv = WriteAll (csvHeader # map (\<lambda>r. or_SKI r # or_Parents r) rows) in
          (case flush of
             Some e \<Rightarrow> Err (Errorf (''Failed to write CSV: '' @ errorString e))
           | None \<Rightarrow> Ok csv))"

text \<open>main: the text of the CSV file that is written.\<close>

definition optimalParents ::
  "ccadbLib \<Rightarrow> rootsInput \<Rightarrow> go_error + dirEntry list \<Rightarrow> go_error option \<Rightarrow> go_error option \<Rightarrow> string outcome" where
  "optimalParents lib ri readDir create flush =
     (case loadCCADBCerts lib readDir of
        Ok allCerts \<Rightarrow> writeOptimalParents create flush (optimalRows lib ri (certsBySKI allCerts))
      | Err e \<Rightarrow> Err e
      | Panic \<Rightarrow> Panic)"

section \<open>What is chosen\<close>

text \<open>The score of a root is the number of the context's logs that accept it.\<close>

definition acceptingLogs :: "ccadbLib \<Rightarrow> rootsInput \<Rightarrow> logList option \<Rightarrow> bytes \<Rightarrow> nat" where
  "acceptingLogs lib ri ctx rootHash =
     length (filter (\<lambda>logID. \<exists>pool. ri_LogAcceptedRoots ri logID = Some pool \<and>
       rootHash \<in> rootHashSet (cl_sha256 lib) (ri_AcceptedRoots ri) pool) (forEachLog (cl_sha256 lib) ctx))"

lemma scoreOf_sum:
  "scoreOf rootHashes groups h = sum_list (map (\<lambda>(rh, n). if h \<in> rootHashes rh then n else 0) groups)"
proof -
  have "fold (\<lambda>(rh, n) score. if h \<in> rootHashes rh then score + n else score) groups a =
      a + sum_list (map (\<lambda>(rh, n). if h \<in> rootHashes rh then n else 0) groups)" for a :: int
    by (induction groups arbitrary: a) auto
  then show ?thesis by (simp add: scoreOf_def)
qed

lemma scoreOf_update:
  "scoreOf rootHashes (AList.update k v groups) h = scoreOf rootHashes groups h +
     (if h \<in> rootHashes k then v - (case map_of groups k of None \<Rightarrow> 0 | Some n \<Rightarrow> n) else 0)"
  unfolding scoreOf_sum by (induction groups) auto

lemma scoreOf_countLog:
  "scoreOf rootHashes (countLog lar logID groups) h = scoreOf rootHashes groups h +
     (if \<exists>pool. lar logID = Some pool \<and> h \<in> rootHashes pool then 1 else 0)"
  by (auto simp: countLog_def scoreOf_update split: option.split)

lemma scoreOf_groups:
  "scoreOf (rootHashSet (cl_sha256 lib) (ri_AcceptedRoots ri))
     (contextLogGroups (cl_sha256 lib) (ri_LogAcceptedRoots ri) ctx) h = int (acceptingLogs lib ri ctx h)"
proof -
  let ?rs = "rootHashSet (cl_sha256 lib) (ri_AcceptedRoots ri)"
  have "scoreOf ?rs (fold (countLog (ri_LogAcceptedRoots ri)) ids groups) h = scoreOf ?rs groups h +
      int (length (filter (\<lambda>logID. \<exists>pool. ri_LogAcceptedRoots ri logID = Some pool \<and> h \<in> ?rs pool) ids))" for ids groups
    by (induction ids arbitrary: groups) (simp_all add: scoreOf_countLog)
  then show ?thesis by (simp add: contextLogGroups_def acceptingLogs_def scoreOf_def)
qed

text \<open>The order of preference: more logs, then a shorter chain, then a later expiry, then the smaller hash.\<close>

definition ranksAbove :: "bestParent \<Rightarrow> bestParent \<Rightarrow> bool" where
  "ranksAbove a b \<longleftrightarrow>
     bp_Score b < bp_Score a \<or> bp_Score a = bp_Score b \<and>
       (bp_ChainLen a < bp_ChainLen b \<or> bp_ChainLen a = bp_ChainLen b \<and>
         (bp_NotAfter b < bp_NotAfter a \<or> bp_NotAfter a = bp_NotAfter b \<and> bp_CertHash a < bp_CertHash b))"

definition offerOf :: "(bytes \<Rightarrow> int) \<Rightarrow> certInfo \<Rightarrow> bytes \<Rightarrow> nat \<Rightarrow> bestParent" where
  "offerOf score ci rootHash n =
     \<lparr>bp_Score = score rootHash, bp_ChainLen = n, bp_NotAfter = x5_NotAfter (ci_cert ci), bp_CertHash = ci_sha256 ci\<rparr>"

lemma betterParent_ranks: "betterParent (score h) n ci (Some b) \<longleftrightarrow> ranksAbove (offerOf score ci h n) b"
  by (auto simp: betterParent_def ranksAbove_def offerOf_def)

lemma ranksAbove_irrefl: "\<not> ranksAbove a a"
  by (simp add: ranksAbove_def)

lemma ranksAbove_neg_trans: "\<not> ranksAbove x b \<Longrightarrow> ranksAbove a b \<Longrightarrow> \<not> ranksAbove x a"
  by (auto simp: ranksAbove_def)

text \<open>The best of a list of offers, each a certificate with a chain.\<close>

definition bestOf :: "(bytes \<Rightarrow> bytes) \<Rightarrow> (bytes \<Rightarrow> int) \<Rightarrow> (certInfo \<times> bytes list) set \<Rightarrow> bestParent option \<Rightarrow> bool" where
  "bestOf sha256 score offers best \<longleftrightarrow>
     (case best of
        None \<Rightarrow> \<forall>(ci, chain) \<in> offers. score (sha256 (last chain)) \<le> 0
      | Some b \<Rightarrow>
          (\<exists>(ci, chain) \<in> offers. 0 < score (sha256 (last chain)) \<and> b = offerOf score ci (sha256 (last chain)) (length chain)) \<and>
          (\<forall>(ci, chain) \<in> offers. 0 < score (sha256 (last chain)) \<longrightarrow>
             \<not> ranksAbove (offerOf score ci (sha256 (last chain)) (length chain)) b))"

lemma considerChain_best:
  assumes "bestOf sha256 (scoreOf rootHashes groups) offers best"
  shows "bestOf sha256 (scoreOf rootHashes groups) (insert (ci, chain) offers) (considerChain sha256 rootHashes groups ci chain best)"
proof -
  let ?score = "scoreOf rootHashes groups"
  let ?h = "sha256 (last chain)"
  let ?o = "offerOf ?score ci ?h (length chain)"
  have c: "considerChain sha256 rootHashes groups ci chain best =
      (if 0 < ?score ?h \<and> betterParent (?score ?h) (length chain) ci best then Some ?o else best)"
    by (simp add: considerChain_def offerOf_def Let_def)
  show ?thesis
  proof (cases best)
    case None
    then show ?thesis unfolding c using assms ranksAbove_irrefl [of ?o]
      by (cases "0 < ?score ?h") (auto simp: bestOf_def betterParent_def)
  next
    case (Some b)
    then have b: "betterParent (?score ?h) (length chain) ci best \<longleftrightarrow> ranksAbove ?o b" by (simp add: betterParent_ranks)
    show ?thesis unfolding c b using assms Some ranksAbove_irrefl [of ?o] ranksAbove_neg_trans [of _ b ?o]
      by (cases "0 < ?score ?h \<and> ranksAbove ?o b") (auto simp: bestOf_def)
  qed
qed

lemma fold_consider_best:
  "bestOf sha256 (scoreOf rootHashes groups) offers best \<Longrightarrow>
     bestOf sha256 (scoreOf rootHashes groups) (Pair ci ` set chs \<union> offers)
       (fold (considerChain sha256 rootHashes groups ci) chs best)"
proof (induction chs arbitrary: best offers)
  case Nil
  then show ?case by simp
next
  case (Cons chain chs)
  from Cons.IH [OF considerChain_best [OF Cons.prems, of ci chain]] show ?case by simp
qed

lemma selectParent_best:
  "bestOf sha256 (scoreOf rootHashes groups) {(ci, chain). ci \<in> set candidates \<and> chain \<in> set (chainsOf ci idx)}
     (selectParent sha256 rootHashes idx candidates groups)"
proof -
  have "bestOf sha256 (scoreOf rootHashes groups) ({(ci, chain). ci \<in> set cs \<and> chain \<in> set (chainsOf ci idx)} \<union> offers)
      (fold (\<lambda>ci. fold (considerChain sha256 rootHashes groups ci) (chainsOf ci idx)) cs best)"
    if "bestOf sha256 (scoreOf rootHashes groups) offers best" for cs offers best
    using that
  proof (induction cs arbitrary: offers best)
    case Nil
    then show ?case by simp
  next
    case (Cons ci cs)
    have "{(ci', chain). ci' \<in> set (ci # cs) \<and> chain \<in> set (chainsOf ci' idx)} \<union> offers =
        {(ci', chain). ci' \<in> set cs \<and> chain \<in> set (chainsOf ci' idx)} \<union> (Pair ci ` set (chainsOf ci idx) \<union> offers)" by auto
    with Cons.IH [OF fold_consider_best [OF Cons.prems, of ci "chainsOf ci idx"]] show ?case by simp
  qed
  from this [of "{}" None candidates] show ?thesis by (simp add: selectParent_def bestOf_def)
qed

section \<open>The choice in terms of climbing\<close>

text \<open>The root a certificate reaches in n certificates; one that reaches no root stands for itself.\<close>

definition reaches :: "skiIndex \<Rightarrow> certInfo \<Rightarrow> certInfo \<Rightarrow> nat \<Rightarrow> bool" where
  "reaches idx ci r n \<longleftrightarrow>
     (if isSelfSigned ci then r = ci \<and> n = 1
      else (\<exists>cs. rootedChain idx ci cs r \<and> n = length cs + 1) \<or>
           (\<nexists>cs r'. rootedChain idx ci cs r') \<and> r = ci \<and> n = 1)"

lemma loaded_inj:
  assumes "loadCCADBCerts lib readDir = Ok certs" and "ci \<in> set certs"
  shows "inj_on ci_sha256 (insert ci (certsOf (certsBySKI certs)))"
proof -
  have "inj_on ci_sha256 (set certs)" using loadCCADBCerts_ok(1) [OF assms(1)] by (simp add: distinct_map)
  moreover have "insert ci (certsOf (certsBySKI certs)) \<subseteq> set certs" using certsOf_certsBySKI assms(2) by auto
  ultimately show ?thesis by (rule inj_on_subset)
qed

lemma chainsOf_sound:
  assumes "inj_on ci_sha256 (insert ci (certsOf idx))" and "chain \<in> set (chainsOf ci idx)"
  shows "\<exists>r \<in> insert ci (certsOf idx). reaches idx ci r (length chain) \<and> last chain = ci_raw r"
proof (cases "isSelfSigned ci")
  case True
  then show ?thesis using assms(2) by (auto simp: chainsOf_def reaches_def)
next
  case False
  obtain found where f: "list_all (shortestTo idx ci) found" "\<forall>cs r. rootedChain idx ci cs r \<longrightarrow> r \<in> snd ` set found"
    "buildChains ci idx = (if found = [] then [[ci_raw ci]] else map ders found)"
    using buildChains_spec [OF assms(1) False] by metis
  show ?thesis
  proof (cases "found = []")
    case True
    then show ?thesis using f assms(2) False by (auto simp: chainsOf_def reaches_def)
  next
    case found: False
    then obtain cs r where cs: "(cs, r) \<in> set found" "chain = ders (cs, r)" using f(3) assms(2) False by (auto simp: chainsOf_def)
    then have "rootedChain idx ci cs r" using f(1) by (auto simp: list_all_iff shortestTo_def)
    moreover from this have "r \<in> certsOf idx" using findParents_certsOf by (auto simp: rootedChain_def)
    ultimately show ?thesis using False cs(2) by (auto simp: reaches_def ders_def)
  qed
qed

lemma chainsOf_complete:
  assumes "inj_on ci_sha256 (insert ci (certsOf idx))" and "reaches idx ci r n"
  shows "\<exists>chain \<in> set (chainsOf ci idx). last chain = ci_raw r \<and> length chain \<le> n"
proof (cases "isSelfSigned ci")
  case True
  then show ?thesis using assms(2) by (auto simp: chainsOf_def reaches_def)
next
  case False
  obtain found where f: "list_all (shortestTo idx ci) found" "\<forall>cs r. rootedChain idx ci cs r \<longrightarrow> r \<in> snd ` set found"
    "buildChains ci idx = (if found = [] then [[ci_raw ci]] else map ders found)"
    using buildChains_spec [OF assms(1) False] by metis
  consider cs where "rootedChain idx ci cs r" "n = length cs + 1" | "\<nexists>cs r'. rootedChain idx ci cs r'" "r = ci" "n = 1"
    using assms(2) False by (auto simp: reaches_def)
  then show ?thesis
  proof cases
    case (1 cs)
    then have "r \<in> snd ` set found" using f(2) by blast
    then obtain cs' where cs': "(cs', r) \<in> set found" by auto
    then have "length cs' \<le> length cs" using 1(1) f(1) by (auto simp: list_all_iff shortestTo_def)
    moreover have "ders (cs', r) \<in> set (chainsOf ci idx)" using cs' f(3) False by (auto simp: chainsOf_def)
    ultimately show ?thesis using 1(2) by (intro bexI [of _ "ders (cs', r)"]) (simp_all add: ders_def)
  next
    case 2
    have "found = []" using f(1) 2(1) by (cases found) (auto simp: shortestTo_def)
    then show ?thesis using f(3) 2 False by (simp add: chainsOf_def)
  qed
qed

text \<open>The choice for a key in a context, and its specification over the certificates of the key.\<close>

definition chosenParent :: "ccadbLib \<Rightarrow> rootsInput \<Rightarrow> certInfo list \<Rightarrow> logList option \<Rightarrow> bytes \<Rightarrow> bestParent option" where
  "chosenParent lib ri certs ctx key =
     selectParent (cl_sha256 lib) (rootHashSet (cl_sha256 lib) (ri_AcceptedRoots ri)) (certsBySKI certs)
       (bySKI (certsBySKI certs) (hexEncode key))
       (contextLogGroups (cl_sha256 lib) (ri_LogAcceptedRoots ri) ctx)"

definition parentOffer :: "ccadbLib \<Rightarrow> rootsInput \<Rightarrow> certInfo list \<Rightarrow> logList option \<Rightarrow> bytes \<Rightarrow> bestParent \<Rightarrow> bool" where
  "parentOffer lib ri certs ctx key b \<longleftrightarrow>
     (\<exists>ci r n. ci \<in> set certs \<and> keyBytes (x5_SubjectKeyId (ci_cert ci)) = key \<and> key \<noteq> [] \<and> reaches (certsBySKI certs) ci r n \<and>
        0 < acceptingLogs lib ri ctx (ci_sha256 r) \<and>
        b = offerOf (\<lambda>h. int (acceptingLogs lib ri ctx h)) ci (ci_sha256 r) n)"

lemma chosenParent_candidates:
  "set (bySKI (certsBySKI certs) (hexEncode key)) = {ci \<in> set certs. keyBytes (x5_SubjectKeyId (ci_cert ci)) = key \<and> key \<noteq> []}"
  by (auto simp: bySKI_certsBySKI)

lemma ranksAbove_shorter:
  "n \<le> n' \<Longrightarrow> ranksAbove (offerOf score ci h n') b \<Longrightarrow> ranksAbove (offerOf score ci h n) b"
  by (auto simp: ranksAbove_def offerOf_def)

lemma chosenParent_best:
  assumes "loadCCADBCerts lib readDir = Ok certs"
  shows "case chosenParent lib ri certs ctx key of
      None \<Rightarrow> \<nexists>b. parentOffer lib ri certs ctx key b
    | Some b \<Rightarrow> parentOffer lib ri certs ctx key b \<and> (\<nexists>b'. parentOffer lib ri certs ctx key b' \<and> ranksAbove b' b)"
proof -
  let ?idx = "certsBySKI certs" and ?score = "\<lambda>h. int (acceptingLogs lib ri ctx h)"
  let ?cands = "bySKI ?idx (hexEncode key)" and ?sha = "cl_sha256 lib"
  let ?offers = "{(ci, chain). ci \<in> set ?cands \<and> chain \<in> set (chainsOf ci ?idx)}"
  have score: "scoreOf (rootHashSet ?sha (ri_AcceptedRoots ri)) (contextLogGroups ?sha (ri_LogAcceptedRoots ri) ctx) = ?score"
    by (rule ext) (rule scoreOf_groups)
  have best: "bestOf ?sha ?score ?offers (chosenParent lib ri certs ctx key)"
    unfolding chosenParent_def score [symmetric] by (rule selectParent_best)
  note cands = chosenParent_candidates [of certs key]
  have hash: "?sha (ci_raw r) = ci_sha256 r" if "r \<in> insert ci (certsOf ?idx)" "ci \<in> set certs" for ci r
  proof -
    have "r \<in> set certs" using that certsOf_certsBySKI by auto
    then show ?thesis using loadCCADBCerts_ok(2) [OF assms] by simp
  qed
  have sound: "parentOffer lib ri certs ctx key (offerOf ?score ci (?sha (last chain)) (length chain))"
    if o: "(ci, chain) \<in> ?offers" "0 < ?score (?sha (last chain))" for ci chain
  proof -
    have ci: "ci \<in> set certs" "keyBytes (x5_SubjectKeyId (ci_cert ci)) = key" "key \<noteq> []" using o(1) cands by auto
    obtain r where "r \<in> insert ci (certsOf ?idx)" "reaches ?idx ci r (length chain)" "last chain = ci_raw r"
      using chainsOf_sound [OF loaded_inj [OF assms ci(1)]] o(1) by blast
    then show ?thesis using ci o(2) hash [of r ci] unfolding parentOffer_def by (intro exI [of _ ci] exI [of _ r] exI [of _ "length chain"]) simp
  qed
  have complete: "\<exists>chain. (ci, chain) \<in> ?offers \<and> ?sha (last chain) = ci_sha256 r \<and> length chain \<le> n"
    if ci: "ci \<in> set certs" "keyBytes (x5_SubjectKeyId (ci_cert ci)) = key" "key \<noteq> []" and r: "reaches ?idx ci r n" for ci r n
  proof -
    obtain chain where chain: "chain \<in> set (chainsOf ci ?idx)" "last chain = ci_raw r" "length chain \<le> n"
      using chainsOf_complete [OF loaded_inj [OF assms ci(1)] r] by blast
    have "r \<in> insert ci (certsOf ?idx)"
      using r findParents_certsOf by (auto simp: reaches_def rootedChain_def split: if_splits)
    with chain ci cands hash [of r ci] show ?thesis by auto
  qed
  show ?thesis
  proof (cases "chosenParent lib ri certs ctx key")
    case None
    have "False" if offer: "parentOffer lib ri certs ctx key b" for b
    proof -
      obtain ci r n where ci: "ci \<in> set certs" "keyBytes (x5_SubjectKeyId (ci_cert ci)) = key" "key \<noteq> []" "reaches ?idx ci r n"
        "0 < acceptingLogs lib ri ctx (ci_sha256 r)" using offer by (auto simp: parentOffer_def)
      obtain chain where "(ci, chain) \<in> ?offers" "?sha (last chain) = ci_sha256 r" using complete [OF ci(1-4)] by blast
      then show False using best None ci(5) by (force simp: bestOf_def)
    qed
    then show ?thesis using None by auto
  next
    case (Some b)
    have "\<not> ranksAbove b' b" if offer: "parentOffer lib ri certs ctx key b'" for b'
    proof
      assume above: "ranksAbove b' b"
      obtain ci r n where ci: "ci \<in> set certs" "keyBytes (x5_SubjectKeyId (ci_cert ci)) = key" "key \<noteq> []" "reaches ?idx ci r n"
        "0 < acceptingLogs lib ri ctx (ci_sha256 r)" "b' = offerOf ?score ci (ci_sha256 r) n"
        using offer by (auto simp: parentOffer_def)
      obtain chain where chain: "(ci, chain) \<in> ?offers" "?sha (last chain) = ci_sha256 r" "length chain \<le> n"
        using complete [OF ci(1-4)] by blast
      have "ranksAbove (offerOf ?score ci (?sha (last chain)) (length chain)) b"
        using ranksAbove_shorter [OF chain(3)] above ci(6) chain(2) by simp
      then show False using best Some chain(1,2) ci(5) by (force simp: bestOf_def)
    qed
    moreover have "parentOffer lib ri certs ctx key b" using best Some sound by (auto simp: bestOf_def)
    ultimately show ?thesis using Some by auto
  qed
qed

section \<open>The table that is written and read\<close>

lemma toUpper_hexUpper [simp]: "toUpper (hexUpper bs) = hexUpper bs"
proof -
  have "toUpperChar (toUpperChar (hexDigit n)) = toUpperChar (hexDigit n)" if "n < 16" for n
    using that by (auto simp: toUpperChar_def hexDigit_def Let_def)
  then show ?thesis using byte_nibbles by (simp add: hexUpper_def toUpper_def hexEncode_def map_concat o_def)
qed

lemma hexUpper_inject [simp]: "hexUpper a = hexUpper b \<longleftrightarrow> a = b"
  by (metis hexDecode_hexUpper option.inject)

lemma hexUpper_Nil_iff [simp]: "hexUpper bs = [] \<longleftrightarrow> bs = []"
  using hexUpper_inject [of bs "[]"] by (simp add: hexUpper_def toUpper_def hexEncode_def del: hexUpper_inject)

definition columnOf :: "bestParent option \<Rightarrow> bytes" where
  "columnOf best = (case best of None \<Rightarrow> zeroHash | Some b \<Rightarrow> bp_CertHash b)"

lemma columnHash_parentColumn:
  "(\<And>b. best = Some b \<Longrightarrow> length (bp_CertHash b) = 32) \<Longrightarrow> columnHash (parentColumn best) = columnOf best"
  by (cases best) (auto simp: columnHash_def parentColumn_def columnOf_def hexDecode_hexUpper)

text \<open>The row of a key in the table the server loads.\<close>

definition tableRow :: "ccadbLib \<Rightarrow> rootsInput \<Rightarrow> certInfo list \<Rightarrow> bytes \<Rightarrow> parentHashes" where
  "tableRow lib ri certs key =
     \<lparr>ph_UsableTLS = columnOf (chosenParent lib ri certs (ri_UsableTLSLogs ri) key),
      ph_ActiveTLS = columnOf (chosenParent lib ri certs (ri_ActiveTLSLogs ri) key),
      ph_TestTLS = columnOf (chosenParent lib ri certs (ri_TestTLSLogs ri) key),
      ph_UsableBIMI = columnOf (chosenParent lib ri certs (ri_UsableBIMILogs ri) key)\<rparr>"

definition rowOf :: "ccadbLib \<Rightarrow> rootsInput \<Rightarrow> certInfo list \<Rightarrow> bytes \<Rightarrow> parentsRow" where
  "rowOf lib ri certs key =
     \<lparr>or_SKI = hexUpper key, or_Parents = map (\<lambda>ctx. parentColumn (chosenParent lib ri certs ctx key)) (contexts ri)\<rparr>"

lemma indexCert_keys:
  "fst ` set idx \<subseteq> hexEncode ` (- {[]}) \<Longrightarrow> fst ` set (indexCert ci idx) \<subseteq> hexEncode ` (- {[]})"
  by (cases "keyBytes (x5_SubjectKeyId (ci_cert ci)) = []") (simp_all add: indexCert_def Let_def dom_update)

lemma certsBySKI_entries:
  assumes "entry \<in> set (certsBySKI certs)"
  shows "\<exists>key. entry = (hexEncode key, bySKI (certsBySKI certs) (hexEncode key)) \<and> key \<noteq> []"
proof -
  have "fst ` set (fold indexCert cs idx) \<subseteq> hexEncode ` (- {[]})" if "fst ` set idx \<subseteq> hexEncode ` (- {[]})" for cs idx
    using that by (induction cs arbitrary: idx) (simp_all add: indexCert_keys)
  from this [of "[]" certs] obtain key where key: "fst entry = hexEncode key" "key \<noteq> []"
    using assms by (auto simp: certsBySKI_def)
  have "distinct (map fst (certsBySKI certs))" using distinct_fold_index [of "[]"] by (simp add: certsBySKI_def)
  then have "snd entry = bySKI (certsBySKI certs) (hexEncode key)"
    using assms key(1) by (cases entry) (simp add: bySKI_def)
  then show ?thesis using key by (metis prod.collapse)
qed

text \<open>The rows that are written: one per key that has a parent in some context.\<close>

definition hasParent :: "ccadbLib \<Rightarrow> rootsInput \<Rightarrow> certInfo list \<Rightarrow> bytes \<Rightarrow> bool" where
  "hasParent lib ri certs key \<longleftrightarrow> (\<exists>ctx \<in> set (contexts ri). chosenParent lib ri certs ctx key \<noteq> None)"

lemma optimalRow_rowOf:
  "optimalRow (cl_sha256 lib) (rootHashSet (cl_sha256 lib) (ri_AcceptedRoots ri)) (certsBySKI certs)
      (map (contextLogGroups (cl_sha256 lib) (ri_LogAcceptedRoots ri)) (contexts ri))
      (hexEncode key, bySKI (certsBySKI certs) (hexEncode key)) = rowOf lib ri certs key"
  by (simp add: optimalRow_def rowOf_def chosenParent_def hexUpper_def)

lemma chosenParent_unknown:
  "hexEncode key \<notin> fst ` set (certsBySKI certs) \<Longrightarrow> chosenParent lib ri certs ctx key = None"
  by (simp add: chosenParent_def selectParent_def bySKI_def map_of_eq_None_iff [THEN iffD2])

lemma chosenParent_hash:
  assumes "loadCCADBCerts lib readDir = Ok certs" and "\<forall>bs. length (cl_sha256 lib bs) = 32"
    and "chosenParent lib ri certs ctx key = Some b"
  shows "length (bp_CertHash b) = 32"
proof -
  have "parentOffer lib ri certs ctx key b" using chosenParent_best [OF assms(1), of ri ctx key] assms(3) by simp
  then obtain ci where "ci \<in> set certs" "bp_CertHash b = ci_sha256 ci" by (auto simp: parentOffer_def offerOf_def)
  then show ?thesis using loadCCADBCerts_ok(2) [OF assms(1)] assms(2) by simp
qed

lemma optimalRows_set:
  assumes "loadCCADBCerts lib readDir = Ok certs" and "\<forall>bs. length (cl_sha256 lib bs) = 32"
  shows "set (optimalRows lib ri (certsBySKI certs)) = rowOf lib ri certs ` {key. hasParent lib ri certs key}"
    and "distinct (map or_SKI (optimalRows lib ri (certsBySKI certs)))"
proof -
  let ?idx = "certsBySKI certs"
  let ?row = "optimalRow (cl_sha256 lib) (rootHashSet (cl_sha256 lib) (ri_AcceptedRoots ri)) ?idx
      (map (contextLogGroups (cl_sha256 lib) (ri_LogAcceptedRoots ri)) (contexts ri))"
  let ?P = "\<lambda>r. \<exists>p \<in> set (or_Parents r). p \<noteq> []"
  have rows: "optimalRows lib ri ?idx = sort_key or_SKI (filter ?P (map ?row ?idx))"
    by (simp add: optimalRows_def)
  have row: "\<exists>key. entry = (hexEncode key, bySKI ?idx (hexEncode key)) \<and> ?row entry = rowOf lib ri certs key"
    if "entry \<in> set ?idx" for entry
    using certsBySKI_entries [OF that] optimalRow_rowOf [of lib ri certs] by fastforce
  have known: "(hexEncode key, bySKI ?idx (hexEncode key)) \<in> set ?idx" if "hasParent lib ri certs key" for key
  proof -
    have "hexEncode key \<in> fst ` set ?idx" using that chosenParent_unknown by (fastforce simp: hasParent_def)
    then obtain entry where entry: "entry \<in> set ?idx" "fst entry = hexEncode key" by auto
    then show ?thesis using row [OF entry(1)] by auto
  qed
  have P: "?P (rowOf lib ri certs key) \<longleftrightarrow> hasParent lib ri certs key" for key
  proof -
    have "parentColumn (chosenParent lib ri certs ctx key) \<noteq> [] \<longleftrightarrow> chosenParent lib ri certs ctx key \<noteq> None" for ctx
      using chosenParent_hash [OF assms, of ri ctx key] by (auto simp: parentColumn_def split: option.split)
    then show ?thesis by (simp add: rowOf_def hasParent_def)
  qed
  have "r \<in> set (filter ?P (map ?row ?idx)) \<longleftrightarrow> r \<in> rowOf lib ri certs ` {key. hasParent lib ri certs key}" for r
  proof
    assume "r \<in> set (filter ?P (map ?row ?idx))"
    then obtain entry where e: "entry \<in> set ?idx" "r = ?row entry" "?P r" by auto
    then obtain key where "r = rowOf lib ri certs key" using row [OF e(1)] by auto
    then show "r \<in> rowOf lib ri certs ` {key. hasParent lib ri certs key}" using e(3) P by blast
  next
    assume "r \<in> rowOf lib ri certs ` {key. hasParent lib ri certs key}"
    then obtain key where k: "r = rowOf lib ri certs key" "hasParent lib ri certs key" by blast
    have "r = ?row (hexEncode key, bySKI ?idx (hexEncode key))" using optimalRow_rowOf [of lib ri certs key] k(1) by simp
    then have "r \<in> set (map ?row ?idx)" using known [OF k(2)] by auto
    moreover have "?P r" using P k by simp
    ultimately show "r \<in> set (filter ?P (map ?row ?idx))" by simp
  qed
  then show "set (optimalRows lib ri ?idx) = rowOf lib ri certs ` {key. hasParent lib ri certs key}"
    unfolding rows set_sort by blast
  have "inj_on (toUpper \<circ> fst) (set ?idx)"
  proof (rule inj_onI)
    fix x y
    assume xy: "x \<in> set ?idx" "y \<in> set ?idx" "(toUpper \<circ> fst) x = (toUpper \<circ> fst) y"
    obtain k l where "x = (hexEncode k, bySKI ?idx (hexEncode k))" "y = (hexEncode l, bySKI ?idx (hexEncode l))"
      using certsBySKI_entries [OF xy(1)] certsBySKI_entries [OF xy(2)] by auto
    then show "x = y" using xy(3) hexUpper_inject [of k l] by (simp add: hexUpper_def del: hexUpper_inject)
  qed
  moreover have "distinct ?idx" using distinct_fold_index [of "[]"] by (simp add: certsBySKI_def distinct_map)
  ultimately have "distinct (map (toUpper \<circ> fst) ?idx)" by (simp add: distinct_map)
  then have "distinct (map or_SKI (map ?row ?idx))" by (simp add: o_def optimalRow_def)
  then have "distinct (map or_SKI (filter ?P (map ?row ?idx)))" by (rule distinct_map_filter)
  then show "distinct (map or_SKI (optimalRows lib ri ?idx))"
    unfolding rows by (simp add: distinct_map)
qed

lemma map_filter_all: "(\<And>x. x \<in> set xs \<Longrightarrow> f (h x) = Some (g x)) \<Longrightarrow> List.map_filter f (map h xs) = map g xs"
  by (induction xs) (simp_all add: List.map_filter_simps)

text \<open>The rows are read back from the text as they were written.\<close>

lemma hexUpper_digits: "c \<in> set (hexUpper bs) \<Longrightarrow> hexValue c \<noteq> None"
proof (induction bs)
  case (Cons b bs)
  then show ?case using hexValue_digit(2) [OF byte_nibbles(1) [of b]] hexValue_digit(2) [OF byte_nibbles(2) [of b]]
    by (auto simp: hexEncode_def hexUpper_def toUpper_def)
qed (simp add: hexEncode_def hexUpper_def toUpper_def)

lemma hexUpper_no_CR: "CHR 0x0D \<notin> set (hexUpper bs)"
proof
  assume "CHR 0x0D \<in> set (hexUpper bs)"
  from hexUpper_digits [OF this] show False by (simp add: hexValue_def)
qed

lemma written_rows:
  assumes "loadCCADBCerts lib readDir = Ok certs" and "\<forall>bs. length (cl_sha256 lib bs) = 32"
  shows "list_all (writable 5) (csvHeader # map (\<lambda>r. or_SKI r # or_Parents r) (optimalRows lib ri (certsBySKI certs)))"
proof -
  have "writable 5 (or_SKI (rowOf lib ri certs key) # or_Parents (rowOf lib ri certs key))" for key
    by (simp add: writable_def rowOf_def contexts_def parentColumn_def hexUpper_no_CR split: option.split)
  moreover have "writable 5 csvHeader" by (simp add: writable_def csvHeader_def)
  ultimately show ?thesis
    using optimalRows_set(1) [OF assms, of ri] by (simp add: list_all_iff)
qed

text \<open>What the server loads of what the tool has written.\<close>

lemma loaded_table:
  assumes "loadCCADBCerts lib readDir = Ok certs" and "\<forall>bs. length (cl_sha256 lib bs) = 32"
    and "optimalParents lib ri readDir create flush = Ok csv"
  shows "map_of (loadOptimalParents (Inr csv)) (hexUpper key) =
    (if hasParent lib ri certs key then Some (tableRow lib ri certs key) else None)"
proof -
  let ?rows = "optimalRows lib ri (certsBySKI certs)"
  let ?rec = "\<lambda>r. or_SKI r # or_Parents r"
  have "csv = WriteAll (csvHeader # map ?rec ?rows)"
    using assms(1,3) by (auto simp: optimalParents_def writeOptimalParents_def Let_def split: option.splits)
  then have recs: "ReadAll NewReader csv = Inr (csvHeader # map ?rec ?rows)"
    using ReadAll_WriteAll [OF written_rows [OF assms(1,2)]] by simp
  have parsed: "parentRow (?rec (rowOf lib ri certs k)) = Some (hexUpper k, tableRow lib ri certs k)" for k
    using chosenParent_hash [OF assms(1,2), of ri _ k]
    by (simp add: parentRow_def rowOf_def contexts_def tableRow_def columnHash_parentColumn)
  let ?g = "\<lambda>r. (or_SKI r, the (map_option snd (parentRow (?rec r))))"
  have "parentRow (?rec r) = Some (?g r)" if "r \<in> set ?rows" for r
    using that parsed unfolding optimalRows_set(1) [OF assms(1,2)] by (auto simp: rowOf_def)
  then have "List.map_filter parentRow (map ?rec ?rows) = map ?g ?rows"
    by (rule map_filter_all)
  then have table: "loadOptimalParents (Inr csv) = rev (map ?g ?rows)"
    by (simp add: recs loadOptimalParents_def)
  have dist: "distinct (map fst (loadOptimalParents (Inr csv)))"
    using optimalRows_set(2) [OF assms(1,2), of ri] by (simp add: table o_def flip: rev_map)
  have mem: "(hexUpper key, v) \<in> set (loadOptimalParents (Inr csv)) \<longleftrightarrow>
      hasParent lib ri certs key \<and> v = tableRow lib ri certs key" for v
  proof -
    have row: "?g (rowOf lib ri certs k) = (hexUpper k, tableRow lib ri certs k)" for k by (simp add: parsed) (simp add: rowOf_def)
    have "set (loadOptimalParents (Inr csv)) = (\<lambda>k. (hexUpper k, tableRow lib ri certs k)) ` {k. hasParent lib ri certs k}"
      unfolding table set_rev set_map optimalRows_set(1) [OF assms(1,2)] image_image by (rule image_cong [OF refl]) (rule row)
    then show ?thesis by auto
  qed
  show ?thesis using mem map_of_eq_Some_iff [OF dist, of "hexUpper key"]
    by (cases "map_of (loadOptimalParents (Inr csv)) (hexUpper key)") auto
qed

section \<open>Properties\<close>

text \<open>
  An example: roots [1, 1] and [3, 3], the certificates [2, 1] and [2, 3] of one intermediate, and
  [4, 2] below it; a certificate is its subject and issuer keys. Two usable logs accept only the
  first root, a third one only the second.
\<close>

definition exHash :: "bytes \<Rightarrow> bytes" where
  "exHash bs = take 32 (bs @ replicate 32 0)"

definition exCCADB :: ccadbLib where
  "exCCADB = \<lparr>cl_sha256 = exHash,
     cl_pemDecode = (\<lambda>s. case s of
        [CHR ''a''] \<Rightarrow> Some [1, 1] | [CHR ''b''] \<Rightarrow> Some [3, 3] | [CHR ''c''] \<Rightarrow> Some [2, 1]
      | [CHR ''d''] \<Rightarrow> Some [2, 3] | [CHR ''e''] \<Rightarrow> Some [4, 2] | _ \<Rightarrow> None),
     cl_parseCertificate = (\<lambda>der. if length der \<noteq> 2 then None
        else Some \<lparr>x5_SubjectKeyId = Some [der ! 0], x5_AuthorityKeyId = Some [der ! 1],
                   x5_RawIssuer = [der ! 1], x5_RawSubject = [der ! 0], x5_NotAfter = 0\<rparr>)\<rparr>"

definition exFile :: "string \<Rightarrow> go_error + string" where
  "exFile certs = Inr (''SKI, PEM'' @ [CHR 0x0D, CHR 0x0A] @ concat (map (\<lambda>c. ''key, '' @ [CHR 0x22, c, CHR 0x22, CHR 0x0A]) certs))"

definition exDir :: "go_error + dirEntry list" where
  "exDir = Inr [\<lparr>de_IsDir = True, de_contents = Inr []\<rparr>, \<lparr>de_IsDir = False, de_contents = exFile ''abx''\<rparr>,
     \<lparr>de_IsDir = False, de_contents = exFile ''cdeac''\<rparr>]"

definition exCert :: "8 word \<Rightarrow> 8 word \<Rightarrow> certInfo" where
  "exCert s i = \<lparr>ci_cert = \<lparr>x5_SubjectKeyId = Some [s], x5_AuthorityKeyId = Some [i],
     x5_RawIssuer = [i], x5_RawSubject = [s], x5_NotAfter = 0\<rparr>, ci_raw = [s, i], ci_sha256 = exHash [s, i]\<rparr>"

definition exCerts :: "certInfo list" where
  "exCerts = [exCert 1 1, exCert 3 3, exCert 2 1, exCert 2 3, exCert 4 2]"

definition exUsable :: "8 word \<Rightarrow> ctLog" where
  "exUsable k = \<lparr>log_Description = [], log_LogID = [], log_Key = [k], log_URL = [], log_MMD = 0, log_Type = [],
     log_State = None, log_TemporalInterval = None\<rparr>"

definition exRoots :: rootsInput where
  "exRoots = \<lparr>ri_UsableTLSLogs = Some [\<lparr>op_Name = [], op_Logs = [exUsable 1, exUsable 2, exUsable 3], op_TiledLogs = []\<rparr>],
     ri_ActiveTLSLogs = None, ri_TestTLSLogs = None, ri_UsableBIMILogs = None,
     ri_LogAcceptedRoots = (\<lambda>logID. if logID ! 0 < 3 then Some [1] else Some [2]),
     ri_AcceptedRoots = (\<lambda>pool. if pool = [1] then Some [[1, 1]] else Some [[3, 3]])\<rparr>"

lemma exDir_loads: "loadCCADBCerts exCCADB exDir = Ok exCerts"
  by code_simp

text \<open>
  C29: For every certificate of CCADB that is not self-signed, buildChains returns exactly one chain
  to each self-signed root that can be reached by climbing from parent to parent over intermediates,
  and that chain is as short as any; if no root can be reached it returns the certificate alone.
\<close>

theorem build_chains_shortest:
  assumes "loadCCADBCerts lib readDir = Ok certs" and "ci \<in> set certs" and "\<not> isSelfSigned ci"
  shows "\<exists>found. distinct (map snd found) \<and> list_all (shortestTo (certsBySKI certs) ci) found \<and>
    (\<forall>cs r. rootedChain (certsBySKI certs) ci cs r \<longrightarrow> r \<in> snd ` set found) \<and>
    buildChains ci (certsBySKI certs) = (if found = [] then [[ci_raw ci]] else map ders found)"
  using buildChains_spec [OF loaded_inj [OF assms(1,2)] assms(3)] by metis

theorem build_chains_shortest_witness:
  "\<exists>found. distinct (map snd found) \<and> list_all (shortestTo (certsBySKI exCerts) (exCert 4 2)) found \<and>
    (\<forall>cs r. rootedChain (certsBySKI exCerts) (exCert 4 2) cs r \<longrightarrow> r \<in> snd ` set found) \<and>
    [[[4, 2], [2, 1], [1, 1]], [[4, 2], [2, 3], [3, 3]]] = (if found = [] then [[ci_raw (exCert 4 2)]] else map ders found)"
proof -
  have "buildChains (exCert 4 2) (certsBySKI exCerts) = [[[4, 2], [2, 1], [1, 1]], [[4, 2], [2, 3], [3, 3]]]" by code_simp
  moreover have "exCert 4 2 \<in> set exCerts" "\<not> isSelfSigned (exCert 4 2)" by code_simp+
  ultimately show ?thesis using build_chains_shortest [OF exDir_loads, of "exCert 4 2"] by simp
qed

text \<open>
  C30: The parent the tool chooses for a key and a log list context is the hash of a certificate with
  that key from which some root accepted by at least one log of the context is reached, and no certificate with
  that key reaches a root accepted by more logs, or by as many in a shorter chain, or as short with a
  later expiry, or as late with a smaller hash. None is chosen only if no certificate with that key
  reaches an accepted root.
\<close>

theorem best_parent_chosen:
  assumes "loadCCADBCerts lib readDir = Ok certs"
  shows "case chosenParent lib ri certs ctx key of
      None \<Rightarrow> \<nexists>b. parentOffer lib ri certs ctx key b
    | Some b \<Rightarrow> parentOffer lib ri certs ctx key b \<and> (\<nexists>b'. parentOffer lib ri certs ctx key b' \<and> ranksAbove b' b)"
  by (rule chosenParent_best [OF assms])

theorem best_parent_chosen_witness:
  "map_option bp_CertHash (chosenParent exCCADB exRoots exCerts (ri_UsableTLSLogs exRoots) [2]) = Some (exHash [2, 1]) \<and>
   \<not> (\<exists>b'. parentOffer exCCADB exRoots exCerts (ri_UsableTLSLogs exRoots) [2] b' \<and>
        ranksAbove b' (the (chosenParent exCCADB exRoots exCerts (ri_UsableTLSLogs exRoots) [2])))"
proof -
  have c: "map_option bp_CertHash (chosenParent exCCADB exRoots exCerts (ri_UsableTLSLogs exRoots) [2]) = Some (exHash [2, 1])"
    by code_simp
  then obtain b where "chosenParent exCCADB exRoots exCerts (ri_UsableTLSLogs exRoots) [2] = Some b" by auto
  then show ?thesis using c best_parent_chosen [OF exDir_loads, of exRoots "ri_UsableTLSLogs exRoots" "[2]"] by auto
qed

text \<open>
  C31: The table the server loads from the text of the CSV file the tool has written gives, for every
  key identifier, exactly the parents that were chosen for it, the zero hash in a context without one;
  a key with no parent in any context is not in the table.
\<close>

theorem table_round_trip:
  assumes "loadCCADBCerts lib readDir = Ok certs" and "\<forall>bs. length (cl_sha256 lib bs) = 32"
    and "optimalParents lib ri readDir create flush = Ok csv"
  shows "map_of (loadOptimalParents (Inr csv)) (hexUpper key) =
    (if hasParent lib ri certs key then Some (tableRow lib ri certs key) else None)"
  by (rule loaded_table [OF assms])

theorem table_round_trip_witness:
  "\<exists>csv. optimalParents exCCADB exRoots exDir None None = Ok csv \<and>
     map_of (loadOptimalParents (Inr csv)) (hexUpper [4]) = Some (tableRow exCCADB exRoots exCerts [4])"
proof -
  obtain csv where r: "optimalParents exCCADB exRoots exDir None None = Ok csv"
    by (simp add: optimalParents_def writeOptimalParents_def Let_def exDir_loads)
  have "hasParent exCCADB exRoots exCerts [4]" by code_simp
  moreover have "\<forall>bs. length (cl_sha256 exCCADB bs) = 32" by (auto simp: exCCADB_def exHash_def)
  ultimately show ?thesis using table_round_trip [OF exDir_loads _ r, of "[4]"] r by auto
qed

end
