(* ===== verification/Request_Log.thy ===== *)
theory Request_Log
  imports Config
begin

text \<open>
  logger/logger.go: the configuration of the logger, the details that handlers attach to a request
  and the log entry that ends it. zap is a library: a log entry is what the code hands to it. The
  user values of a request are a map of values with a dynamic type, and reading one at another
  type panics, as a Go type assertion does.
\<close>

section \<open>Configuration of the logger\<close>

datatype zapLevel = DebugLevel | InfoLevel | WarnLevel | ErrorLevel | DPanicLevel | PanicLevel | FatalLevel

datatype timeEncoder = ISO8601TimeEncoder | EpochTimeEncoder

datatype durationEncoder = NanosDurationEncoder | SecondsDurationEncoder | StringDurationEncoder

record zapConfig =
  zc_Level :: zapLevel
  zc_DisableCaller :: bool
  zc_Sampling :: "(int \<times> int) option"
  zc_TimeKey :: string
  zc_EncodeTime :: timeEncoder
  zc_EncodeDuration :: durationEncoder

text \<open>zap's two base configurations, its parser of level names and its constructor of loggers.\<close>

record 'lgr zapLib =
  zl_DevelopmentConfig :: zapConfig
  zl_ProductionConfig :: zapConfig
  zl_ParseAtomicLevel :: "string \<Rightarrow> go_error + zapLevel"
  zl_Build :: "zapConfig \<Rightarrow> go_error + 'lgr"

definition loggerConfig :: "'lgr zapLib \<Rightarrow> Settings \<Rightarrow> go_error + zapConfig" where
  "loggerConfig lib cfg =
     (let zapCfg = (if logging_IsDevelopment cfg then zl_DevelopmentConfig lib
                    else (zl_ProductionConfig lib)\<lparr>zc_DisableCaller := True\<rparr>);
          levelled = (if logging_Level cfg \<noteq> [] then
                        (case zl_ParseAtomicLevel lib (logging_Level cfg) of
                           Inl e \<Rightarrow> Inl e
                         | Inr level \<Rightarrow> Inr (zapCfg\<lparr>zc_Level := level\<rparr>))
                      else Inr zapCfg)
      in case levelled of
           Inl e \<Rightarrow> Inl e
         | Inr zapCfg1 \<Rightarrow>
             let zapCfg2 = (if logging_SamplingInitial cfg = maxInt \<and> logging_SamplingThereafter cfg = maxInt
                            then zapCfg1\<lparr>zc_Sampling := None\<rparr>
                            else zapCfg1\<lparr>zc_Sampling := Some (logging_SamplingInitial cfg, logging_SamplingThereafter cfg)\<rparr>)
             in Inr (zapCfg2\<lparr>zc_TimeKey := ''@timestamp'', zc_EncodeTime := ISO8601TimeEncoder,
                            zc_EncodeDuration := NanosDurationEncoder\<rparr>))"

text \<open>InitLogger also sets the package's XFFUseFirstIPAddress, which is set even if it then fails.\<close>

definition InitLogger :: "'lgr zapLib \<Rightarrow> Settings \<Rightarrow> bool \<times> (go_error + 'lgr)" where
  "InitLogger lib cfg =
     (logging_XFFUseFirstIPAddress cfg,
      case loggerConfig lib cfg of Inl e \<Rightarrow> Inl e | Inr zapCfg \<Rightarrow> zl_Build lib zapCfg)"

text \<open>The logger of a request in its context: the innermost one counts, and nil is no logger.\<close>

type_synonym 'lgr contextLoggers = "'lgr option list"

definition NewContext :: "'lgr contextLoggers \<Rightarrow> 'lgr option \<Rightarrow> 'lgr contextLoggers" where
  "NewContext ctx lgr = lgr # ctx"

definition FromContext :: "'lgr contextLoggers \<Rightarrow> 'lgr \<Rightarrow> 'lgr" where
  "FromContext ctx fallback = (case ctx of Some lgr # outer \<Rightarrow> lgr | _ \<Rightarrow> fallback)"

section \<open>Requests\<close>

text \<open>What the code reads of a fasthttp request; an absent header is empty.\<close>

record fhRequest =
  rq_Method :: string
  rq_Path :: string
  rq_PostArgs :: "(string \<times> string) list"
  rq_QueryArgs :: "(string \<times> string) list"
  rq_MultipartForm :: "go_error + (string \<times> string list) list"
  rq_Accept :: string
  rq_Body :: bytes
  rq_Time :: time
  rq_ID :: nat
  rq_RemoteAddr :: string
  rq_XRealIP :: string
  rq_XForwardedFor :: string
  rq_Protocol :: string
  rq_RequestURI :: string
  rq_ContentType :: string
  rq_UserAgent :: string

definition newInstancePrefix :: "bytes \<Rightarrow> string" where
  "newInstancePrefix random = hexEncode (take 4 random)"

definition RequestID :: "string \<Rightarrow> fhRequest \<Rightarrow> string" where
  "RequestID instancePrefix rq = instancePrefix @ ''-'' @ showHex (rq_ID rq)"

text \<open>net.SplitHostPort.\<close>

definition lastIndexOf :: "char \<Rightarrow> string \<Rightarrow> nat option" where
  "lastIndexOf c s = findIdxDown (\<lambda>i. s ! i = c) (length s)"

definition addrErr :: "string \<Rightarrow> string \<Rightarrow> go_error" where
  "addrErr addr why = Errorf (''address '' @ addr @ '': '' @ why)"

definition SplitHostPort :: "string \<Rightarrow> go_error + string \<times> string" where
  "SplitHostPort hostport =
     (let missingPort = addrErr hostport ''missing port in address'';
          tooManyColons = addrErr hostport ''too many colons in address'' in
      case lastIndexOf (CHR '':'') hostport of
        None \<Rightarrow> Inl missingPort
      | Some i \<Rightarrow>
          (case (if hostport ! 0 = CHR ''['' then
                   (case findIdx (\<lambda>j. hostport ! j = CHR '']'') (length hostport) of
                      None \<Rightarrow> Inl (addrErr hostport ''missing ']' in address'')
                    | Some e \<Rightarrow>
                        if e + 1 = length hostport then Inl missingPort
                        else if e + 1 = i then Inr (take (e - 1) (drop 1 hostport), 1, e + 1)
                        else if hostport ! (e + 1) = CHR '':'' then Inl tooManyColons
                        else Inl missingPort)
                 else if CHR '':'' \<in> set (take i hostport) then Inl tooManyColons
                 else Inr (take i hostport, 0, 0)) of
             Inl e \<Rightarrow> Inl e
           | Inr (host, j, k) \<Rightarrow>
               if CHR ''['' \<in> set (drop j hostport) then Inl (addrErr hostport ''unexpected '[' in address'')
               else if CHR '']'' \<in> set (drop k hostport) then Inl (addrErr hostport ''unexpected ']' in address'')
               else Inr (host, drop (i + 1) hostport)))"

fun splitOn :: "char \<Rightarrow> string \<Rightarrow> string list" where
  "splitOn c [] = [[]]"
| "splitOn c (x # xs) =
     (if x = c then [] # splitOn c xs
      else (case splitOn c xs of [] \<Rightarrow> [[x]] | s # ss \<Rightarrow> (x # s) # ss))"

definition isSpaceChar :: "char \<Rightarrow> bool" where
  "isSpaceChar c \<longleftrightarrow> (of_char c :: nat) \<in> {9, 10, 11, 12, 13, 32}"

definition TrimSpace :: "string \<Rightarrow> string" where
  "TrimSpace s = rev (dropWhile isSpaceChar (rev (dropWhile isSpaceChar s)))"

definition getRealClientIP :: "bool \<Rightarrow> fhRequest \<Rightarrow> string" where
  "getRealClientIP useFirst rq =
     (let remoteAddr = (case SplitHostPort (rq_RemoteAddr rq) of Inr (host, port) \<Rightarrow> host | Inl e \<Rightarrow> rq_RemoteAddr rq) in
      if rq_XRealIP rq \<noteq> [] then rq_XRealIP rq
      else if rq_XForwardedFor rq \<noteq> [] then
        (let ipAddress = splitOn (CHR '','') (rq_XForwardedFor rq) in
         if useFirst then TrimSpace (ipAddress ! 0) else TrimSpace (ipAddress ! (length ipAddress - 1)))
      else remoteAddr)"

section \<open>Details of a request and its log entry\<close>

datatype zapValue =
    ZString string
  | ZByteString string
  | ZInt int
  | ZDuration duration
  | ZTime time
  | ZBool bool
  | ZError go_error

type_synonym zapField = "string \<times> zapValue"

datatype userValue = UVLevel zapLevel | UVString string | UVError go_error | UVFields "zapField list"

type_synonym userValues = "string \<rightharpoonup> userValue"

definition SetUserValue :: "string \<Rightarrow> userValue \<Rightarrow> userValues \<Rightarrow> userValues" where
  "SetUserValue key v uv = uv(key \<mapsto> v)"

definition SetDetails :: "zapLevel \<Rightarrow> string \<Rightarrow> go_error option \<Rightarrow> zapField list option \<Rightarrow> userValues \<Rightarrow> userValues" where
  "SetDetails level msg err extraFields uv =
     (let uv1 = SetUserValue ''msg'' (UVString msg) (SetUserValue ''level'' (UVLevel level) uv);
          uv2 = (case err of None \<Rightarrow> uv1 | Some e \<Rightarrow> SetUserValue ''error'' (UVError e) uv1)
      in case extraFields of None \<Rightarrow> uv2 | Some zf \<Rightarrow> SetUserValue ''zap_fields'' (UVFields zf) uv2)"

text \<open>The type assertions of LogRequest, each with the value for an absent key.\<close>

definition assertError :: "userValue option \<Rightarrow> zapField list outcome" where
  "assertError v = (case v of None \<Rightarrow> Ok [] | Some (UVError e) \<Rightarrow> Ok [(''error'', ZError e)] | Some _ \<Rightarrow> Panic)"

definition assertFields :: "userValue option \<Rightarrow> zapField list outcome" where
  "assertFields v = (case v of None \<Rightarrow> Ok [] | Some (UVFields fs) \<Rightarrow> Ok fs | Some _ \<Rightarrow> Panic)"

definition assertLevel :: "userValue option \<Rightarrow> zapLevel outcome" where
  "assertLevel v = (case v of None \<Rightarrow> Ok ErrorLevel | Some (UVLevel l) \<Rightarrow> Ok l | Some _ \<Rightarrow> Panic)"

definition assertMsg :: "userValue option \<Rightarrow> string outcome" where
  "assertMsg v = (case v of None \<Rightarrow> Ok [] | Some (UVString s) \<Rightarrow> Ok s | Some _ \<Rightarrow> Panic)"

record logEntry =
  le_Level :: zapLevel
  le_Msg :: string
  le_Fields :: "zapField list"

text \<open>What the logger package and the clock contribute to an entry.\<close>

record logContext =
  lc_instancePrefix :: string
  lc_XFFUseFirstIPAddress :: bool
  lc_now :: time

definition commonFields :: "logContext \<Rightarrow> fhRequest \<Rightarrow> int \<Rightarrow> int \<Rightarrow> zapField list" where
  "commonFields lc rq status bodySize =
     [(''client_ip'', ZString (getRealClientIP (lc_XFFUseFirstIPAddress lc) rq)),
      (''http_method'', ZByteString (rq_Method rq)),
      (''http_status'', ZInt status),
      (''protocol'', ZByteString (rq_Protocol rq)),
      (''raw_path'', ZByteString (rq_RequestURI rq)),
      (''request_id'', ZString (RequestID (lc_instancePrefix lc) rq)),
      (''response_body_size'', ZInt bodySize),
      (''time_taken_ns'', ZDuration (timeSub (lc_now lc) (rq_Time rq)))]"

definition headerFields :: "fhRequest \<Rightarrow> zapField list" where
  "headerFields rq =
     (if rq_ContentType rq \<noteq> [] then [(''request_content_type'', ZByteString (rq_ContentType rq))] else []) @
     (if rq_UserAgent rq \<noteq> [] then [(''user_agent'', ZByteString (rq_UserAgent rq))] else [])"

definition LogRequest :: "logContext \<Rightarrow> fhRequest \<Rightarrow> int \<Rightarrow> int \<Rightarrow> userValues \<Rightarrow> logEntry option outcome" where
  "LogRequest lc rq status bodySize uv =
     (case (assertError (uv ''error''), assertFields (uv ''zap_fields''), assertLevel (uv ''level''), assertMsg (uv ''msg'')) of
        (Ok errorFields, Ok extraFields, Ok level, Ok msg) \<Rightarrow>
          Ok (if level \<in> {ErrorLevel, WarnLevel, InfoLevel, DebugLevel}
              then Some \<lparr>le_Level = level, le_Msg = msg,
                le_Fields = commonFields lc rq status bodySize @ errorFields @ headerFields rq @ extraFields\<rparr>
              else None)
      | _ \<Rightarrow> Panic)"

section \<open>The types of the user values\<close>

text \<open>Each key holds values of one type only, the one that LogRequest asserts for it.\<close>

fun keyOf :: "userValue \<Rightarrow> string" where
  "keyOf (UVLevel l) = ''level''"
| "keyOf (UVString s) = ''msg''"
| "keyOf (UVError e) = ''error''"
| "keyOf (UVFields fs) = ''zap_fields''"

definition detailsTyped :: "userValues \<Rightarrow> bool" where
  "detailsTyped uv \<longleftrightarrow> (\<forall>k v. uv k = Some v \<longrightarrow> keyOf v = k)"

lemma detailsTyped_empty [simp]: "detailsTyped Map.empty"
  by (simp add: detailsTyped_def)

lemma detailsTyped_set [simp]: "detailsTyped uv \<Longrightarrow> keyOf v = k \<Longrightarrow> detailsTyped (SetUserValue k v uv)"
  by (simp add: detailsTyped_def SetUserValue_def)

lemma detailsTyped_SetDetails [simp]: "detailsTyped uv \<Longrightarrow> detailsTyped (SetDetails level msg err zf uv)"
  by (simp add: SetDetails_def Let_def split: option.split)

lemma SetDetails_level [simp]: "SetDetails level msg err zf uv ''level'' = Some (UVLevel level)"
  by (simp add: SetDetails_def SetUserValue_def Let_def split: option.split)

lemma SetDetails_msg [simp]: "SetDetails level msg err zf uv ''msg'' = Some (UVString msg)"
  by (simp add: SetDetails_def SetUserValue_def Let_def split: option.split)

lemma SetDetails_error [simp]:
  "SetDetails level msg err zf uv ''error'' = (case err of None \<Rightarrow> uv ''error'' | Some e \<Rightarrow> Some (UVError e))"
  by (simp add: SetDetails_def SetUserValue_def Let_def split: option.split)

lemma SetDetails_fields [simp]:
  "SetDetails level msg err zf uv ''zap_fields'' = (case zf of None \<Rightarrow> uv ''zap_fields'' | Some fs \<Rightarrow> Some (UVFields fs))"
  by (simp add: SetDetails_def SetUserValue_def Let_def split: option.split)

text \<open>Typed details never make LogRequest panic; the entry has the level and message that were set.\<close>

lemma LogRequest_typed:
  assumes "detailsTyped uv"
  shows "\<exists>errorFields extraFields level msg. LogRequest lc rq status bodySize uv =
      Ok (if level \<in> {ErrorLevel, WarnLevel, InfoLevel, DebugLevel}
          then Some \<lparr>le_Level = level, le_Msg = msg,
            le_Fields = commonFields lc rq status bodySize @ errorFields @ headerFields rq @ extraFields\<rparr> else None) \<and>
    uv ''level'' = (if uv ''level'' = None then None else Some (UVLevel level)) \<and> (uv ''level'' = None \<longrightarrow> level = ErrorLevel) \<and>
    uv ''msg'' = (if uv ''msg'' = None then None else Some (UVString msg)) \<and> (uv ''msg'' = None \<longrightarrow> msg = [])"
proof -
  have v: "keyOf v = k" if "uv k = Some v" for k v using assms that by (simp add: detailsTyped_def)
  have "\<exists>fs. assertError (uv ''error'') = Ok fs" "\<exists>fs. assertFields (uv ''zap_fields'') = Ok fs"
    using v [of "''error''"] v [of "''zap_fields''"] by (auto simp: assertError_def assertFields_def split: option.split userValue.split)
  moreover have "\<exists>level. assertLevel (uv ''level'') = Ok level \<and> uv ''level'' = (if uv ''level'' = None then None else Some (UVLevel level)) \<and>
      (uv ''level'' = None \<longrightarrow> level = ErrorLevel)"
    using v [of "''level''"] by (auto simp: assertLevel_def split: option.split userValue.split)
  moreover have "\<exists>msg. assertMsg (uv ''msg'') = Ok msg \<and> uv ''msg'' = (if uv ''msg'' = None then None else Some (UVString msg)) \<and>
      (uv ''msg'' = None \<longrightarrow> msg = [])"
    using v [of "''msg''"] by (auto simp: assertMsg_def split: option.split userValue.split)
  ultimately show ?thesis unfolding LogRequest_def by fastforce
qed

section \<open>Clients and requests in the log\<close>

text \<open>Request IDs of one or of several processes are different for different requests.\<close>

lemma RequestID_inj:
  "length p = length q \<Longrightarrow> RequestID p rq = RequestID q rq' \<Longrightarrow> p = q \<and> rq_ID rq = rq_ID rq'"
  by (auto simp: RequestID_def dest: showHex_inj)

lemma newInstancePrefix_length: "4 \<le> length random \<Longrightarrow> length (newInstancePrefix random) = 8"
  by (auto simp: newInstancePrefix_def hexEncode_def length_concat sum_list_triv min_def comp_def)

lemma newInstancePrefix_inj:
  "newInstancePrefix r = newInstancePrefix r' \<Longrightarrow> take 4 r = take 4 r'"
  unfolding newInstancePrefix_def using hexDecode_hexEncode by (metis option.inject)

text \<open>By default only the last hop counts: whatever a client puts in front of it is ignored.\<close>

lemma splitOn_last: "c \<notin> set s \<Longrightarrow> \<exists>ps. ps \<noteq> [] \<and> splitOn c (t @ c # s) = ps @ [s]"
proof (induction t)
  case Nil
  then have "splitOn c s = [s]" by (induction s) auto
  then show ?case by simp
next
  case (Cons x t)
  then obtain p ps where "splitOn c (t @ c # s) = (p # ps) @ [s]" by (metis neq_Nil_conv)
  then show ?case by (auto intro!: exI [of _ "[] # p # ps"] exI [of _ "(x # p) # ps"])
qed

lemma getRealClientIP_last:
  assumes "CHR '','' \<notin> set hop" and "rq_XRealIP rq = []" and "rq_XForwardedFor rq = claimed @ CHR '','' # hop"
  shows "getRealClientIP False rq = TrimSpace hop"
  using splitOn_last [OF assms(1), of claimed] assms(2,3) by (auto simp: getRealClientIP_def nth_append)

text \<open>The address and the port of a connection are taken apart again, for IPv4 and for IPv6.\<close>

lemma findIdx_at: "i < n \<Longrightarrow> P i \<Longrightarrow> (\<And>j. j < i \<Longrightarrow> \<not> P j) \<Longrightarrow> findIdx P n = Some i"
  unfolding findIdx_def find_Some_iff by (intro exI [of _ i]) auto

lemma findIdxDown_at:
  assumes "i < n" and "P i" and "\<And>j. i < j \<Longrightarrow> j < n \<Longrightarrow> \<not> P j"
  shows "findIdxDown P n = Some i"
proof -
  have nth: "rev [0..<n] ! k = n - 1 - k" if "k < n" for k using that by (simp add: rev_nth del: upt_Suc)
  show ?thesis
    unfolding findIdxDown_def find_Some_iff
  proof (intro exI [of _ "n - 1 - i"] conjI allI impI)
    show "P (rev [0..<n] ! (n - 1 - i))" "i = rev [0..<n] ! (n - 1 - i)" "n - 1 - i < length (rev [0..<n])"
      using nth [of "n - 1 - i"] assms(1,2) by simp_all
    show "\<not> P (rev [0..<n] ! j)" if "j < n - 1 - i" for j
      using nth [of j] assms(3) [of "n - 1 - j"] that by simp
  qed
qed

lemma nth_port: "length host < k \<Longrightarrow> k < length (host @ c # port) \<Longrightarrow> (host @ c # port) ! k \<in> set port"
  by (auto simp: nth_append nth_Cons split: nat.split)

lemma lastIndexOf_port: "CHR '':'' \<notin> set port \<Longrightarrow> lastIndexOf (CHR '':'') (host @ CHR '':'' # port) = Some (length host)"
  unfolding lastIndexOf_def
proof (rule findIdxDown_at)
  fix j assume "CHR '':'' \<notin> set port" "length host < j" "j < length (host @ CHR '':'' # port)"
  then show "(host @ CHR '':'' # port) ! j \<noteq> CHR '':''" by (metis nth_port)
qed simp_all

lemma SplitHostPort_IPv4:
  assumes "set host \<inter> {CHR '':'', CHR ''['', CHR '']''} = {}" and "set port \<inter> {CHR '':'', CHR ''['', CHR '']''} = {}"
  shows "SplitHostPort (host @ CHR '':'' # port) = Inr (host, port)"
proof -
  have "lastIndexOf (CHR '':'') (host @ CHR '':'' # port) = Some (length host)"
    using assms(2) by (intro lastIndexOf_port) auto
  moreover have "(host @ CHR '':'' # port) ! 0 \<noteq> CHR ''[''"
    using assms(1) by (cases host) auto
  ultimately show ?thesis using assms by (auto simp: SplitHostPort_def Let_def)
qed

lemma SplitHostPort_IPv6:
  assumes "set host \<inter> {CHR ''['', CHR '']''} = {}" and "set port \<inter> {CHR '':'', CHR ''['', CHR '']''} = {}"
  shows "SplitHostPort (''['' @ host @ '']:'' @ port) = Inr (host, port)"
proof -
  let ?s = "(CHR ''['' # host @ [CHR '']'']) @ CHR '':'' # port"
  have l: "lastIndexOf (CHR '':'') ?s = Some (length host + 2)"
    using lastIndexOf_port [of port "CHR ''['' # host @ [CHR '']'']"] assms(2) by auto
  have "findIdx (\<lambda>j. ?s ! j = CHR '']'') (length ?s) = Some (length host + 1)"
  proof (rule findIdx_at)
    fix j assume j: "j < length host + 1"
    then have "?s ! j = (CHR ''['' # host) ! j" by (simp add: nth_append nth_Cons split: nat.split)
    moreover have "(CHR ''['' # host) ! j \<in> insert (CHR ''['') (set host)"
      using j nth_mem [of j "CHR ''['' # host"] by simp
    ultimately show "?s ! j \<noteq> CHR '']''" using assms(1) by auto
  qed (simp_all add: nth_append)
  then show ?thesis using l assms by (auto simp: SplitHostPort_def Let_def)
qed

text \<open>With the default settings entries of level info and above are kept, in production form and without sampling.\<close>

lemma loggerConfig_default:
  "loggerConfig lib defaultSettings = Inr ((zl_ProductionConfig lib)\<lparr>zc_DisableCaller := True, zc_Sampling := None,
     zc_TimeKey := ''@timestamp'', zc_EncodeTime := ISO8601TimeEncoder, zc_EncodeDuration := NanosDurationEncoder\<rparr>)"
  by (simp add: loggerConfig_def defaultSettings_def)

lemma FromContext_NewContext: "FromContext (NewContext ctx (Some lgr)) fallback = lgr"
  by (simp add: FromContext_def NewContext_def)

end
