(* ===== verification/Health.thy ===== *)
theory Health
  imports Request_Log
begin

text \<open>
  health/health.go: the signals behind the liveness and readiness probes. Timestamps start at Go's
  zero time. The mutex makes each operation one step.
\<close>

record Health =
  hl_latestNonErrorTimestamp :: time
  hl_latestErrorTimestamp :: time
  hl_latestBusyTimestamp :: time
  hl_initialDataReady :: bool

definition newHealth :: Health where
  "newHealth = \<lparr>hl_latestNonErrorTimestamp = zeroTime, hl_latestErrorTimestamp = zeroTime,
     hl_latestBusyTimestamp = zeroTime, hl_initialDataReady = False\<rparr>"

definition SetInitialDataReady :: "Health \<Rightarrow> Health" where
  "SetInitialDataReady h = h\<lparr>hl_initialDataReady := True\<rparr>"

definition laterOf :: "time option \<Rightarrow> time \<Rightarrow> time" where
  "laterOf new latest = (case new of None \<Rightarrow> latest | Some t \<Rightarrow> if latest < t then t else latest)"

definition UpdateLatestTimestamps :: "time option \<Rightarrow> time option \<Rightarrow> time option \<Rightarrow> Health \<Rightarrow> Health" where
  "UpdateLatestTimestamps nonErrorTimestamp errorTimestamp busyTimestamp h =
     h\<lparr>hl_latestNonErrorTimestamp := laterOf nonErrorTimestamp (hl_latestNonErrorTimestamp h),
       hl_latestErrorTimestamp := laterOf errorTimestamp (hl_latestErrorTimestamp h),
       hl_latestBusyTimestamp := laterOf busyTimestamp (hl_latestBusyTimestamp h)\<rparr>"

text \<open>CompleteRequest: the request's status if it completes first, -1 and busy if the deadline does.\<close>

definition CompleteRequest :: "int option \<Rightarrow> time \<Rightarrow> Health \<Rightarrow> int \<times> Health" where
  "CompleteRequest completed now h =
     (case completed of
        Some reqStatus \<Rightarrow> (reqStatus, h)
      | None \<Rightarrow> (-1, UpdateLatestTimestamps None None (Some now) h))"

definition IsAlive :: "Health \<Rightarrow> bool" where
  "IsAlive h \<longleftrightarrow> \<not> hl_latestNonErrorTimestamp h < hl_latestErrorTimestamp h"

definition IsReady :: "Health \<Rightarrow> Settings \<Rightarrow> time \<Rightarrow> bool" where
  "IsReady h cfg now \<longleftrightarrow>
     (if \<not> hl_initialDataReady h then False
      else hl_latestBusyTimestamp h + server_RememberBusyTimeout cfg < now)"

text \<open>Both leave what they have read in the log fields of the request.\<close>

definition IsAliveFields :: "Health \<Rightarrow> zapField list" where
  "IsAliveFields h =
     [(''latest_non_error'', ZTime (hl_latestNonErrorTimestamp h)), (''latest_error'', ZTime (hl_latestErrorTimestamp h))]"

definition IsReadyFields :: "Health \<Rightarrow> zapField list" where
  "IsReadyFields h =
     (if \<not> hl_initialDataReady h then [(''initial_data_ready'', ZBool False)]
      else [(''latest_busy'', ZTime (hl_latestBusyTimestamp h))])"

section \<open>What the program does to the signals\<close>

text \<open>The program changes them in two places only: main, once, and POST when its deadline has passed.\<close>

datatype healthEvent = InitialDataReady | RequestTimedOut time

fun healthStep :: "healthEvent \<Rightarrow> Health \<Rightarrow> Health" where
  "healthStep InitialDataReady h = SetInitialDataReady h"
| "healthStep (RequestTimedOut deadline) h = UpdateLatestTimestamps None None (Some deadline) h"

definition healthAfter :: "healthEvent list \<Rightarrow> Health" where
  "healthAfter events = fold healthStep events newHealth"

lemma healthStep_alive: "IsAlive (healthStep e h) = IsAlive h"
  by (cases e) (simp_all add: IsAlive_def SetInitialDataReady_def UpdateLatestTimestamps_def laterOf_def)

lemma healthAfter_alive: "IsAlive (healthAfter events)"
proof -
  have "IsAlive (fold healthStep events h) = IsAlive h" for h
    by (induction events arbitrary: h) (simp_all add: healthStep_alive)
  then show ?thesis by (simp add: healthAfter_def newHealth_def IsAlive_def)
qed

lemma fold_healthStep:
  "hl_initialDataReady (fold healthStep events h) \<longleftrightarrow> hl_initialDataReady h \<or> InitialDataReady \<in> set events"
  "hl_latestBusyTimestamp (fold healthStep events h) < t \<longleftrightarrow>
     hl_latestBusyTimestamp h < t \<and> (\<forall>d. RequestTimedOut d \<in> set events \<longrightarrow> d < t)"
proof (induction events arbitrary: h)
  case (Cons e events)
  { case 1
    show ?case using Cons(1) [of "healthStep e h"] by (cases e) (auto simp: SetInitialDataReady_def UpdateLatestTimestamps_def) }
  { case 2
    show ?case using Cons(2) [of "healthStep e h"]
      by (cases e) (auto simp: SetInitialDataReady_def UpdateLatestTimestamps_def laterOf_def) }
qed simp_all

lemma healthAfter_ready:
  "IsReady (healthAfter events) cfg now \<longleftrightarrow>
     InitialDataReady \<in> set events \<and> zeroTime + server_RememberBusyTimeout cfg < now \<and>
     (\<forall>d. RequestTimedOut d \<in> set events \<longrightarrow> d + server_RememberBusyTimeout cfg < now)"
  using fold_healthStep [of events newHealth]
  by (auto simp: IsReady_def healthAfter_def newHealth_def less_diff_eq [symmetric])

end
