(* ===== verification/Uptime.thy ===== *)
theory Uptime
  imports Monitor_State CSV
begin

text \<open>
  monitor/uptimeFetcher.go: the endpoint uptimes read from Google's CSV files, whose records are a
  submission URL, an endpoint and a percentage, after a header; \<open>parseFloat\<close> is strconv.ParseFloat.
\<close>

definition uptimeReader :: csvReader where
  "uptimeReader = \<lparr>rd_FieldsPerRecord = 3, rd_LazyQuotes = False, rd_TrimLeadingSpace = True\<rparr>"

definition newEndpointUptimes :: EndpointUptimes where
  "newEndpointUptimes =
     \<lparr>up_Lowest = Finite 100, up_AddChain = Finite 0, up_AddPreChain = Finite 0, up_GetEntries = Finite 0,
      up_GetProofByHash = Finite 0, up_GetRoots = Finite 0, up_GetSTH = Finite 0,
      up_GetSTHConsistency = Finite 0, up_Checkpoint = Finite 0, up_Tile = Finite 0\<rparr>"

text \<open>The switch over endpoint names; an unknown name changes nothing (it is only logged).\<close>

definition setEndpointUptime :: "string \<Rightarrow> float64 \<Rightarrow> EndpointUptimes \<Rightarrow> EndpointUptimes" where
  "setEndpointUptime endpoint percentage e =
     (if endpoint = ''add-chain'' then e\<lparr>up_AddChain := percentage\<rparr>
      else if endpoint = ''add-pre-chain'' then e\<lparr>up_AddPreChain := percentage\<rparr>
      else if endpoint = ''get-entries'' then e\<lparr>up_GetEntries := percentage\<rparr>
      else if endpoint = ''get-proof-by-hash'' then e\<lparr>up_GetProofByHash := percentage\<rparr>
      else if endpoint = ''get-roots'' then e\<lparr>up_GetRoots := percentage\<rparr>
      else if endpoint = ''get-sth'' then e\<lparr>up_GetSTH := percentage\<rparr>
      else if endpoint = ''get-sth-consistency'' then e\<lparr>up_GetSTHConsistency := percentage\<rparr>
      else if endpoint = ''checkpoint'' then e\<lparr>up_Checkpoint := percentage\<rparr>
      else if endpoint = ''tile'' then e\<lparr>up_Tile := percentage\<rparr>
      else e)"

definition applyUptimeRecord ::
  "(string \<Rightarrow> float64 option) \<Rightarrow> string list \<Rightarrow> (string \<rightharpoonup> EndpointUptimes option) \<Rightarrow> (string \<rightharpoonup> EndpointUptimes option)" where
  "applyUptimeRecord parseFloat line up =
     (case up (line ! 0) of
        None \<Rightarrow> up
      | Some nilOrEntry \<Rightarrow>
          let e = (case nilOrEntry of None \<Rightarrow> newEndpointUptimes | Some e \<Rightarrow> e) in
          (case parseFloat (line ! 2) of
             None \<Rightarrow> up(line ! 0 \<mapsto> Some e)
           | Some percentage \<Rightarrow>
               let e' = setEndpointUptime (line ! 1) percentage e in
               up(line ! 0 \<mapsto> Some (if fltLess percentage (up_Lowest e')
                                   then e'\<lparr>up_Lowest := percentage\<rparr> else e'))))"

text \<open>
  The outcome of the GET: an error of the client, or a status with the body or the error that ends
  reading it. \<open>records[1:]\<close> panics when there is no record at all; every other index is within a record,
  whose three fields the reader has enforced.
\<close>

definition fetchEndpointUptimes ::
  "(string \<Rightarrow> string) \<Rightarrow> logList list \<Rightarrow> (string \<Rightarrow> float64 option) \<Rightarrow>
     go_error + (int \<times> (go_error + string)) \<Rightarrow>
     (string \<rightharpoonup> EndpointUptimes option) \<Rightarrow> (string \<rightharpoonup> EndpointUptimes option) outcome" where
  "fetchEndpointUptimes joinSlash lls parseFloat resp up =
     (case resp of
        Inl e \<Rightarrow> Err e
      | Inr (status, body) \<Rightarrow>
          if status \<noteq> 200 then Err (Errorf (''unexpected status '' @ showInt status))
          else (case body of
            Inl e \<Rightarrow> Err e
          | Inr text \<Rightarrow>
              (case ReadAll uptimeReader text of
                 Inl e \<Rightarrow> Err e
               | Inr [] \<Rightarrow> Panic
               | Inr (header # records) \<Rightarrow>
                   Ok (fold (applyUptimeRecord parseFloat) records (initializeUptimeMap joinSlash lls up)))))"

definition getEndpointUptime :: "EndpointUptimes option \<Rightarrow> string \<Rightarrow> float64 \<times> bool" where
  "getEndpointUptime endpointUptimes endpoint =
     (case endpointUptimes of
        None \<Rightarrow> (Finite 0, False)
      | Some e \<Rightarrow>
          if endpoint = ''LOWEST'' then (up_Lowest e, True)
          else if endpoint = ''add-chain'' then (up_AddChain e, True)
          else if endpoint = ''add-pre-chain'' then (up_AddPreChain e, True)
          else if endpoint = ''get-entries'' then (up_GetEntries e, True)
          else if endpoint = ''get-proof-by-hash'' then (up_GetProofByHash e, True)
          else if endpoint = ''get-roots'' then (up_GetRoots e, True)
          else if endpoint = ''get-sth'' then (up_GetSTH e, True)
          else if endpoint = ''get-sth-consistency'' then (up_GetSTHConsistency e, True)
          else if endpoint = ''checkpoint'' then (up_Checkpoint e, True)
          else if endpoint = ''tile'' then (up_Tile e, True)
          else (Finite 0, False))"

definition nilOrUptimes :: "(string \<rightharpoonup> EndpointUptimes option) \<Rightarrow> string \<Rightarrow> EndpointUptimes option" where
  "nilOrUptimes up u = (case up u of None \<Rightarrow> None | Some e \<Rightarrow> e)"

definition GetEndpointUptime24h :: "Monitor \<Rightarrow> string \<Rightarrow> string \<Rightarrow> float64 \<times> bool" where
  "GetEndpointUptime24h m u endpoint = getEndpointUptime (nilOrUptimes (mon_uptime24h m) u) endpoint"

definition GetEndpointUptime90d :: "Monitor \<Rightarrow> string \<Rightarrow> string \<Rightarrow> float64 \<times> bool" where
  "GetEndpointUptime90d m u endpoint = getEndpointUptime (nilOrUptimes (mon_uptime90d m) u) endpoint"

text \<open>FetchEndpointUptimes: the 24-hour file, then the 90-day file; an error keeps the old data.\<close>

definition FetchEndpointUptimes ::
  "(string \<Rightarrow> string) \<Rightarrow> logList list \<Rightarrow> (string \<Rightarrow> float64 option) \<Rightarrow>
     go_error + (int \<times> (go_error + string)) \<Rightarrow>
     go_error + (int \<times> (go_error + string)) \<Rightarrow> Monitor \<Rightarrow> Monitor outcome" where
  "FetchEndpointUptimes joinSlash lls parseFloat resp24h resp90d m =
     (case fetchEndpointUptimes joinSlash lls parseFloat resp24h (mon_uptime24h m) of
        Panic \<Rightarrow> Panic
      | r24 \<Rightarrow>
          let m1 = (case r24 of Ok up \<Rightarrow> m\<lparr>mon_uptime24h := up\<rparr> | _ \<Rightarrow> m) in
          (case fetchEndpointUptimes joinSlash lls parseFloat resp90d (mon_uptime90d m1) of
             Panic \<Rightarrow> Panic
           | r90 \<Rightarrow> Ok (case r90 of Ok up \<Rightarrow> m1\<lparr>mon_uptime90d := up\<rparr> | _ \<Rightarrow> m1)))"

section \<open>The lowest uptime\<close>

lemma fltLess_trans: "fltLess a b \<Longrightarrow> fltLess b c \<Longrightarrow> fltLess a c"
  by (cases a; cases b; cases c; simp)

lemma fltLess_irrefl [simp]: "\<not> fltLess a a"
  by (cases a; simp)

lemma up_Lowest_setEndpoint [simp]: "up_Lowest (setEndpointUptime ep p e) = up_Lowest e"
  by (simp add: setEndpointUptime_def)

text \<open>What a percentage read for a log says of the stored lowest value.\<close>

definition lowestBelow :: "float64 \<Rightarrow> EndpointUptimes option option \<Rightarrow> bool" where
  "lowestBelow p entry \<longleftrightarrow> (\<exists>e. entry = Some (Some e) \<and> \<not> fltLess p (up_Lowest e))"

lemma fltLess_neg_trans: "\<not> fltLess p q \<Longrightarrow> fltLess r q \<Longrightarrow> r \<noteq> NaN \<Longrightarrow> \<not> fltLess p r"
  using fltLess_trans by blast

lemma applyUptimeRecord_keeps_lowest:
  assumes "lowestBelow p (up u)"
  shows "lowestBelow p (applyUptimeRecord parseFloat line up u)"
proof -
  obtain e where e: "up u = Some (Some e)" "\<not> fltLess p (up_Lowest e)"
    using assms by (auto simp: lowestBelow_def)
  show ?thesis
  proof (cases "line ! 0 = u")
    case False
    then show ?thesis
      using e by (auto simp: applyUptimeRecord_def lowestBelow_def Let_def split: option.splits)
  next
    case True
    then show ?thesis
      using e fltLess_trans
      by (auto simp: applyUptimeRecord_def lowestBelow_def Let_def split: option.splits)
  qed
qed

lemma applyUptimeRecord_lowest:
  "up u \<noteq> None \<Longrightarrow> parseFloat pct = Some p \<Longrightarrow> lowestBelow p (applyUptimeRecord parseFloat [u, ep, pct] up u)"
  by (auto simp: applyUptimeRecord_def lowestBelow_def Let_def split: option.splits)

lemma applyUptimeRecord_known:
  "applyUptimeRecord parseFloat line up v \<noteq> None \<longleftrightarrow> up v \<noteq> None"
  by (auto simp: applyUptimeRecord_def Let_def split: option.splits)

lemma fold_uptime_keeps_lowest:
  "lowestBelow p (up u) \<Longrightarrow> lowestBelow p (fold (applyUptimeRecord parseFloat) records up u)"
  by (induction records arbitrary: up) (auto intro: applyUptimeRecord_keeps_lowest)

lemma fold_uptime_lowest:
  assumes "[u, ep, pct] \<in> set records" and "parseFloat pct = Some p" and "up u \<noteq> None"
  shows "lowestBelow p (fold (applyUptimeRecord parseFloat) records up u)"
  using assms
proof (induction records arbitrary: up)
  case Nil
  then show ?case by simp
next
  case (Cons line records)
  show ?case
  proof (cases "line = [u, ep, pct]")
    case True
    then show ?thesis
      using Cons.prems by (auto intro: fold_uptime_keeps_lowest applyUptimeRecord_lowest)
  next
    case False
    then show ?thesis
      using Cons.prems Cons.IH [of "applyUptimeRecord parseFloat line up"] applyUptimeRecord_known [of parseFloat line up u]
      by auto
  qed
qed

text \<open>Rows of other logs leave an entry alone.\<close>

lemma fold_uptime_other:
  "\<forall>line \<in> set records. line ! 0 \<noteq> u \<Longrightarrow> fold (applyUptimeRecord parseFloat) records up u = up u"
proof (induction records arbitrary: up)
  case Nil
  then show ?case by simp
next
  case (Cons line records)
  then have "applyUptimeRecord parseFloat line up u = up u"
    by (auto simp: applyUptimeRecord_def Let_def split: option.splits)
  with Cons show ?case by simp
qed

lemma initializeUptimeMap_apply:
  "initializeUptimeMap joinSlash lls up u =
     (if u \<in> set (monitoredSubmissionURLs joinSlash lls) then Some None else up u)"
proof -
  have "fold (\<lambda>u up. up(u \<mapsto> None)) us up u = (if u \<in> set us then Some None else up u)"
    for us and up :: "string \<rightharpoonup> EndpointUptimes option"
    by (induction us arbitrary: up) auto
  then show ?thesis by (simp add: initializeUptimeMap_def)
qed

section \<open>The fetching loop\<close>

text \<open>UptimeFetcher: a fetch of both files whenever the timer fires, until the context is done.\<close>

datatype uptimeEvent =
    UptimeTimer "go_error + (int \<times> (go_error + string))" "go_error + (int \<times> (go_error + string))"
  | UptimeDone

fun UptimeFetcher ::
  "(string \<Rightarrow> string) \<Rightarrow> logList list \<Rightarrow> (string \<Rightarrow> float64 option) \<Rightarrow> uptimeEvent list \<Rightarrow> Monitor \<Rightarrow> Monitor outcome" where
  "UptimeFetcher joinSlash lls parseFloat [] m = Ok m"
| "UptimeFetcher joinSlash lls parseFloat (UptimeTimer resp24h resp90d # events) m =
     (case FetchEndpointUptimes joinSlash lls parseFloat resp24h resp90d m of
        Ok m' \<Rightarrow> UptimeFetcher joinSlash lls parseFloat events m'
      | Err e \<Rightarrow> Err e
      | Panic \<Rightarrow> Panic)"
| "UptimeFetcher joinSlash lls parseFloat (UptimeDone # events) m = Ok m"

end
