(* ===== verification/Strategy.thy ===== *)
theory Strategy
  imports Orchestrate_Correct Backoff Uptime STH_Monitor "HOL-Library.Multiset"
begin

text \<open>
  submitter/submitter.go and strategy.go: the submitter's compiled patterns and the strategy: every
  compatible log with its priority bucket, in the order in which the logs are tried. \<open>strategyEnv\<close>
  holds what the code gets from elsewhere: url.JoinPath(u, "/"), the printing of times, durations
  and percentages, the clock (reading \<open>k\<close> taken for log \<open>i\<close>), the random weights and slices.SortFunc.
\<close>

record strategyEnv =
  sv_joinSlash :: "string \<Rightarrow> string"
  sv_fmtTime :: "time \<Rightarrow> string"
  sv_fmtDuration :: "duration \<Rightarrow> string"
  sv_fmtPercent :: "float64 \<Rightarrow> string"
  sv_clock :: "nat \<Rightarrow> nat \<Rightarrow> time"
  sv_rand :: "nat \<Rightarrow> int"
  sv_sort :: "(StrategyMember \<Rightarrow> StrategyMember \<Rightarrow> int) \<Rightarrow> StrategyMember list \<Rightarrow> StrategyMember list"

text \<open>Compiled patterns are the predicates MatchString; an invalid pattern panics.\<close>

fun compileRegexes :: "(string \<Rightarrow> (string \<Rightarrow> bool) option) \<Rightarrow> string list \<Rightarrow> (string \<Rightarrow> bool) list outcome" where
  "compileRegexes compile [] = Ok []"
| "compileRegexes compile (p # ps) =
     (case compile p of
        None \<Rightarrow> Panic
      | Some re \<Rightarrow> (case compileRegexes compile ps of Ok res \<Rightarrow> Ok (re # res) | Err e \<Rightarrow> Err e | Panic \<Rightarrow> Panic))"

record Submitter =
  sb_cfg :: Settings
  sb_clientTimeout :: duration
  sb_excludedURLRegexes :: "(string \<Rightarrow> bool) list"
  sb_preferredURLRegexes :: "(string \<Rightarrow> bool) list"

definition newSubmitter :: "(string \<Rightarrow> (string \<Rightarrow> bool) option) \<Rightarrow> Settings \<Rightarrow> Submitter outcome" where
  "newSubmitter compile cfg =
     (case compileRegexes compile (excluded_LogURLRegex cfg) of
        Ok ex \<Rightarrow>
          (case compileRegexes compile (preferred_LogURLRegex cfg) of
             Ok pre \<Rightarrow> Ok \<lparr>sb_cfg = cfg, sb_clientTimeout = submission_HTTPTimeout cfg,
                          sb_excludedURLRegexes = ex, sb_preferredURLRegexes = pre\<rparr>
           | Err e \<Rightarrow> Err e | Panic \<Rightarrow> Panic)
      | Err e \<Rightarrow> Err e | Panic \<Rightarrow> Panic)"

section \<open>One member per compatible log\<close>

definition rfcMember :: "strategyEnv \<Rightarrow> string \<Rightarrow> Bucket \<Rightarrow> string \<Rightarrow> ctLog \<Rightarrow> StrategyMember" where
  "rfcMember env oper b oc l =
     (let submissionURL = sv_joinSlash env (log_URL l) in
      \<lparr>sm_SubmissionURL = submissionURL, sm_MonitoringURL = submissionURL, sm_Operator = oper,
       sm_LogName = log_Description l, sm_LogType = LOGTYPE_RFC6962, sm_MMD = log_MMD l, sm_Bucket = b,
       sm_DispreferredDetail = [], sm_RandomWeight = 0, sm_Outcome = oc, sm_BeganAfter = 0, sm_TimeTaken = 0\<rparr>)"

definition staticMember :: "strategyEnv \<Rightarrow> string \<Rightarrow> Bucket \<Rightarrow> string \<Rightarrow> tiledLog \<Rightarrow> StrategyMember" where
  "staticMember env oper b oc l =
     \<lparr>sm_SubmissionURL = sv_joinSlash env (tl_SubmissionURL l),
      sm_MonitoringURL = sv_joinSlash env (tl_MonitoringURL l), sm_Operator = oper,
      sm_LogName = tl_Description l, sm_LogType = LOGTYPE_STATIC, sm_MMD = tl_MMD l, sm_Bucket = b,
      sm_DispreferredDetail = [], sm_RandomWeight = 0, sm_Outcome = oc, sm_BeganAfter = 0, sm_TimeTaken = 0\<rparr>"

definition operatorMembers :: "strategyEnv \<Rightarrow> Settings \<Rightarrow> operator \<Rightarrow> StrategyMember list" where
  "operatorMembers env cfg oper =
     (let excl = (op_Name oper \<in> set (excluded_Operators cfg));
          b = (if excl then EXCLUDED else NEUTRAL);
          oc = (if excl then ''Operator excluded by config'' else [])
      in map (rfcMember env (op_Name oper) b oc) (op_Logs oper) @
         map (staticMember env (op_Name oper) b oc) (op_TiledLogs oper))"

definition populateStrategy :: "strategyEnv \<Rightarrow> Settings \<Rightarrow> logList \<Rightarrow> StrategyMember list" where
  "populateStrategy env cfg ll = concat (map (operatorMembers env cfg) ll)"

section \<open>Buckets\<close>

definition applyLogExclusionConfig :: "(string \<Rightarrow> bool) list \<Rightarrow> StrategyMember \<Rightarrow> StrategyMember" where
  "applyLogExclusionConfig regexes sm =
     (if list_ex (\<lambda>re. re (sm_SubmissionURL sm)) regexes
      then sm\<lparr>sm_Bucket := EXCLUDED, sm_Outcome := ''Log excluded by config''\<rparr> else sm)"

definition dispreferIfMMDBlown :: "strategyEnv \<Rightarrow> time \<Rightarrow> Monitor \<Rightarrow> StrategyMember \<Rightarrow> StrategyMember" where
  "dispreferIfMMDBlown env now mon sm =
     (case GetSTHData mon (sm_MonitoringURL sm) of
        None \<Rightarrow> sm\<lparr>sm_Bucket := EXCLUDED, sm_Outcome := ''No STH timestamp available''\<rparr>
      | Some sd \<Rightarrow>
          (case sth_Timestamp sd of
             None \<Rightarrow> sm
           | Some ts \<Rightarrow>
               let sthAge = timeSub now ts in
               if sm_MMD sm * second < sthAge
               then sm\<lparr>sm_Bucket := DISPREFERRED_MMDBLOWN,
                       sm_DispreferredDetail := ''STH age exceeds MMD ('' @ sv_fmtDuration env sthAge @ '' > '' @
                         showInt (sm_MMD sm) @ '')''\<rparr>
               else sm))"

definition dispreferIfLowUptime :: "strategyEnv \<Rightarrow> logEntryType \<Rightarrow> Monitor \<Rightarrow> Settings \<Rightarrow> StrategyMember \<Rightarrow> StrategyMember" where
  "dispreferIfLowUptime env entryType mon cfg sm =
     (let endpoint = (if entryType = PrecertLogEntryType then ''add-pre-chain'' else ''add-chain'');
          r24 = GetEndpointUptime24h mon (sm_SubmissionURL sm) endpoint;
          t24 = uptime_SubmitEndpoint24h cfg;
          sm1 = (if snd r24 \<and> fltLess (fst r24) t24
                 then sm\<lparr>sm_Bucket := DISPREFERRED_LOWUPTIME,
                         sm_DispreferredDetail := ''Submission endpoint 24h uptime below threshold ('' @
                           sv_fmtPercent env (fst r24) @ ''% < '' @ sv_fmtPercent env t24 @ ''%)''\<rparr>
                 else sm);
          r90 = GetEndpointUptime90d mon (sm_SubmissionURL sm) ''LOWEST'';
          t90 = uptime_LowestEndpoint90d cfg
      in if snd r90 \<and> fltLess (fst r90) t90
         then sm1\<lparr>sm_Bucket := DISPREFERRED_LOWUPTIME,
                  sm_DispreferredDetail := ''Lowest endpoint 90d uptime below threshold ('' @
                    sv_fmtPercent env (fst r90) @ ''% < '' @ sv_fmtPercent env t90 @ ''%)''\<rparr>
         else sm1)"

definition dispreferIfBadResponseBackoff :: "strategyEnv \<Rightarrow> time \<Rightarrow> time \<Rightarrow> Monitor \<Rightarrow> StrategyMember \<Rightarrow> StrategyMember" where
  "dispreferIfBadResponseBackoff env now now' mon sm =
     (case GetBadResponseBackoff (sv_fmtTime env) now now' mon (sm_SubmissionURL sm) of
        (backoffDuration, reason) \<Rightarrow>
          if 0 < backoffDuration
          then sm\<lparr>sm_Bucket := DISPREFERRED_RECENTBADRESPONSE, sm_DispreferredDetail := reason\<rparr> else sm)"

definition dispreferIfTimeoutBackoff :: "strategyEnv \<Rightarrow> time \<Rightarrow> time \<Rightarrow> Monitor \<Rightarrow> StrategyMember \<Rightarrow> StrategyMember" where
  "dispreferIfTimeoutBackoff env now now' mon sm =
     (case GetTimeoutBackoff (sv_fmtTime env) now now' mon (sm_SubmissionURL sm) of
        (backoffDuration, reason) \<Rightarrow>
          if 0 < backoffDuration
          then sm\<lparr>sm_Bucket := DISPREFERRED_RECENTTIMEOUT, sm_DispreferredDetail := reason\<rparr> else sm)"

definition dispreferIf5xxBackoff :: "strategyEnv \<Rightarrow> time \<Rightarrow> time \<Rightarrow> Monitor \<Rightarrow> StrategyMember \<Rightarrow> StrategyMember" where
  "dispreferIf5xxBackoff env now now' mon sm =
     (case Get5xxBackoff (sv_fmtTime env) now now' mon (sm_SubmissionURL sm) of
        (backoffDuration, reason, _) \<Rightarrow>
          if 0 < backoffDuration
          then sm\<lparr>sm_Bucket := DISPREFERRED_RECENT5XX, sm_DispreferredDetail := reason\<rparr> else sm)"

definition dispreferIf4xxBackoff :: "strategyEnv \<Rightarrow> time \<Rightarrow> time \<Rightarrow> Monitor \<Rightarrow> StrategyMember \<Rightarrow> StrategyMember" where
  "dispreferIf4xxBackoff env now now' mon sm =
     (case Get4xxBackoff (sv_fmtTime env) now now' mon (sm_SubmissionURL sm) of
        (backoffDuration, reason, _) \<Rightarrow>
          if 0 < backoffDuration
          then sm\<lparr>sm_Bucket := DISPREFERRED_RECENT4XX, sm_DispreferredDetail := reason\<rparr> else sm)"

definition dispreferIfSlowResponseBackoff :: "strategyEnv \<Rightarrow> time \<Rightarrow> time \<Rightarrow> Monitor \<Rightarrow> StrategyMember \<Rightarrow> StrategyMember" where
  "dispreferIfSlowResponseBackoff env now now' mon sm =
     (case GetSlowResponseBackoff (sv_fmtTime env) now now' mon (sm_SubmissionURL sm) of
        (backoffDuration, reason) \<Rightarrow>
          if 0 < backoffDuration
          then sm\<lparr>sm_Bucket := DISPREFERRED_SLOWRESPONSES, sm_DispreferredDetail := reason\<rparr> else sm)"

definition applyLogPreferenceConfig :: "(string \<Rightarrow> bool) list \<Rightarrow> StrategyMember \<Rightarrow> StrategyMember" where
  "applyLogPreferenceConfig regexes sm =
     (if sm_Bucket sm \<noteq> EXCLUDED \<and> list_ex (\<lambda>re. re (sm_SubmissionURL sm)) regexes
      then sm\<lparr>sm_Bucket := PREFERRED_BYCONFIG\<rparr> else sm)"

text \<open>The body of the loop over the members: each test runs only while the bucket is NEUTRAL.\<close>

definition ifNeutral :: "(StrategyMember \<Rightarrow> StrategyMember) \<Rightarrow> StrategyMember \<Rightarrow> StrategyMember" where
  "ifNeutral f sm = (if sm_Bucket sm = NEUTRAL then f sm else sm)"

definition bucketTests :: "strategyEnv \<Rightarrow> Submitter \<Rightarrow> Monitor \<Rightarrow> logEntryType \<Rightarrow> nat \<Rightarrow> (StrategyMember \<Rightarrow> StrategyMember) list" where
  "bucketTests env sub mon entryType i =
     (let t = sv_clock env i in
      [dispreferIfMMDBlown env (t 0) mon,
       dispreferIfLowUptime env entryType mon (sb_cfg sub),
       dispreferIfBadResponseBackoff env (t 1) (t 2) mon,
       dispreferIfTimeoutBackoff env (t 3) (t 4) mon,
       dispreferIf5xxBackoff env (t 5) (t 6) mon,
       dispreferIf4xxBackoff env (t 7) (t 8) mon,
       dispreferIfSlowResponseBackoff env (t 9) (t 10) mon,
       applyLogPreferenceConfig (sb_preferredURLRegexes sub)])"

definition assignWeight :: "strategyEnv \<Rightarrow> nat \<Rightarrow> StrategyMember \<Rightarrow> StrategyMember" where
  "assignWeight env i sm =
     (if sm_Bucket sm \<noteq> EXCLUDED then sm\<lparr>sm_RandomWeight := sv_rand env i\<rparr> else sm)"

definition assignBucket :: "strategyEnv \<Rightarrow> Submitter \<Rightarrow> Monitor \<Rightarrow> logEntryType \<Rightarrow> nat \<Rightarrow> StrategyMember \<Rightarrow> StrategyMember" where
  "assignBucket env sub mon entryType i sm =
     assignWeight env i
       (fold ifNeutral (bucketTests env sub mon entryType i)
         (applyLogExclusionConfig (sb_excludedURLRegexes sub) sm))"

definition cmpCompare :: "'a::linorder \<Rightarrow> 'a \<Rightarrow> int" where
  "cmpCompare a b = (if a < b then -1 else if a = b then 0 else 1)"

definition sortStrategyMembers :: "StrategyMember \<Rightarrow> StrategyMember \<Rightarrow> int" where
  "sortStrategyMembers sm1 sm2 =
     (let result = cmpCompare (sm_Bucket sm1) (sm_Bucket sm2) in
      if result \<noteq> 0 then - result else cmpCompare (sm_RandomWeight sm1) (sm_RandomWeight sm2))"

definition devizeSubmissionStrategy ::
  "strategyEnv \<Rightarrow> Submitter \<Rightarrow> Monitor \<Rightarrow> logList \<Rightarrow> logEntryType \<Rightarrow> StrategyMember list" where
  "devizeSubmissionStrategy env sub mon ll entryType =
     sv_sort env sortStrategyMembers
       (map (\<lambda>(i, sm). assignBucket env sub mon entryType i sm)
         (enumerate 0 (populateStrategy env (sb_cfg sub) ll)))"

section \<open>The contract of the sort\<close>

text \<open>
  slices.SortFunc promises a permutation sorted by the comparison, not stability. Insertion sort,
  which package slices itself uses for short slices, keeps the promise.
\<close>

definition weakOrder :: "('a \<Rightarrow> 'a \<Rightarrow> int) \<Rightarrow> bool" where
  "weakOrder cmp \<longleftrightarrow> (\<forall>a b. cmp a b \<le> 0 \<or> cmp b a \<le> 0) \<and> (\<forall>a b c. cmp a b \<le> 0 \<longrightarrow> cmp b c \<le> 0 \<longrightarrow> cmp a c \<le> 0)"

locale sort_function =
  fixes sortFn :: "('a \<Rightarrow> 'a \<Rightarrow> int) \<Rightarrow> 'a list \<Rightarrow> 'a list"
  assumes permutes: "mset (sortFn cmp xs) = mset xs"
    and sorts: "weakOrder cmp \<Longrightarrow> sorted_wrt (\<lambda>a b. cmp a b \<le> 0) (sortFn cmp xs)"
begin

lemma set_sort [simp]: "set (sortFn cmp xs) = set xs"
  by (metis permutes set_mset_mset)

lemma length_sort [simp]: "length (sortFn cmp xs) = length xs"
  by (metis permutes size_mset)

lemma sort_before:
  "weakOrder cmp \<Longrightarrow> i < j \<Longrightarrow> j < length xs \<Longrightarrow> cmp (sortFn cmp xs ! i) (sortFn cmp xs ! j) \<le> 0"
  using sorts by (metis length_sort sorted_wrt_nth_less)

end

fun insertBy :: "('a \<Rightarrow> 'a \<Rightarrow> int) \<Rightarrow> 'a \<Rightarrow> 'a list \<Rightarrow> 'a list" where
  "insertBy cmp x [] = [x]"
| "insertBy cmp x (y # ys) = (if cmp x y \<le> 0 then x # y # ys else y # insertBy cmp x ys)"

definition insertionSort :: "('a \<Rightarrow> 'a \<Rightarrow> int) \<Rightarrow> 'a list \<Rightarrow> 'a list" where
  "insertionSort cmp xs = foldr (insertBy cmp) xs []"

lemma mset_insertBy: "mset (insertBy cmp x ys) = add_mset x (mset ys)"
  by (induction ys) auto

lemma sorted_insertBy:
  assumes "weakOrder cmp" and "sorted_wrt (\<lambda>a b. cmp a b \<le> 0) ys"
  shows "sorted_wrt (\<lambda>a b. cmp a b \<le> 0) (insertBy cmp x ys)"
  using assms(2)
proof (induction ys)
  case Nil
  then show ?case by simp
next
  case (Cons y ys)
  have set: "set (insertBy cmp x ys) = insert x (set ys)"
    using mset_insertBy [of cmp x ys] by (metis set_mset_add_mset_insert set_mset_mset)
  show ?case
  proof (cases "cmp x y \<le> 0")
    case True
    then show ?thesis using Cons.prems assms(1) unfolding weakOrder_def by auto
  next
    case False
    then have "cmp y x \<le> 0" using assms(1) unfolding weakOrder_def by blast
    then show ?thesis using Cons False set by auto
  qed
qed

interpretation insertion: sort_function insertionSort
proof
  show "mset (insertionSort cmp xs) = mset xs" for cmp and xs :: "'a list"
    by (induction xs) (simp_all add: insertionSort_def mset_insertBy)
  show "weakOrder cmp \<Longrightarrow> sorted_wrt (\<lambda>a b. cmp a b \<le> 0) (insertionSort cmp xs)" for cmp and xs :: "'a list"
    by (induction xs) (simp_all add: insertionSort_def sorted_insertBy)
qed

lemma sortStrategyMembers_le_iff:
  "sortStrategyMembers a b \<le> 0 \<longleftrightarrow>
     sm_Bucket b < sm_Bucket a \<or> sm_Bucket a = sm_Bucket b \<and> sm_RandomWeight a \<le> sm_RandomWeight b"
  by (auto simp: sortStrategyMembers_def cmpCompare_def Let_def)

lemma weakOrder_sortStrategyMembers: "weakOrder sortStrategyMembers"
  unfolding weakOrder_def sortStrategyMembers_le_iff by (auto; force)

section \<open>What the tests do to a member\<close>

lemma bucket_step_frame:
  assumes "f \<in> set (bucketTests env sub mon entryType i)"
  shows "sameLog (f sm) sm" and "sm_BeganAfter (f sm) = sm_BeganAfter sm"
    and "sm_Outcome sm \<noteq> successful \<Longrightarrow> sm_Outcome (f sm) \<noteq> successful"
  using assms
  by (auto simp: bucketTests_def Let_def dispreferIfMMDBlown_def dispreferIfLowUptime_def
      dispreferIfBadResponseBackoff_def dispreferIfTimeoutBackoff_def dispreferIf5xxBackoff_def
      dispreferIf4xxBackoff_def dispreferIfSlowResponseBackoff_def applyLogPreferenceConfig_def
      sameLog_def successful_def split: option.splits prod.splits if_splits)

lemma fold_ifNeutral_frame:
  "\<forall>f \<in> set fs. \<forall>sm. sameLog (f sm) sm \<and> sm_BeganAfter (f sm) = sm_BeganAfter sm \<and>
     (sm_Outcome sm \<noteq> successful \<longrightarrow> sm_Outcome (f sm) \<noteq> successful) \<Longrightarrow>
   sameLog (fold ifNeutral fs sm) sm \<and> sm_BeganAfter (fold ifNeutral fs sm) = sm_BeganAfter sm \<and>
     (sm_Outcome sm \<noteq> successful \<longrightarrow> sm_Outcome (fold ifNeutral fs sm) \<noteq> successful)"
  by (induction fs arbitrary: sm) (auto simp: ifNeutral_def intro: sameLog_trans)

lemma assignBucket_frame:
  "sameLog (assignBucket env sub mon entryType i sm) sm"
  "sm_BeganAfter (assignBucket env sub mon entryType i sm) = sm_BeganAfter sm"
  "sm_Outcome sm \<noteq> successful \<Longrightarrow> sm_Outcome (assignBucket env sub mon entryType i sm) \<noteq> successful"
proof -
  let ?sm = "applyLogExclusionConfig (sb_excludedURLRegexes sub) sm"
  have ex: "sameLog ?sm sm" "sm_BeganAfter ?sm = sm_BeganAfter sm"
    "sm_Outcome sm \<noteq> successful \<longrightarrow> sm_Outcome ?sm \<noteq> successful"
    by (auto simp: applyLogExclusionConfig_def sameLog_def successful_def)
  have "sameLog (fold ifNeutral (bucketTests env sub mon entryType i) ?sm) ?sm \<and>
      sm_BeganAfter (fold ifNeutral (bucketTests env sub mon entryType i) ?sm) = sm_BeganAfter ?sm \<and>
      (sm_Outcome ?sm \<noteq> successful \<longrightarrow> sm_Outcome (fold ifNeutral (bucketTests env sub mon entryType i) ?sm) \<noteq> successful)"
    by (rule fold_ifNeutral_frame, intro ballI allI conjI impI; rule bucket_step_frame; assumption)
  then show "sameLog (assignBucket env sub mon entryType i sm) sm"
    "sm_BeganAfter (assignBucket env sub mon entryType i sm) = sm_BeganAfter sm"
    "sm_Outcome sm \<noteq> successful \<Longrightarrow> sm_Outcome (assignBucket env sub mon entryType i sm) \<noteq> successful"
    using ex by (auto simp: assignBucket_def assignWeight_def sameLog_def)
qed

text \<open>Once out of NEUTRAL, a member keeps its bucket.\<close>

lemma fold_ifNeutral_stuck: "sm_Bucket sm \<noteq> NEUTRAL \<Longrightarrow> fold ifNeutral fs sm = sm"
  by (induction fs) (simp_all add: ifNeutral_def)

definition lowUptime :: "logEntryType \<Rightarrow> Monitor \<Rightarrow> Settings \<Rightarrow> string \<Rightarrow> bool" where
  "lowUptime entryType mon cfg u \<longleftrightarrow>
     (let r24 = GetEndpointUptime24h mon u (if entryType = PrecertLogEntryType then ''add-pre-chain'' else ''add-chain'');
          r90 = GetEndpointUptime90d mon u ''LOWEST''
      in snd r24 \<and> fltLess (fst r24) (uptime_SubmitEndpoint24h cfg) \<or>
         snd r90 \<and> fltLess (fst r90) (uptime_LowestEndpoint90d cfg))"

definition mmdBlown :: "time \<Rightarrow> STHData \<Rightarrow> int \<Rightarrow> bool" where
  "mmdBlown now sd mmd \<longleftrightarrow> (\<exists>ts. sth_Timestamp sd = Some ts \<and> mmd * second < timeSub now ts)"

text \<open>The bucket as a decision list: the first reason that applies.\<close>

definition bucketOf ::
  "strategyEnv \<Rightarrow> Submitter \<Rightarrow> Monitor \<Rightarrow> logEntryType \<Rightarrow> nat \<Rightarrow> StrategyMember \<Rightarrow> Bucket" where
  "bucketOf env sub mon entryType i sm =
     (let u = sm_SubmissionURL sm; t = sv_clock env i; fmt = sv_fmtTime env in
      if sm_Bucket sm = EXCLUDED \<or> list_ex (\<lambda>re. re u) (sb_excludedURLRegexes sub) then EXCLUDED
      else case GetSTHData mon (sm_MonitoringURL sm) of
        None \<Rightarrow> EXCLUDED
      | Some sd \<Rightarrow>
          if mmdBlown (t 0) sd (sm_MMD sm) then DISPREFERRED_MMDBLOWN
          else if lowUptime entryType mon (sb_cfg sub) u then DISPREFERRED_LOWUPTIME
          else if 0 < fst (GetBadResponseBackoff fmt (t 1) (t 2) mon u) then DISPREFERRED_RECENTBADRESPONSE
          else if 0 < fst (GetTimeoutBackoff fmt (t 3) (t 4) mon u) then DISPREFERRED_RECENTTIMEOUT
          else if 0 < fst (Get5xxBackoff fmt (t 5) (t 6) mon u) then DISPREFERRED_RECENT5XX
          else if 0 < fst (Get4xxBackoff fmt (t 7) (t 8) mon u) then DISPREFERRED_RECENT4XX
          else if 0 < fst (GetSlowResponseBackoff fmt (t 9) (t 10) mon u) then DISPREFERRED_SLOWRESPONSES
          else if list_ex (\<lambda>re. re u) (sb_preferredURLRegexes sub) then PREFERRED_BYCONFIG
          else NEUTRAL)"

lemma step_cases:
  "dispreferIfMMDBlown env now mon sm =
     (case GetSTHData mon (sm_MonitoringURL sm) of
        None \<Rightarrow> sm\<lparr>sm_Bucket := EXCLUDED, sm_Outcome := ''No STH timestamp available''\<rparr>
      | Some sd \<Rightarrow> if mmdBlown now sd (sm_MMD sm)
          then sm\<lparr>sm_Bucket := DISPREFERRED_MMDBLOWN, sm_DispreferredDetail :=
            ''STH age exceeds MMD ('' @ sv_fmtDuration env (timeSub now (the (sth_Timestamp sd))) @ '' > '' @
                         showInt (sm_MMD sm) @ '')''\<rparr>
          else sm)"
  by (auto simp: dispreferIfMMDBlown_def mmdBlown_def Let_def split: option.split)

lemma lowUptime_step:
  "lowUptime entryType mon cfg (sm_SubmissionURL sm) \<Longrightarrow> sm_Bucket (dispreferIfLowUptime env entryType mon cfg sm) = DISPREFERRED_LOWUPTIME"
  "\<not> lowUptime entryType mon cfg (sm_SubmissionURL sm) \<Longrightarrow> dispreferIfLowUptime env entryType mon cfg sm = sm"
  by (auto simp: dispreferIfLowUptime_def lowUptime_def Let_def split: if_splits)

lemma backoff_steps:
  "dispreferIfBadResponseBackoff env t t' mon sm =
     (if 0 < fst (GetBadResponseBackoff (sv_fmtTime env) t t' mon (sm_SubmissionURL sm))
      then sm\<lparr>sm_Bucket := DISPREFERRED_RECENTBADRESPONSE,
              sm_DispreferredDetail := snd (GetBadResponseBackoff (sv_fmtTime env) t t' mon (sm_SubmissionURL sm))\<rparr> else sm)"
  "dispreferIfTimeoutBackoff env t t' mon sm =
     (if 0 < fst (GetTimeoutBackoff (sv_fmtTime env) t t' mon (sm_SubmissionURL sm))
      then sm\<lparr>sm_Bucket := DISPREFERRED_RECENTTIMEOUT,
              sm_DispreferredDetail := snd (GetTimeoutBackoff (sv_fmtTime env) t t' mon (sm_SubmissionURL sm))\<rparr> else sm)"
  "dispreferIf5xxBackoff env t t' mon sm =
     (if 0 < fst (Get5xxBackoff (sv_fmtTime env) t t' mon (sm_SubmissionURL sm))
      then sm\<lparr>sm_Bucket := DISPREFERRED_RECENT5XX,
              sm_DispreferredDetail := fst (snd (Get5xxBackoff (sv_fmtTime env) t t' mon (sm_SubmissionURL sm)))\<rparr> else sm)"
  "dispreferIf4xxBackoff env t t' mon sm =
     (if 0 < fst (Get4xxBackoff (sv_fmtTime env) t t' mon (sm_SubmissionURL sm))
      then sm\<lparr>sm_Bucket := DISPREFERRED_RECENT4XX,
              sm_DispreferredDetail := fst (snd (Get4xxBackoff (sv_fmtTime env) t t' mon (sm_SubmissionURL sm)))\<rparr> else sm)"
  "dispreferIfSlowResponseBackoff env t t' mon sm =
     (if 0 < fst (GetSlowResponseBackoff (sv_fmtTime env) t t' mon (sm_SubmissionURL sm))
      then sm\<lparr>sm_Bucket := DISPREFERRED_SLOWRESPONSES,
              sm_DispreferredDetail := snd (GetSlowResponseBackoff (sv_fmtTime env) t t' mon (sm_SubmissionURL sm))\<rparr> else sm)"
  by (simp_all add: dispreferIfBadResponseBackoff_def dispreferIfTimeoutBackoff_def dispreferIf5xxBackoff_def
      dispreferIf4xxBackoff_def dispreferIfSlowResponseBackoff_def split: prod.split)

text \<open>assignBucket computes exactly this decision list.\<close>

lemma assignBucket_bucket:
  assumes "sm_Bucket sm = NEUTRAL \<or> sm_Bucket sm = EXCLUDED"
  shows "sm_Bucket (assignBucket env sub mon entryType i sm) = bucketOf env sub mon entryType i sm"
proof -
  let ?sm = "applyLogExclusionConfig (sb_excludedURLRegexes sub) sm"
  let ?tests = "bucketTests env sub mon entryType i"
  have w: "sm_Bucket (assignWeight env i x) = sm_Bucket x" for x by (simp add: assignWeight_def)
  show ?thesis
  proof (cases "sm_Bucket sm = EXCLUDED \<or> list_ex (\<lambda>re. re (sm_SubmissionURL sm)) (sb_excludedURLRegexes sub)")
    case True
    then have "sm_Bucket ?sm = EXCLUDED" by (auto simp: applyLogExclusionConfig_def)
    then show ?thesis using True w fold_ifNeutral_stuck [of ?sm ?tests] by (simp add: assignBucket_def bucketOf_def Let_def)
  next
    case False
    then have sm: "?sm = sm" "sm_Bucket sm = NEUTRAL" using assms by (auto simp: applyLogExclusionConfig_def)
    have stuck: "sm_Bucket x \<noteq> NEUTRAL \<Longrightarrow> ifNeutral f x = x" for f x by (simp add: ifNeutral_def)
    have run: "sm_Bucket x = NEUTRAL \<Longrightarrow> ifNeutral f x = f x" for f x by (simp add: ifNeutral_def)
    have "sm_Bucket (fold ifNeutral ?tests sm) = bucketOf env sub mon entryType i sm"
    proof (cases "GetSTHData mon (sm_MonitoringURL sm)")
      case None
      then show ?thesis using False sm by (simp add: bucketTests_def Let_def bucketOf_def step_cases run stuck)
    next
      case (Some sd)
      show ?thesis
      proof (cases "mmdBlown (sv_clock env i 0) sd (sm_MMD sm)")
        case True
        then show ?thesis using False Some sm by (simp add: bucketTests_def Let_def bucketOf_def step_cases run stuck)
      next
        case ok: False
        show ?thesis
        proof (cases "lowUptime entryType mon (sb_cfg sub) (sm_SubmissionURL sm)")
          case True
          then show ?thesis using False Some sm ok
            by (simp add: bucketTests_def Let_def bucketOf_def step_cases lowUptime_step run stuck)
        next
          case up: False
          show ?thesis using False Some sm ok up
            by (simp add: bucketTests_def Let_def bucketOf_def step_cases lowUptime_step backoff_steps run stuck
                applyLogPreferenceConfig_def)
        qed
      qed
    qed
    then show ?thesis using sm(1) w by (simp add: assignBucket_def)
  qed
qed

section \<open>The strategy\<close>

lemma operatorMembers_fresh:
  "sm \<in> set (operatorMembers env cfg oper) \<Longrightarrow> sm_BeganAfter sm = 0 \<and> sm_Outcome sm \<noteq> successful \<and>
     (sm_Bucket sm = NEUTRAL \<or> sm_Bucket sm = EXCLUDED) \<and> sm_Operator sm = op_Name oper \<and>
     (sm_Bucket sm = EXCLUDED \<longleftrightarrow> op_Name oper \<in> set (excluded_Operators cfg))"
  by (auto simp: operatorMembers_def rfcMember_def staticMember_def Let_def successful_def split: if_splits)

lemma populate_fresh:
  "sm \<in> set (populateStrategy env cfg ll) \<Longrightarrow> sm_BeganAfter sm = 0 \<and> sm_Outcome sm \<noteq> successful \<and>
     (sm_Bucket sm = NEUTRAL \<or> sm_Bucket sm = EXCLUDED) \<and>
     (sm_Bucket sm = EXCLUDED \<longleftrightarrow> sm_Operator sm \<in> set (excluded_Operators cfg))"
  using operatorMembers_fresh by (fastforce simp: populateStrategy_def)

lemma length_populate: "length (populateStrategy env cfg ll) =
    (\<Sum>oper \<leftarrow> ll. length (op_Logs oper) + length (op_TiledLogs oper))"
  by (induction ll) (simp_all add: populateStrategy_def operatorMembers_def Let_def)

abbreviation bucketed :: "strategyEnv \<Rightarrow> Submitter \<Rightarrow> Monitor \<Rightarrow> logList \<Rightarrow> logEntryType \<Rightarrow> StrategyMember list" where
  "bucketed env sub mon ll entryType \<equiv>
     map (\<lambda>(i, sm). assignBucket env sub mon entryType i sm)
       (enumerate 0 (populateStrategy env (sb_cfg sub) ll))"

lemma bucketed_in:
  assumes "sm \<in> set (bucketed env sub mon ll entryType)"
  obtains i sm0 where "i < length (populateStrategy env (sb_cfg sub) ll)"
    "sm0 = populateStrategy env (sb_cfg sub) ll ! i" "sm = assignBucket env sub mon entryType i sm0"
  using assms by (auto simp: in_set_enumerate_eq)

lemma devize_set:
  assumes "sort_function (sv_sort env)"
  shows "set (devizeSubmissionStrategy env sub mon ll entryType) = set (bucketed env sub mon ll entryType)"
  using sort_function.set_sort [OF assms] by (simp add: devizeSubmissionStrategy_def)

lemma devize_length:
  assumes "sort_function (sv_sort env)"
  shows "length (devizeSubmissionStrategy env sub mon ll entryType) =
    (\<Sum>oper \<leftarrow> ll. length (op_Logs oper) + length (op_TiledLogs oper))"
  using sort_function.length_sort [OF assms] length_populate by (simp add: devizeSubmissionStrategy_def)

text \<open>Each member is one of the populated ones with its decided bucket, untouched by any submission.\<close>

lemma devize_member:
  assumes "sort_function (sv_sort env)" and "sm \<in> set (devizeSubmissionStrategy env sub mon ll entryType)"
  shows "\<exists>i sm0. sm0 \<in> set (populateStrategy env (sb_cfg sub) ll) \<and> sameLog sm sm0 \<and>
    sm_Bucket sm = bucketOf env sub mon entryType i sm0 \<and> sm_BeganAfter sm = 0 \<and> sm_Outcome sm \<noteq> successful"
proof -
  obtain i sm0 where "sm0 \<in> set (populateStrategy env (sb_cfg sub) ll)" "sm = assignBucket env sub mon entryType i sm0"
    using assms(2) unfolding devize_set [OF assms(1)] by (metis bucketed_in nth_mem)
  then show ?thesis
    using populate_fresh assignBucket_frame assignBucket_bucket by metis
qed

lemma devize_fresh:
  assumes "sort_function (sv_sort env)"
  shows "freshStrategy (devizeSubmissionStrategy env sub mon ll entryType)"
  unfolding freshStrategy_def list_all_iff using devize_member [OF assms] by blast

lemma devize_sorted:
  assumes "sort_function (sv_sort env)" and "i < j" and "j < length (devizeSubmissionStrategy env sub mon ll entryType)"
  shows "sortStrategyMembers (devizeSubmissionStrategy env sub mon ll entryType ! i)
    (devizeSubmissionStrategy env sub mon ll entryType ! j) \<le> 0"
  using sort_function.sort_before [OF assms(1) weakOrder_sortStrategyMembers assms(2)] assms(3)
    sort_function.length_sort [OF assms(1)]
  by (simp add: devizeSubmissionStrategy_def)

end
