(* ===== verification/Chain_Cache.thy ===== *)
theory Chain_Cache
  imports CT_Types
begin

text \<open>
  pki/chain.go: chain validation against a log's accepted roots, with its cache. The cache is the
  nested map of the package; it has an inner map exactly for the logs whose accepted roots are
  known. SHA-256, the accepted roots and ctfe.ValidateChain are the parameters of \<open>chainLib\<close>;
  an interval is absent when the log has none.
\<close>

type_synonym chainCache = "bytes \<rightharpoonup> (bytes \<rightharpoonup> bool)"

record 'pool chainLib =
  cl_sha256 :: "bytes \<Rightarrow> bytes"
  cl_acceptedRoots :: "bytes \<Rightarrow> 'pool option"
  cl_validate :: "'pool \<Rightarrow> time \<Rightarrow> temporalInterval option \<Rightarrow> bytes list \<Rightarrow> bool"

definition initChainCache :: "'pool chainLib \<Rightarrow> chainCache" where
  "initChainCache lib = (\<lambda>logID. if cl_acceptedRoots lib logID = None then None else Some Map.empty)"

definition cachedValidateChainResult :: "chainCache \<Rightarrow> bytes \<Rightarrow> bytes \<Rightarrow> bool option" where
  "cachedValidateChainResult cache logID chainSHA256 =
     (case cache logID of None \<Rightarrow> None | Some m \<Rightarrow> m chainSHA256)"

definition cacheValidateChainResult :: "bytes \<Rightarrow> bytes \<Rightarrow> bool \<Rightarrow> chainCache \<Rightarrow> chainCache" where
  "cacheValidateChainResult logID chainSHA256 chainIsValid cache =
     (case cache logID of None \<Rightarrow> cache | Some m \<Rightarrow> cache(logID \<mapsto> m(chainSHA256 \<mapsto> chainIsValid)))"

definition chainKey :: "'pool chainLib \<Rightarrow> bytes list \<Rightarrow> bytes" where
  "chainKey lib submittedChain = cl_sha256 lib (concat (tl submittedChain))"

definition ValidateChain ::
  "'pool chainLib \<Rightarrow> time \<Rightarrow> bytes \<Rightarrow> bytes list \<Rightarrow> temporalInterval option \<Rightarrow> chainCache \<Rightarrow> bool \<times> chainCache" where
  "ValidateChain lib now logID submittedChain interval cache =
     (let key = chainKey lib submittedChain;
          cached = (if 1 < length submittedChain then cachedValidateChainResult cache logID key else None)
      in case cached of
           Some chainIsValid \<Rightarrow> (chainIsValid, cache)
         | None \<Rightarrow>
             (case cl_acceptedRoots lib logID of
                Some pool \<Rightarrow>
                  let chainIsValid = cl_validate lib pool now interval submittedChain in
                  (chainIsValid,
                   if 1 < length submittedChain then cacheValidateChainResult logID key chainIsValid cache else cache)
              | None \<Rightarrow> (True, cache)))"

section \<open>The contract of a result cache\<close>

text \<open>What ValidateChain relies on: a stored result is found again, and only under its own keys.\<close>

locale result_cache =
  fixes lookup :: "'c \<Rightarrow> 'l \<Rightarrow> 'k \<Rightarrow> bool option"
    and store :: "'l \<Rightarrow> 'k \<Rightarrow> bool \<Rightarrow> 'c \<Rightarrow> 'c"
    and hosts :: "'c \<Rightarrow> 'l \<Rightarrow> bool"
  assumes lookup_store: "hosts c l \<Longrightarrow> lookup (store l k b c) l k = Some b"
    and lookup_other: "(l', k') \<noteq> (l, k) \<Longrightarrow> lookup (store l k b c) l' k' = lookup c l' k'"
    and hosts_store: "hosts (store l k b c) l' = hosts c l'"
    and not_hosted: "\<not> hosts c l \<Longrightarrow> lookup c l k = None"
begin

lemma lookup_some_hosts: "lookup c l k = Some b \<Longrightarrow> hosts c l"
  using not_hosted by fastforce

text \<open>Storing only unknown keys never changes a stored answer.\<close>

lemma store_fresh_keeps: "lookup c l k = None \<Longrightarrow> lookup c l' k' = Some b' \<Longrightarrow> lookup (store l k b c) l' k' = Some b'"
  by (cases "(l', k') = (l, k)") (auto simp: lookup_other)

end

interpretation chainCache: result_cache cachedValidateChainResult cacheValidateChainResult "\<lambda>c l. c l \<noteq> None"
  by unfold_locales
    (auto simp: cachedValidateChainResult_def cacheValidateChainResult_def split: option.splits)

section \<open>What ValidateChain answers\<close>

text \<open>The cache hosts exactly the logs with known roots; init establishes it, ValidateChain keeps it.\<close>

definition cacheHosts :: "'pool chainLib \<Rightarrow> chainCache \<Rightarrow> bool" where
  "cacheHosts lib cache \<longleftrightarrow> (\<forall>logID. cache logID \<noteq> None \<longleftrightarrow> cl_acceptedRoots lib logID \<noteq> None)"

lemma cacheHosts_init: "cacheHosts lib (initChainCache lib)"
  by (simp add: cacheHosts_def initChainCache_def)

lemma cacheHosts_validate:
  "cacheHosts lib cache \<Longrightarrow> cacheHosts lib (snd (ValidateChain lib now logID chain interval cache))"
  by (auto simp: cacheHosts_def ValidateChain_def Let_def cacheValidateChainResult_def split: option.split)

text \<open>A stored result is never overwritten, whatever is validated later.\<close>

lemma validate_keeps:
  assumes "cachedValidateChainResult cache l k = Some b"
  shows "cachedValidateChainResult (snd (ValidateChain lib now logID chain interval cache)) l k = Some b"
proof (cases "1 < length chain \<and> cachedValidateChainResult cache logID (chainKey lib chain) = None")
  case True
  then show ?thesis
    using assms chainCache.store_fresh_keeps by (auto simp: ValidateChain_def Let_def split: option.split)
next
  case False
  then show ?thesis using assms by (auto simp: ValidateChain_def Let_def split: option.split)
qed

text \<open>After one validation with issuers, every later one of the same issuers gives the same answer.\<close>

lemma validate_sticks:
  assumes hosts: "cacheHosts lib cache" and len: "1 < length chain" and roots: "cl_acceptedRoots lib logID \<noteq> None"
  shows "cachedValidateChainResult (snd (ValidateChain lib now logID chain interval cache)) logID (chainKey lib chain) =
    Some (fst (ValidateChain lib now logID chain interval cache))"
proof -
  have "cache logID \<noteq> None" using hosts roots by (simp add: cacheHosts_def)
  then show ?thesis
    using len roots chainCache.lookup_store by (auto simp: ValidateChain_def Let_def split: option.split)
qed

text \<open>A sequence of calls, each with its own clock reading.\<close>

type_synonym chainCall = "time \<times> bytes \<times> bytes list \<times> temporalInterval option"

definition validateCalls :: "'pool chainLib \<Rightarrow> chainCall list \<Rightarrow> chainCache \<Rightarrow> chainCache" where
  "validateCalls lib calls cache =
     fold (\<lambda>(now, logID, chain, interval) c. snd (ValidateChain lib now logID chain interval c)) calls cache"

text \<open>Every stored answer was given by the validator for some earlier chain with the same issuers.\<close>

definition cacheSound :: "'pool chainLib \<Rightarrow> chainCall list \<Rightarrow> chainCache \<Rightarrow> bool" where
  "cacheSound lib calls cache \<longleftrightarrow>
     (\<forall>logID key b. cachedValidateChainResult cache logID key = Some b \<longrightarrow>
        (\<exists>now chain interval pool. (now, logID, chain, interval) \<in> set calls \<and> 1 < length chain \<and>
           chainKey lib chain = key \<and> cl_acceptedRoots lib logID = Some pool \<and>
           b = cl_validate lib pool now interval chain))"

lemma validate_stores:
  assumes "cachedValidateChainResult (snd (ValidateChain lib now logID chain interval cache)) l k = Some b"
  shows "cachedValidateChainResult cache l k = Some b \<or>
    (l = logID \<and> k = chainKey lib chain \<and> 1 < length chain \<and>
      (\<exists>pool. cl_acceptedRoots lib logID = Some pool \<and> b = cl_validate lib pool now interval chain))"
  using assms
  by (auto simp: ValidateChain_def cachedValidateChainResult_def cacheValidateChainResult_def Let_def
      split: option.splits if_splits)

lemma cacheSound_calls:
  assumes "cacheSound lib before cache"
  shows "cacheSound lib (before @ calls) (validateCalls lib calls cache)"
  using assms
proof (induction calls arbitrary: before cache)
  case Nil
  then show ?case by (simp add: validateCalls_def)
next
  case (Cons call calls)
  obtain now logID chain interval where call: "call = (now, logID, chain, interval)" by (cases call) auto
  let ?c = "snd (ValidateChain lib now logID chain interval cache)"
  have "cacheSound lib (before @ [call]) ?c"
    unfolding cacheSound_def
  proof (intro allI impI)
    fix l k b
    assume "cachedValidateChainResult ?c l k = Some b"
    from validate_stores [OF this]
    show "\<exists>now chain interval pool. (now, l, chain, interval) \<in> set (before @ [call]) \<and> 1 < length chain \<and>
        chainKey lib chain = k \<and> cl_acceptedRoots lib l = Some pool \<and> b = cl_validate lib pool now interval chain"
    proof
      assume "cachedValidateChainResult cache l k = Some b"
      with Cons.prems obtain n c i p where "(n, l, c, i) \<in> set before" "1 < length c" "chainKey lib c = k"
        "cl_acceptedRoots lib l = Some p" "b = cl_validate lib p n i c"
        unfolding cacheSound_def by blast
      then show ?thesis by (metis Un_iff set_append)
    next
      assume "l = logID \<and> k = chainKey lib chain \<and> 1 < length chain \<and>
        (\<exists>pool. cl_acceptedRoots lib logID = Some pool \<and> b = cl_validate lib pool now interval chain)"
      moreover have "(now, logID, chain, interval) \<in> set (before @ [call])" using call by simp
      ultimately show ?thesis by blast
    qed
  qed
  from Cons.IH [OF this] show ?case by (simp add: validateCalls_def call)
qed

lemma cacheSound_init: "cacheSound lib [] (initChainCache lib)"
  by (auto simp: cacheSound_def initChainCache_def cachedValidateChainResult_def split: if_splits)

lemma validateCalls_keeps:
  "cachedValidateChainResult cache l k = Some b \<Longrightarrow> cachedValidateChainResult (validateCalls lib calls cache) l k = Some b"
  by (induction calls arbitrary: cache) (auto simp: validateCalls_def validate_keeps split: prod.split)

lemma validate_cached:
  "1 < length chain \<Longrightarrow> cachedValidateChainResult cache logID (chainKey lib chain) = Some b \<Longrightarrow>
     fst (ValidateChain lib now logID chain interval cache) = b"
  by (simp add: ValidateChain_def)


text \<open>A log that trusts every chain but the one whose leaf is the byte 0; hashing is the identity.\<close>

definition exChainLib :: "unit chainLib" where
  "exChainLib = \<lparr>cl_sha256 = (\<lambda>b. b), cl_acceptedRoots = (\<lambda>l. Some ()), cl_validate = (\<lambda>p t i c. hd c \<noteq> [0])\<rparr>"


text \<open>
  The key of the cache leaves out the leaf, so a certificate that the validator refuses (here
  for its own sake, as an expired one is) makes the log refuse every later certificate of the same
  issuer, for as long as the process runs.
\<close>

theorem failed_leaf_poisons_issuer:
  "cl_validate exChainLib () 1 None [[7], [5]] \<and>
   fst (ValidateChain exChainLib 1 [1] [[7], [5]] None (initChainCache exChainLib)) \<and>
   \<not> fst (ValidateChain exChainLib 1 [1] [[7], [5]] None
       (validateCalls exChainLib [(0, [1], [[0], [5]], None)] (initChainCache exChainLib)))"
  by (simp add: validateCalls_def ValidateChain_def chainKey_def exChainLib_def initChainCache_def
      cachedValidateChainResult_def cacheValidateChainResult_def)

section \<open>When the cache is transparent\<close>

text \<open>The answers to a sequence of calls, and what validation without a cache answers to each.\<close>

fun validateAnswers :: "'pool chainLib \<Rightarrow> chainCall list \<Rightarrow> chainCache \<Rightarrow> bool list" where
  "validateAnswers lib [] cache = []"
| "validateAnswers lib ((now, logID, chain, interval) # calls) cache =
     (case ValidateChain lib now logID chain interval cache of
        (answer, cache') \<Rightarrow> answer # validateAnswers lib calls cache')"

fun uncachedAnswer :: "'pool chainLib \<Rightarrow> chainCall \<Rightarrow> bool" where
  "uncachedAnswer lib (now, logID, chain, interval) =
     (case cl_acceptedRoots lib logID of Some pool \<Rightarrow> cl_validate lib pool now interval chain | None \<Rightarrow> True)"

text \<open>The validator looks at nothing but what the key of the cache is made of.\<close>

definition decidedByKey :: "'pool chainLib \<Rightarrow> bool" where
  "decidedByKey lib \<longleftrightarrow>
     (\<forall>logID pool t t' i i' c c'. cl_acceptedRoots lib logID = Some pool \<longrightarrow> 1 < length c \<longrightarrow> 1 < length c' \<longrightarrow>
        chainKey lib c = chainKey lib c' \<longrightarrow> cl_validate lib pool t i c = cl_validate lib pool t' i' c')"

lemma decidedByKeyD:
  "decidedByKey lib \<Longrightarrow> cl_acceptedRoots lib logID = Some pool \<Longrightarrow> 1 < length c \<Longrightarrow> 1 < length c' \<Longrightarrow>
     chainKey lib c = chainKey lib c' \<Longrightarrow> cl_validate lib pool t i c = cl_validate lib pool t' i' c'"
  by (simp add: decidedByKey_def)

lemma validate_uncached:
  assumes "decidedByKey lib" and "cacheSound lib before cache"
  shows "fst (ValidateChain lib now logID chain interval cache) = uncachedAnswer lib (now, logID, chain, interval)"
proof (cases "if 1 < length chain then cachedValidateChainResult cache logID (chainKey lib chain) else None")
  case None
  then show ?thesis by (simp add: ValidateChain_def Let_def split: option.split)
next
  case (Some b)
  then have len: "1 < length chain" and "cachedValidateChainResult cache logID (chainKey lib chain) = Some b" by (auto split: if_splits)
  with assms(2) obtain t c i pool where "1 < length c" "chainKey lib c = chainKey lib chain"
    "cl_acceptedRoots lib logID = Some pool" "b = cl_validate lib pool t i c" unfolding cacheSound_def by blast
  then have "b = cl_validate lib pool now interval chain" "cl_acceptedRoots lib logID = Some pool"
    using decidedByKeyD [OF assms(1) _ _ len] by blast+
  then show ?thesis using Some by (simp add: ValidateChain_def Let_def)
qed

lemma validateAnswers_uncached:
  "decidedByKey lib \<Longrightarrow> cacheSound lib before cache \<Longrightarrow> validateAnswers lib calls cache = map (uncachedAnswer lib) calls"
proof (induction calls arbitrary: before cache)
  case (Cons call calls)
  obtain now logID chain interval where call: "call = (now, logID, chain, interval)" by (cases call) auto
  have "cacheSound lib (before @ [call]) (snd (ValidateChain lib now logID chain interval cache))"
    using cacheSound_calls [OF Cons.prems(2), of "[call]"] by (simp add: validateCalls_def call)
  from Cons.IH [OF Cons.prems(1) this] validate_uncached [OF Cons.prems(1,2), of now logID chain interval]
  show ?case by (simp add: call split: prod.split) (metis fst_conv snd_conv)
qed simp

text \<open>
  C27: Validation with the cache gives the same answers as validation without it, for every sequence of
  calls from the start of the process, exactly if the validator's answer depends on nothing but the
  log and the key, that is on neither the leaf, the clock nor the log's temporal interval.
\<close>

theorem cache_transparent:
  "(\<forall>calls. validateAnswers lib calls (initChainCache lib) = map (uncachedAnswer lib) calls) \<longleftrightarrow> decidedByKey lib"
proof
  assume "decidedByKey lib"
  then show "\<forall>calls. validateAnswers lib calls (initChainCache lib) = map (uncachedAnswer lib) calls"
    using validateAnswers_uncached [OF _ cacheSound_init] by blast
next
  assume same: "\<forall>calls. validateAnswers lib calls (initChainCache lib) = map (uncachedAnswer lib) calls"
  show "decidedByKey lib"
    unfolding decidedByKey_def
  proof (intro allI impI)
    fix logID pool t t' i i' and c c' :: "bytes list"
    assume a: "cl_acceptedRoots lib logID = Some pool" "1 < length c" "1 < length c'" "chainKey lib c = chainKey lib c'"
    let ?v = "ValidateChain lib t logID c i (initChainCache lib)"
    have "cachedValidateChainResult (snd ?v) logID (chainKey lib c') = Some (fst ?v)"
      using validate_sticks [OF cacheHosts_init [of lib] a(2), where logID = logID and now = t and interval = i] a(1,4) by simp
    from validate_cached [OF a(3) this, where now = t' and interval = i']
    have "fst (ValidateChain lib t' logID c' i' (snd ?v)) = fst ?v" .
    moreover have "validateAnswers lib [(t, logID, c, i), (t', logID, c', i')] (initChainCache lib) =
        map (uncachedAnswer lib) [(t, logID, c, i), (t', logID, c', i')]" using same by blast
    ultimately show "cl_validate lib pool t i c = cl_validate lib pool t' i' c'"
      using a(1) by (simp split: prod.splits)
  qed
qed

text \<open>A log that looks at the issuers only.\<close>

definition exIssuerLib :: "unit chainLib" where
  "exIssuerLib = \<lparr>cl_sha256 = (\<lambda>b. b), cl_acceptedRoots = (\<lambda>l. Some ()), cl_validate = (\<lambda>p t i c. concat (tl c) \<noteq> [0])\<rparr>"

theorem cache_transparent_witness:
  "validateAnswers exIssuerLib [(0, [1], [[7], [5]], None), (1, [1], [[8], [5]], None), (2, [1], [[8], [0]], None)]
     (initChainCache exIssuerLib) = [True, True, False] \<and>
   \<not> (\<forall>calls. validateAnswers exChainLib calls (initChainCache exChainLib) = map (uncachedAnswer exChainLib) calls)"
proof (rule conjI)
  have "decidedByKey exIssuerLib" by (simp add: decidedByKey_def exIssuerLib_def chainKey_def)
  from iffD2 [OF cache_transparent this, rule_format]
  have "validateAnswers exIssuerLib [(0, [1], [[7], [5]], None), (1, [1], [[8], [5]], None), (2, [1], [[8], [0]], None)]
      (initChainCache exIssuerLib) =
    map (uncachedAnswer exIssuerLib) [(0, [1], [[7], [5]], None), (1, [1], [[8], [5]], None), (2, [1], [[8], [0]], None)]" .
  then show "validateAnswers exIssuerLib [(0, [1], [[7], [5]], None), (1, [1], [[8], [5]], None), (2, [1], [[8], [0]], None)]
     (initChainCache exIssuerLib) = [True, True, False]" by (simp del: validateAnswers.simps) (simp add: exIssuerLib_def)
  have "cl_validate exChainLib () 0 None [[7], [5]] \<noteq> cl_validate exChainLib () 0 None [[0], [5]]" by (simp add: exChainLib_def)
  then have "\<not> decidedByKey exChainLib"
    using decidedByKeyD [of exChainLib "[1]" "()" "[[7], [5]]" "[[0], [5]]" 0 None 0 None] by (auto simp: exChainLib_def chainKey_def)
  then show "\<not> (\<forall>calls. validateAnswers exChainLib calls (initChainCache exChainLib) = map (uncachedAnswer exChainLib) calls)"
    unfolding cache_transparent .
qed

end
