(* ===== verification/Compatible_Logs.thy ===== *)
theory Compatible_Logs
  imports Requirements Chain_Cache
begin

text \<open>
  submitter/compatibleLogs.go: the logs of the base log list that will accept the certificate and
  whose SCTs count. The temporal filter and the parsing of log IDs are the log list library's;
  one clock reading serves all comparisons of a call. The chain validation cache is threaded
  through the loops.
\<close>

record 'pool compatLib =
  cp_chain :: "'pool chainLib"
  cp_temporallyCompatible :: "certificate \<Rightarrow> logList \<Rightarrow> logList"
  cp_parseLogID :: "bytes \<Rightarrow> go_error + bytes"

definition LogID_Daedalus :: bytes where
  "LogID_Daedalus =
     [0x1d, 0x02, 0x4b, 0x8e, 0xb1, 0x49, 0x8b, 0x34, 0x4d, 0xfd, 0x87, 0xea, 0x3e, 0xfc, 0x09, 0x96,
      0xf7, 0x50, 0x6f, 0x23, 0x5d, 0x1d, 0x49, 0x70, 0x61, 0xa4, 0x77, 0x3c, 0x43, 0x9c, 0x25, 0xfb]"

definition policyApplies :: "SubmissionRequest \<Rightarrow> bool" where
  "policyApplies sr \<longleftrightarrow> sr_PolicyCompliant sr \<and> \<not> sr_TestLogs sr"

text \<open>The two continue conditions on a log's state.\<close>

definition usableState :: "time \<Rightarrow> logStates option \<Rightarrow> bool" where
  "usableState now st =
     (case st of
        None \<Rightarrow> False
      | Some s \<Rightarrow>
          (case ls_Usable s of
             None \<Rightarrow> False
           | Some t \<Rightarrow>
               if now < t then False
               else if ls_ReadOnly s \<noteq> None \<or> ls_Retired s \<noteq> None \<or> ls_Rejected s \<noteq> None then False
               else True))"

fun compatibleRFC6962 ::
  "'pool compatLib \<Rightarrow> time \<Rightarrow> certificate \<Rightarrow> SubmissionRequest \<Rightarrow> ctLog list \<Rightarrow> chainCache \<Rightarrow>
     (go_error + ctLog list) \<times> chainCache" where
  "compatibleRFC6962 lib now cert sr [] cache = (Inr [], cache)"
| "compatibleRFC6962 lib now cert sr (l # ls) cache =
     (case cp_parseLogID lib (log_LogID l) of
        Inl e \<Rightarrow> (Inl (Errorf (''failed to parse log ID: '' @ errorString e)), cache)
      | Inr logID \<Rightarrow>
          if logID = LogID_Daedalus \<and> now < cert_NotAfter cert then compatibleRFC6962 lib now cert sr ls cache
          else if policyApplies sr \<and> \<not> usableState now (log_State l) then compatibleRFC6962 lib now cert sr ls cache
          else (case ValidateChain (cp_chain lib) now logID (sr_Chain sr) (log_TemporalInterval l) cache of
                  (ok, cache') \<Rightarrow>
                    (case compatibleRFC6962 lib now cert sr ls cache' of
                       (Inl e, cache'') \<Rightarrow> (Inl e, cache'')
                     | (Inr kept, cache'') \<Rightarrow> (Inr (if ok then l # kept else kept), cache''))))"

fun compatibleStatic ::
  "'pool compatLib \<Rightarrow> time \<Rightarrow> SubmissionRequest \<Rightarrow> tiledLog list \<Rightarrow> chainCache \<Rightarrow>
     (go_error + tiledLog list) \<times> chainCache" where
  "compatibleStatic lib now sr [] cache = (Inr [], cache)"
| "compatibleStatic lib now sr (l # ls) cache =
     (case cp_parseLogID lib (tl_LogID l) of
        Inl e \<Rightarrow> (Inl (Errorf (''failed to parse log ID: '' @ errorString e)), cache)
      | Inr logID \<Rightarrow>
          if policyApplies sr \<and> \<not> usableState now (tl_State l) then compatibleStatic lib now sr ls cache
          else (case ValidateChain (cp_chain lib) now logID (sr_Chain sr) (tl_TemporalInterval l) cache of
                  (ok, cache') \<Rightarrow>
                    (case compatibleStatic lib now sr ls cache' of
                       (Inl e, cache'') \<Rightarrow> (Inl e, cache'')
                     | (Inr kept, cache'') \<Rightarrow> (Inr (if ok then l # kept else kept), cache''))))"

fun compatibleOperators ::
  "'pool compatLib \<Rightarrow> time \<Rightarrow> certificate \<Rightarrow> SubmissionRequest \<Rightarrow> operator list \<Rightarrow> chainCache \<Rightarrow>
     (go_error + operator list) \<times> chainCache" where
  "compatibleOperators lib now cert sr [] cache = (Inr [], cache)"
| "compatibleOperators lib now cert sr (oper # opers) cache =
     (case compatibleRFC6962 lib now cert sr (op_Logs oper) cache of
        (Inl e, cache1) \<Rightarrow> (Inl e, cache1)
      | (Inr logs, cache1) \<Rightarrow>
          (case compatibleStatic lib now sr (op_TiledLogs oper) cache1 of
             (Inl e, cache2) \<Rightarrow> (Inl e, cache2)
           | (Inr tiledLogs, cache2) \<Rightarrow>
               (case compatibleOperators lib now cert sr opers cache2 of
                  (Inl e, cache3) \<Rightarrow> (Inl e, cache3)
                | (Inr rest, cache3) \<Rightarrow>
                    (Inr (if logs \<noteq> [] \<or> tiledLogs \<noteq> []
                          then oper\<lparr>op_Logs := logs, op_TiledLogs := tiledLogs\<rparr> # rest else rest),
                     cache3))))"

definition totalLogs :: "logList \<Rightarrow> nat" where
  "totalLogs ll = (\<Sum>oper \<leftarrow> ll. length (op_Logs oper) + length (op_TiledLogs oper))"

definition determineCompatibleLogs ::
  "'pool compatLib \<Rightarrow> time \<Rightarrow> certificate \<Rightarrow> SubmissionRequest \<Rightarrow> logList \<Rightarrow> chainCache \<Rightarrow>
     (go_error + logList) \<times> chainCache" where
  "determineCompatibleLogs lib now cert sr ll cache =
     (if policyApplies sr \<and> cert_NotAfter cert < now
      then (Inl (Errorf ''certificate is expired, but policy compliance is required''), cache)
      else (case compatibleOperators lib now cert sr (cp_temporallyCompatible lib cert ll) cache of
              (Inl e, cache') \<Rightarrow> (Inl e, cache')
            | (Inr final, cache') \<Rightarrow>
                (if int (length final) < sr_Operators sr
                 then Inl (Errorf (''not enough compatible logs found (required: '' @ showInt (sr_Operators sr) @
                        '' operators, found: '' @ showInt (int (length final)) @ '' operators)''))
                 else if int (totalLogs final) < sr_SCTs sr
                 then Inl (Errorf (''not enough compatible logs found (required: '' @ showInt (sr_SCTs sr) @
                        '' SCTs, found: '' @ showInt (int (totalLogs final)) @ '' SCTs)''))
                 else Inr final, cache')))"

section \<open>Every log that is kept may be used\<close>

text \<open>
  An answer of the chain validation: no known roots, or the validator accepted a chain with the
  same issuers for this log, now or in one of the earlier calls.
\<close>

definition chainAccepted :: "'pool chainLib \<Rightarrow> chainCall list \<Rightarrow> time \<Rightarrow> bytes \<Rightarrow> bytes list \<Rightarrow> temporalInterval option \<Rightarrow> bool" where
  "chainAccepted lib calls now logID chain interval \<longleftrightarrow>
     (case cl_acceptedRoots lib logID of
        None \<Rightarrow> True
      | Some pool \<Rightarrow> cl_validate lib pool now interval chain \<or>
          1 < length chain \<and>
          (\<exists>now' chain' interval'. (now', logID, chain', interval') \<in> set calls \<and>
             chainKey lib chain' = chainKey lib chain \<and> cl_validate lib pool now' interval' chain'))"

lemma ValidateChain_accepted:
  assumes "cacheSound lib calls cache" and "fst (ValidateChain lib now logID chain interval cache)"
  shows "chainAccepted lib calls now logID chain interval"
proof (cases "1 < length chain \<and> cachedValidateChainResult cache logID (chainKey lib chain) \<noteq> None")
  case True
  then have "cachedValidateChainResult cache logID (chainKey lib chain) = Some True"
    using assms(2) by (auto simp: ValidateChain_def Let_def split: option.splits)
  then obtain now' chain' interval' pool where "(now', logID, chain', interval') \<in> set calls"
    "chainKey lib chain' = chainKey lib chain" "cl_acceptedRoots lib logID = Some pool"
    "True = cl_validate lib pool now' interval' chain'"
    using assms(1) unfolding cacheSound_def by metis
  then show ?thesis using True by (auto simp: chainAccepted_def)
next
  case False
  then show ?thesis using assms(2)
    by (auto simp: ValidateChain_def Let_def chainAccepted_def split: option.splits if_splits)
qed

lemma cacheSound_mono: "cacheSound lib calls cache \<Longrightarrow> set calls \<subseteq> set calls' \<Longrightarrow> cacheSound lib calls' cache"
  unfolding cacheSound_def by (meson subsetD)

lemma cacheSound_step:
  assumes "cacheSound lib calls cache" and "ValidateChain lib now logID chain interval cache = (b, cache')"
  shows "cacheSound lib (calls @ [(now, logID, chain, interval)]) cache'"
  using cacheSound_calls [OF assms(1), of "[(now, logID, chain, interval)]"] assms(2)
  by (simp add: validateCalls_def)

text \<open>
  What is kept of a list: a sublist whose elements pass the code's tests. The calls made on the way
  are some of those of the same chain.
\<close>

definition callsOn :: "bytes list \<Rightarrow> chainCall list \<Rightarrow> bool" where
  "callsOn chain calls \<longleftrightarrow> (\<forall>(t, l, c, i) \<in> set calls. c = chain)"

text \<open>What it means for a log to be in use: it has become usable and nothing has ended that.\<close>

definition inUse :: "time \<Rightarrow> logStates option \<Rightarrow> bool" where
  "inUse now st \<longleftrightarrow>
     (\<exists>s t. st = Some s \<and> ls_Usable s = Some t \<and> t \<le> now \<and>
        ls_ReadOnly s = None \<and> ls_Retired s = None \<and> ls_Rejected s = None)"

lemma usableState_iff [simp]: "usableState now st = inUse now st"
  by (auto simp: usableState_def inUse_def split: option.splits if_splits)

definition rfcKept ::
  "'pool compatLib \<Rightarrow> chainCall list \<Rightarrow> time \<Rightarrow> certificate \<Rightarrow> SubmissionRequest \<Rightarrow> ctLog \<Rightarrow> bool" where
  "rfcKept lib calls now cert sr l \<longleftrightarrow>
     (\<exists>logID. cp_parseLogID lib (log_LogID l) = Inr logID \<and> (logID = LogID_Daedalus \<longrightarrow> cert_NotAfter cert \<le> now) \<and>
        (policyApplies sr \<longrightarrow> inUse now (log_State l)) \<and>
        chainAccepted (cp_chain lib) calls now logID (sr_Chain sr) (log_TemporalInterval l))"

definition staticKept ::
  "'pool compatLib \<Rightarrow> chainCall list \<Rightarrow> time \<Rightarrow> SubmissionRequest \<Rightarrow> tiledLog \<Rightarrow> bool" where
  "staticKept lib calls now sr l \<longleftrightarrow>
     (\<exists>logID. cp_parseLogID lib (tl_LogID l) = Inr logID \<and>
        (policyApplies sr \<longrightarrow> inUse now (tl_State l)) \<and>
        chainAccepted (cp_chain lib) calls now logID (sr_Chain sr) (tl_TemporalInterval l))"

lemma chainAccepted_mono:
  "chainAccepted lib calls now logID chain interval \<Longrightarrow> set calls \<subseteq> set calls' \<Longrightarrow>
     chainAccepted lib calls' now logID chain interval"
  unfolding chainAccepted_def by (cases "cl_acceptedRoots lib logID") auto

lemma kept_mono:
  "rfcKept lib calls now cert sr l \<Longrightarrow> set calls \<subseteq> set calls' \<Longrightarrow> rfcKept lib calls' now cert sr l"
  "staticKept lib calls now sr tiled \<Longrightarrow> set calls \<subseteq> set calls' \<Longrightarrow> staticKept lib calls' now sr tiled"
  unfolding rfcKept_def staticKept_def using chainAccepted_mono by blast+

lemma compatibleRFC6962_spec:
  "compatibleRFC6962 lib now cert sr ls cache = (Inr kept, cache') \<Longrightarrow> cacheSound (cp_chain lib) calls cache \<Longrightarrow>
     \<exists>more. callsOn (sr_Chain sr) more \<and> cacheSound (cp_chain lib) (calls @ more) cache' \<and> subseq kept ls \<and>
       (\<forall>l \<in> set kept. rfcKept lib (calls @ more) now cert sr l)"
proof (induction ls arbitrary: kept cache calls)
  case Nil
  then show ?case by (auto simp: callsOn_def intro: exI [of _ "[]"])
next
  case (Cons l ls)
  obtain logID where id: "cp_parseLogID lib (log_LogID l) = Inr logID"
    using Cons.prems(1) by (cases "cp_parseLogID lib (log_LogID l)") auto
  show ?case
  proof (cases "logID = LogID_Daedalus \<and> now < cert_NotAfter cert \<or> policyApplies sr \<and> \<not> usableState now (log_State l)")
    case True
    then have "compatibleRFC6962 lib now cert sr ls cache = (Inr kept, cache')"
      using Cons.prems(1) id by (auto split: if_splits)
    from Cons.IH [OF this Cons.prems(2)] show ?thesis by (blast intro: list_emb_Cons)
  next
    case False
    obtain ok c1 where v: "ValidateChain (cp_chain lib) now logID (sr_Chain sr) (log_TemporalInterval l) cache = (ok, c1)"
      by fastforce
    let ?call = "(now, logID, sr_Chain sr, log_TemporalInterval l)"
    obtain kept1 where k: "compatibleRFC6962 lib now cert sr ls c1 = (Inr kept1, cache')"
      "kept = (if ok then l # kept1 else kept1)"
      using Cons.prems(1) id v False by (auto split: if_splits sum.splits prod.splits)
    obtain more where more: "callsOn (sr_Chain sr) more" "cacheSound (cp_chain lib) ((calls @ [?call]) @ more) cache'"
      "subseq kept1 ls" "\<forall>l \<in> set kept1. rfcKept lib ((calls @ [?call]) @ more) now cert sr l"
      using Cons.IH [OF k(1) cacheSound_step [OF Cons.prems(2) v]] by blast
    have "ok \<Longrightarrow> rfcKept lib calls now cert sr l"
      using ValidateChain_accepted [OF Cons.prems(2)] v id False by (force simp: rfcKept_def)
    then have "ok \<Longrightarrow> rfcKept lib ((calls @ [?call]) @ more) now cert sr l" by (rule kept_mono) auto
    then have "\<forall>l \<in> set kept. rfcKept lib ((calls @ [?call]) @ more) now cert sr l" using more(4) k(2) by auto
    moreover have "subseq kept (l # ls)" using more(3) k(2) by auto
    moreover have "callsOn (sr_Chain sr) (?call # more)" using more(1) by (simp add: callsOn_def)
    ultimately show ?thesis using more(2) by (intro exI [of _ "?call # more"]) simp
  qed
qed

lemma compatibleStatic_spec:
  "compatibleStatic lib now sr ls cache = (Inr kept, cache') \<Longrightarrow> cacheSound (cp_chain lib) calls cache \<Longrightarrow>
     \<exists>more. callsOn (sr_Chain sr) more \<and> cacheSound (cp_chain lib) (calls @ more) cache' \<and> subseq kept ls \<and>
       (\<forall>l \<in> set kept. staticKept lib (calls @ more) now sr l)"
proof (induction ls arbitrary: kept cache calls)
  case Nil
  then show ?case by (auto simp: callsOn_def intro: exI [of _ "[]"])
next
  case (Cons l ls)
  obtain logID where id: "cp_parseLogID lib (tl_LogID l) = Inr logID"
    using Cons.prems(1) by (cases "cp_parseLogID lib (tl_LogID l)") auto
  show ?case
  proof (cases "policyApplies sr \<and> \<not> usableState now (tl_State l)")
    case True
    then have "compatibleStatic lib now sr ls cache = (Inr kept, cache')"
      using Cons.prems(1) id by (auto split: if_splits)
    from Cons.IH [OF this Cons.prems(2)] show ?thesis by (blast intro: list_emb_Cons)
  next
    case False
    obtain ok c1 where v: "ValidateChain (cp_chain lib) now logID (sr_Chain sr) (tl_TemporalInterval l) cache = (ok, c1)"
      by fastforce
    let ?call = "(now, logID, sr_Chain sr, tl_TemporalInterval l)"
    obtain kept1 where k: "compatibleStatic lib now sr ls c1 = (Inr kept1, cache')"
      "kept = (if ok then l # kept1 else kept1)"
      using Cons.prems(1) id v False by (auto split: if_splits sum.splits prod.splits)
    obtain more where more: "callsOn (sr_Chain sr) more" "cacheSound (cp_chain lib) ((calls @ [?call]) @ more) cache'"
      "subseq kept1 ls" "\<forall>l \<in> set kept1. staticKept lib ((calls @ [?call]) @ more) now sr l"
      using Cons.IH [OF k(1) cacheSound_step [OF Cons.prems(2) v]] by blast
    have "ok \<Longrightarrow> staticKept lib calls now sr l"
      using ValidateChain_accepted [OF Cons.prems(2)] v id False by (force simp: staticKept_def)
    then have "ok \<Longrightarrow> staticKept lib ((calls @ [?call]) @ more) now sr l" by (rule kept_mono) auto
    then have "\<forall>l \<in> set kept. staticKept lib ((calls @ [?call]) @ more) now sr l" using more(4) k(2) by auto
    moreover have "subseq kept (l # ls)" using more(3) k(2) by auto
    moreover have "callsOn (sr_Chain sr) (?call # more)" using more(1) by (simp add: callsOn_def)
    ultimately show ?thesis using more(2) by (intro exI [of _ "?call # more"]) simp
  qed
qed

text \<open>A kept operator: an operator of the list with sublists of its logs, not both empty.\<close>

definition operatorKept ::
  "'pool compatLib \<Rightarrow> chainCall list \<Rightarrow> time \<Rightarrow> certificate \<Rightarrow> SubmissionRequest \<Rightarrow> operator list \<Rightarrow> operator \<Rightarrow> bool" where
  "operatorKept lib calls now cert sr opers oper \<longleftrightarrow>
     (\<exists>orig \<in> set opers. op_Name oper = op_Name orig \<and> subseq (op_Logs oper) (op_Logs orig) \<and>
        subseq (op_TiledLogs oper) (op_TiledLogs orig)) \<and>
     (op_Logs oper \<noteq> [] \<or> op_TiledLogs oper \<noteq> []) \<and>
     (\<forall>l \<in> set (op_Logs oper). rfcKept lib calls now cert sr l) \<and>
     (\<forall>l \<in> set (op_TiledLogs oper). staticKept lib calls now sr l)"

lemma operatorKept_mono:
  "operatorKept lib calls now cert sr opers oper \<Longrightarrow> set calls \<subseteq> set calls' \<Longrightarrow> set opers \<subseteq> set opers' \<Longrightarrow>
     operatorKept lib calls' now cert sr opers' oper"
  unfolding operatorKept_def using kept_mono by blast

lemma compatibleOperators_spec:
  "compatibleOperators lib now cert sr opers cache = (Inr final, cache') \<Longrightarrow> cacheSound (cp_chain lib) calls cache \<Longrightarrow>
     \<exists>more. callsOn (sr_Chain sr) more \<and> cacheSound (cp_chain lib) (calls @ more) cache' \<and>
       subseq (map op_Name final) (map op_Name opers) \<and>
       (\<forall>oper \<in> set final. operatorKept lib (calls @ more) now cert sr opers oper)"
proof (induction opers arbitrary: final cache calls)
  case Nil
  then show ?case by (auto simp: callsOn_def intro: exI [of _ "[]"])
next
  case (Cons orig opers)
  from Cons.prems(1) obtain logs c1 tiled c2 rest where
    r: "compatibleRFC6962 lib now cert sr (op_Logs orig) cache = (Inr logs, c1)"
    and s: "compatibleStatic lib now sr (op_TiledLogs orig) c1 = (Inr tiled, c2)"
    and o: "compatibleOperators lib now cert sr opers c2 = (Inr rest, cache')"
    and f: "final = (if logs \<noteq> [] \<or> tiled \<noteq> [] then orig\<lparr>op_Logs := logs, op_TiledLogs := tiled\<rparr> # rest else rest)"
    by (auto split: sum.splits prod.splits)
  obtain m1 where m1: "callsOn (sr_Chain sr) m1" "cacheSound (cp_chain lib) (calls @ m1) c1" "subseq logs (op_Logs orig)"
    "\<forall>l \<in> set logs. rfcKept lib (calls @ m1) now cert sr l"
    using compatibleRFC6962_spec [OF r Cons.prems(2)] by blast
  obtain m2 where m2: "callsOn (sr_Chain sr) m2" "cacheSound (cp_chain lib) ((calls @ m1) @ m2) c2"
    "subseq tiled (op_TiledLogs orig)" "\<forall>l \<in> set tiled. staticKept lib ((calls @ m1) @ m2) now sr l"
    using compatibleStatic_spec [OF s m1(2)] by blast
  obtain m3 where m3: "callsOn (sr_Chain sr) m3" "cacheSound (cp_chain lib) (((calls @ m1) @ m2) @ m3) cache'"
    "subseq (map op_Name rest) (map op_Name opers)"
    "\<forall>oper \<in> set rest. operatorKept lib (((calls @ m1) @ m2) @ m3) now cert sr opers oper"
    using Cons.IH [OF o m2(2)] by blast
  let ?more = "m1 @ m2 @ m3"
  have "callsOn (sr_Chain sr) ?more" using m1(1) m2(1) m3(1) by (auto simp: callsOn_def)
  moreover have "cacheSound (cp_chain lib) (calls @ ?more) cache'" using m3(2) by simp
  moreover have "subseq (map op_Name final) (map op_Name (orig # opers))" using m3(3) f by auto
  moreover have "\<forall>oper \<in> set final. operatorKept lib (calls @ ?more) now cert sr (orig # opers) oper"
  proof
    fix oper assume "oper \<in> set final"
    then consider "oper = orig\<lparr>op_Logs := logs, op_TiledLogs := tiled\<rparr>" "logs \<noteq> [] \<or> tiled \<noteq> []" | "oper \<in> set rest"
      using f by (auto split: if_splits)
    then show "operatorKept lib (calls @ ?more) now cert sr (orig # opers) oper"
    proof cases
      case 1
      have "\<forall>l \<in> set logs. rfcKept lib (calls @ ?more) now cert sr l"
        using m1(4) kept_mono(1) [of lib "calls @ m1" now cert sr _ "calls @ ?more"] by auto
      moreover have "\<forall>l \<in> set tiled. staticKept lib (calls @ ?more) now sr l"
        using m2(4) kept_mono(2) [of lib "(calls @ m1) @ m2" now sr _ "calls @ ?more"] by auto
      ultimately show ?thesis using 1 m1(3) m2(3) by (auto simp: operatorKept_def)
    next
      case 2
      then show ?thesis using m3(4) by (auto intro: operatorKept_mono)
    qed
  qed
  ultimately show ?case by blast
qed

text \<open>The result has enough logs and operators for the request.\<close>

lemma determineCompatibleLogs_Inr:
  assumes "determineCompatibleLogs lib now cert sr ll cache = (Inr final, cache')"
  shows "compatibleOperators lib now cert sr (cp_temporallyCompatible lib cert ll) cache = (Inr final, cache')"
    and "sr_Operators sr \<le> int (length final)" and "sr_SCTs sr \<le> int (totalLogs final)"
    and "policyApplies sr \<Longrightarrow> now \<le> cert_NotAfter cert"
  using assms by (auto simp: determineCompatibleLogs_def split: if_splits sum.splits prod.splits)

text \<open>
  C19: Every operator and log that determineCompatibleLogs returns comes from the temporally
  compatible part of the base list, in its order, and has passed every test: not Daedalus for an
  unexpired certificate, usable (not future, read-only, retired or rejected) when the policy applies,
  and its chain validation accepted. There are enough operators and logs for the request, and a
  policy-compliant request for production logs is only served for an unexpired certificate.
\<close>

theorem compatible_logs_sound:
  assumes "determineCompatibleLogs lib now cert sr ll cache = (Inr final, cache')"
    and "cacheSound (cp_chain lib) calls cache"
  shows "sr_Operators sr \<le> int (length final) \<and> sr_SCTs sr \<le> int (totalLogs final) \<and>
    (policyApplies sr \<longrightarrow> now \<le> cert_NotAfter cert) \<and>
    subseq (map op_Name final) (map op_Name (cp_temporallyCompatible lib cert ll)) \<and>
    (\<exists>more. callsOn (sr_Chain sr) more \<and> cacheSound (cp_chain lib) (calls @ more) cache' \<and>
      (\<forall>oper \<in> set final. operatorKept lib (calls @ more) now cert sr (cp_temporallyCompatible lib cert ll) oper))"
  using compatibleOperators_spec [OF determineCompatibleLogs_Inr(1) [OF assms(1)] assms(2)]
    determineCompatibleLogs_Inr(2-4) [OF assms(1)] by blast

text \<open>One usable log, whose roots accept everything.\<close>

definition exCompat :: "unit compatLib" where
  "exCompat = \<lparr>cp_chain = exChainLib, cp_temporallyCompatible = (\<lambda>c ll. ll), cp_parseLogID = Inr\<rparr>"

definition exUsable :: ctLog where
  "exUsable = \<lparr>log_Description = ''Example'', log_LogID = [1], log_Key = [2], log_URL = ''https://log.example/'',
     log_MMD = 86400, log_Type = [],
     log_State = Some \<lparr>ls_Usable = Some 0, ls_ReadOnly = None, ls_Retired = None, ls_Rejected = None\<rparr>,
     log_TemporalInterval = None\<rparr>"

definition exCert :: certificate where
  "exCert = \<lparr>cert_Raw = [7], cert_RawIssuer = [5], cert_RawSubject = [7], cert_RawSubjectPublicKeyInfo = [9],
     cert_AuthorityKeyId = [5], cert_SubjectKeyId = [7], cert_NotBefore = 0, cert_NotAfter = 90 * 24 * hour,
     cert_IsPrecertificate = False, cert_UnknownExtKeyUsage = []\<rparr>"

definition exAsk :: SubmissionRequest where
  "exAsk = NewSubmissionRequest\<lparr>sr_Chain := [[7], [5]], sr_PolicyCompliant := True\<rparr>"

definition exUsableList :: logList where
  "exUsableList = [\<lparr>op_Name = ''Op'', op_Logs = [exUsable, exUsable\<lparr>log_State := None\<rparr>], op_TiledLogs = []\<rparr>]"

theorem compatible_logs_sound_witness:
  "\<exists>final cache'. determineCompatibleLogs exCompat 1 exCert exAsk exUsableList (initChainCache exChainLib) = (Inr final, cache') \<and>
    sr_SCTs exAsk \<le> int (totalLogs final) \<and> subseq (map op_Name final) [''Op'']"
proof -
  have "fst (determineCompatibleLogs exCompat 1 exCert exAsk exUsableList (initChainCache exChainLib)) =
      Inr [\<lparr>op_Name = ''Op'', op_Logs = [exUsable], op_TiledLogs = []\<rparr>]" by code_simp
  then obtain final cache' where d:
    "determineCompatibleLogs exCompat 1 exCert exAsk exUsableList (initChainCache exChainLib) = (Inr final, cache')"
    by (metis prod.collapse)
  have "cacheSound (cp_chain exCompat) [] (initChainCache exChainLib)"
    by (simp add: exCompat_def cacheSound_init)
  from compatible_logs_sound [OF d this] d show ?thesis
    by (auto simp: exCompat_def exUsableList_def)
qed

end
