(* ===== verification/TBS.thy ===== *)
theory TBS
  imports CT_Types
begin

text \<open>
  The certificate-shaped parts of package pki: removing the CT poison extension and adding the
  SCT list (finalTBSCertificate.go), the dummy signature ctlint is given (dummySignature.go,
  dummyCertificate.go), mimic SCTs (mimics.go), the SCT list (sctList.go), and the linter's
  findings (submitter/ctlint.go). The ASN.1 and TLS codecs, the signer, ctlint and the object
  identifiers named by libraries are parameters. The fields of a TBSCertificate other than its
  extensions are opaque.
\<close>

section \<open>Poison and SCT list extensions\<close>

record extension =
  ext_Id :: "nat list"
  ext_Critical :: bool
  ext_Value :: bytes

record 'r TBSCertificate =
  tbs_Fields :: 'r
  tbs_Extensions :: "extension list"

record 'r asn1Lib =
  al_unmarshalCertificate :: "bytes \<Rightarrow> go_error + ('r TBSCertificate \<times> bytes)"
  al_marshalTBS :: "'r TBSCertificate \<Rightarrow> go_error + bytes"
  al_marshalOctetString :: "bytes \<Rightarrow> go_error + bytes"
  al_oidCTPoison :: "nat list"
  al_oidCTSCT :: "nat list"

text \<open>The search loop: the index found so far, or the error for a second poison extension.\<close>

fun findPoison :: "nat list \<Rightarrow> extension list \<Rightarrow> nat \<Rightarrow> nat option \<Rightarrow> go_error + nat option" where
  "findPoison oid [] i found = Inr found"
| "findPoison oid (e # es) i found =
     (if ext_Id e = oid
      then if found \<noteq> None then Inl (Errorf ''multiple CT Poison extensions found'')
           else findPoison oid es (i + 1) (Some i)
      else findPoison oid es (i + 1) found)"

definition DetoxTBSCertificateFromPrecertificate ::
  "'r asn1Lib \<Rightarrow> bytes \<Rightarrow> go_error + 'r TBSCertificate" where
  "DetoxTBSCertificateFromPrecertificate lib precertificate =
     (case al_unmarshalCertificate lib precertificate of
        Inl e \<Rightarrow> Inl e
      | Inr (tbs, rest) \<Rightarrow>
          if 0 < length rest then Inl (Errorf ''asn1.Unmarshal(precertificate) => trailing data'')
          else (case findPoison (al_oidCTPoison lib) (tbs_Extensions tbs) 0 None of
                  Inl e \<Rightarrow> Inl e
                | Inr None \<Rightarrow> Inl (Errorf ''no CT Poison extension found'')
                | Inr (Some poisonIdx) \<Rightarrow>
                    Inr (tbs\<lparr>tbs_Extensions :=
                      take poisonIdx (tbs_Extensions tbs) @ drop (poisonIdx + 1) (tbs_Extensions tbs)\<rparr>)))"

text \<open>ProduceFinalTBSCertificate also leaves the SCT list extension in the certificate it was given.\<close>

definition ProduceFinalTBSCertificate ::
  "'r asn1Lib \<Rightarrow> bytes \<Rightarrow> 'r TBSCertificate \<Rightarrow> (go_error + bytes) \<times> 'r TBSCertificate" where
  "ProduceFinalTBSCertificate lib sctList tbs =
     (case al_marshalOctetString lib sctList of
        Inl e \<Rightarrow> (Inl e, tbs)
      | Inr sctListEncoded \<Rightarrow>
          let tbs' = tbs\<lparr>tbs_Extensions := tbs_Extensions tbs @
                [\<lparr>ext_Id = al_oidCTSCT lib, ext_Critical = False, ext_Value = sctListEncoded\<rparr>]\<rparr>
          in (al_marshalTBS lib tbs', tbs'))"

lemma findPoison_spec:
  "findPoison oid es i found = Inr r \<Longrightarrow>
     (case found of
        None \<Rightarrow> (case r of
            None \<Rightarrow> \<forall>e \<in> set es. ext_Id e \<noteq> oid
          | Some j \<Rightarrow> i \<le> j \<and> j - i < length es \<and> ext_Id (es ! (j - i)) = oid \<and>
              (\<forall>k < length es. k \<noteq> j - i \<longrightarrow> ext_Id (es ! k) \<noteq> oid))
      | Some f \<Rightarrow> r = Some f \<and> (\<forall>e \<in> set es. ext_Id e \<noteq> oid))"
proof (induction oid es i found rule: findPoison.induct)
  case (1 oid i found)
  then show ?case by (auto split: option.split)
next
  case (2 oid e es i found)
  show ?case
  proof (cases "ext_Id e = oid")
    case True
    then have none: "found = None" and r: "findPoison oid es (i + 1) (Some i) = Inr r"
      using "2.prems" by (auto split: if_splits)
    then have "r = Some i" "\<forall>e \<in> set es. ext_Id e \<noteq> oid" using "2.IH"(1) [OF True] by auto
    then show ?thesis using True none by (auto simp: nth_Cons' all_set_conv_all_nth)
  next
    case False
    then have IH: "case found of
        None \<Rightarrow> (case r of
            None \<Rightarrow> \<forall>e \<in> set es. ext_Id e \<noteq> oid
          | Some j \<Rightarrow> i + 1 \<le> j \<and> j - (i + 1) < length es \<and> ext_Id (es ! (j - (i + 1))) = oid \<and>
              (\<forall>k < length es. k \<noteq> j - (i + 1) \<longrightarrow> ext_Id (es ! k) \<noteq> oid))
      | Some f \<Rightarrow> r = Some f \<and> (\<forall>e \<in> set es. ext_Id e \<noteq> oid)"
      using "2.IH"(2) [OF False] "2.prems" by simp
    show ?thesis
    proof (cases "found = None \<and> r \<noteq> None")
      case True
      then obtain j where j: "found = None" "r = Some j" by auto
      then have a: "i + 1 \<le> j" "j - (i + 1) < length es" "ext_Id (es ! (j - (i + 1))) = oid"
        "\<forall>k < length es. k \<noteq> j - (i + 1) \<longrightarrow> ext_Id (es ! k) \<noteq> oid" using IH by auto
      have "ext_Id ((e # es) ! k) \<noteq> oid" if "k < length (e # es)" "k \<noteq> j - i" for k
      proof (cases k)
        case 0
        then show ?thesis using False by simp
      next
        case (Suc m)
        then have "m < length es" "m \<noteq> j - (i + 1)" using that a(1) by auto
        then show ?thesis using a(4) Suc by simp
      qed
      moreover have "j - i = Suc (j - (i + 1))" using a(1) by simp
      ultimately show ?thesis using j a by simp
    next
      case no: False
      then show ?thesis using IH False by (auto split: option.splits)
    qed
  qed
qed

text \<open>Detoxing removes exactly the one poison extension and nothing else.\<close>

lemma detox_spec:
  assumes "DetoxTBSCertificateFromPrecertificate lib pre = Inr tbs"
  shows "\<exists>orig before poison after. al_unmarshalCertificate lib pre = Inr (orig, []) \<and>
    tbs_Extensions orig = before @ poison # after \<and> ext_Id poison = al_oidCTPoison lib \<and>
    tbs = orig\<lparr>tbs_Extensions := before @ after\<rparr> \<and> (\<forall>e \<in> set (before @ after). ext_Id e \<noteq> al_oidCTPoison lib)"
proof -
  obtain orig where o: "al_unmarshalCertificate lib pre = Inr (orig, [])"
    using assms by (auto simp: DetoxTBSCertificateFromPrecertificate_def split: sum.splits prod.splits if_splits)
  let ?es = "tbs_Extensions orig"
  obtain j where j: "findPoison (al_oidCTPoison lib) ?es 0 None = Inr (Some j)"
    "tbs = orig\<lparr>tbs_Extensions := take j ?es @ drop (j + 1) ?es\<rparr>"
    using assms o by (auto simp: DetoxTBSCertificateFromPrecertificate_def split: sum.splits option.splits)
  from findPoison_spec [OF j(1)] have s: "j < length ?es" "ext_Id (?es ! j) = al_oidCTPoison lib"
    "\<forall>k < length ?es. k \<noteq> j \<longrightarrow> ext_Id (?es ! k) \<noteq> al_oidCTPoison lib" by auto
  have "\<forall>e \<in> set (take j ?es @ drop (j + 1) ?es). ext_Id e \<noteq> al_oidCTPoison lib"
    using s(1,3) by (auto simp: in_set_conv_nth)
  moreover have "?es = take j ?es @ (?es ! j) # drop (j + 1) ?es" using id_take_nth_drop [OF s(1)] by simp
  ultimately show ?thesis using o j(2) s(2) by blast
qed

section \<open>The dummy signature\<close>

definition oidEcdsaWithSHA256 :: "nat list" where "oidEcdsaWithSHA256 = [1, 2, 840, 10045, 4, 3, 2]"
definition oidEcdsaWithSHA384 :: "nat list" where "oidEcdsaWithSHA384 = [1, 2, 840, 10045, 4, 3, 3]"

definition dummySignatureSHA256 :: bytes where
  "dummySignatureSHA256 =
     [0x30, 0x46, 0x02, 0x21, 0x01, 0x23, 0x45, 0x67, 0x89, 0xab, 0xcd, 0xef,
      0x01, 0x23, 0x45, 0x67, 0x89, 0xab, 0xcd, 0xef, 0x01, 0x23, 0x45, 0x67,
      0x89, 0xab, 0xcd, 0xef, 0x01, 0x23, 0x45, 0x67, 0x89, 0xab, 0xcd, 0xef,
      0x01, 0x02, 0x21, 0x01, 0x23, 0x45, 0x67, 0x89, 0xab, 0xcd, 0xef, 0x01,
      0x23, 0x45, 0x67, 0x89, 0xab, 0xcd, 0xef, 0x01, 0x23, 0x45, 0x67, 0x89,
      0xab, 0xcd, 0xef, 0x01, 0x23, 0x45, 0x67, 0x89, 0xab, 0xcd, 0xef, 0x01]"

definition dummySignatureSHA384 :: bytes where
  "dummySignatureSHA384 =
     [0x30, 0x66, 0x02, 0x31, 0x01, 0x23, 0x45, 0x67, 0x89, 0xab, 0xcd, 0xef,
      0x01, 0x23, 0x45, 0x67, 0x89, 0xab, 0xcd, 0xef, 0x01, 0x23, 0x45, 0x67,
      0x89, 0xab, 0xcd, 0xef, 0x01, 0x23, 0x45, 0x67, 0x89, 0xab, 0xcd, 0xef,
      0x01, 0x23, 0x45, 0x67, 0x89, 0xab, 0xcd, 0xef, 0x01, 0x23, 0x45, 0x67,
      0x89, 0xab, 0xcd, 0xef, 0x01, 0x02, 0x31, 0x01, 0x23, 0x45, 0x67, 0x89,
      0xab, 0xcd, 0xef, 0x01, 0x23, 0x45, 0x67, 0x89, 0xab, 0xcd, 0xef, 0x01,
      0x23, 0x45, 0x67, 0x89, 0xab, 0xcd, 0xef, 0x01, 0x23, 0x45, 0x67, 0x89,
      0xab, 0xcd, 0xef, 0x01, 0x23, 0x45, 0x67, 0x89, 0xab, 0xcd, 0xef, 0x01,
      0x23, 0x45, 0x67, 0x89, 0xab, 0xcd, 0xef, 0x01]"

text \<open>An algorithm identifier is its OID with opaque parameters; \<open>marshalSigned\<close> is asn1.Marshal.\<close>

record algorithmIdentifier =
  alg_Algorithm :: "nat list"
  alg_Parameters :: bytes

definition dummySignatureValue :: "algorithmIdentifier \<Rightarrow> bytes" where
  "dummySignatureValue alg =
     (if alg_Algorithm alg = oidEcdsaWithSHA256 then dummySignatureSHA256
      else if alg_Algorithm alg = oidEcdsaWithSHA384 then dummySignatureSHA384
      else [])"

definition dummySign ::
  "(bytes \<Rightarrow> algorithmIdentifier \<Rightarrow> bytes \<Rightarrow> go_error + bytes) \<Rightarrow> bytes \<Rightarrow> algorithmIdentifier \<Rightarrow> go_error + bytes" where
  "dummySign marshalSigned toBeSigned alg = marshalSigned toBeSigned alg (dummySignatureValue alg)"

definition MakeDummyCertificate ::
  "(bytes \<Rightarrow> go_error + algorithmIdentifier) \<Rightarrow> (bytes \<Rightarrow> algorithmIdentifier \<Rightarrow> bytes \<Rightarrow> go_error + bytes) \<Rightarrow>
     (bytes \<Rightarrow> go_error + certificate) \<Rightarrow> bytes \<Rightarrow> go_error + certificate" where
  "MakeDummyCertificate unmarshalPartial marshalSigned parseCertificate tbsCertificate =
     (case unmarshalPartial tbsCertificate of
        Inl e \<Rightarrow> Inl e
      | Inr alg \<Rightarrow>
          (case dummySign marshalSigned tbsCertificate alg of
             Inl e \<Rightarrow> Inl e
           | Inr derCert \<Rightarrow> parseCertificate derCert))"

text \<open>
  What the lint the comment names asks of an ECDSA signature: a DER SEQUENCE of exactly two
  INTEGERs, each minimal and positive, with short-form lengths that fit.
\<close>

definition derPositiveInteger :: "bytes \<Rightarrow> bool" where
  "derPositiveInteger v \<longleftrightarrow> v \<noteq> [] \<and> hd v < 0x80 \<and> (hd v = 0 \<longrightarrow> 1 < length v \<and> 0x80 \<le> v ! 1)"

definition takeInteger :: "bytes \<Rightarrow> (bytes \<times> bytes) option" where
  "takeInteger bs =
     (case bs of
        t # l # rest \<Rightarrow>
          if t = 0x02 \<and> l < 0x80 \<and> unat l \<le> length rest then Some (take (unat l) rest, drop (unat l) rest) else None
      | _ \<Rightarrow> None)"

definition ecdsaSignatureOK :: "nat \<Rightarrow> bytes \<Rightarrow> bool" where
  "ecdsaSignatureOK fieldBytes bs =
     (case bs of
        t # l # content \<Rightarrow>
          t = 0x30 \<and> l < 0x80 \<and> unat l = length content \<and>
          (case takeInteger content of
             None \<Rightarrow> False
           | Some (r, content') \<Rightarrow>
               (case takeInteger content' of
                  Some (s, []) \<Rightarrow> derPositiveInteger r \<and> derPositiveInteger s \<and> length r \<le> fieldBytes + 1 \<and> length s \<le> fieldBytes + 1
                | _ \<Rightarrow> False))
      | _ \<Rightarrow> False)"

lemma dummySignature_sizes:
  "length dummySignatureSHA256 = 72" "length dummySignatureSHA384 = 104"
  by (simp_all add: dummySignatureSHA256_def dummySignatureSHA384_def)

lemma dummySignatures_wellformed:
  "ecdsaSignatureOK 32 dummySignatureSHA256" "ecdsaSignatureOK 48 dummySignatureSHA384"
  by code_simp+

section \<open>SCT lists and mimic SCTs\<close>

definition MarshalSCTList ::
  "(sct list \<Rightarrow> go_error + 'l) \<Rightarrow> ('l \<Rightarrow> go_error + bytes) \<Rightarrow> sct list \<Rightarrow> go_error + bytes" where
  "MarshalSCTList marshalSCTs tlsMarshal scts =
     (case marshalSCTs scts of Inl e \<Rightarrow> Inl e | Inr sctList \<Rightarrow> tlsMarshal sctList)"

definition mimic1LogID :: bytes where
  "mimic1LogID =
     [0xF4, 0x41, 0x95, 0xD6, 0xF0, 0x0E, 0x2D, 0xB5, 0x54, 0x35, 0xCA, 0xDD, 0x57, 0x78, 0x92, 0xE5,
      0x3E, 0x15, 0xAD, 0x41, 0x70, 0x58, 0xF8, 0x78, 0xE1, 0x4F, 0xF6, 0xB9, 0x18, 0x74, 0x15, 0x89]"

definition mimic2LogID :: bytes where
  "mimic2LogID =
     [0xB2, 0x2F, 0x7E, 0xDE, 0xB5, 0xAF, 0x6A, 0xFE, 0x50, 0x3D, 0xE0, 0x40, 0x81, 0xB2, 0xD7, 0x4C,
      0x12, 0x53, 0x84, 0x92, 0xFE, 0xDF, 0x2C, 0xB2, 0xA5, 0x26, 0x50, 0x3C, 0xEF, 0x53, 0xCE, 0xD2]"

text \<open>A mimic key is the scalar of its log; \<open>ml_sign\<close> is tls.CreateSignature with that key.\<close>

record mimicLib =
  ml_serialize :: "sct \<Rightarrow> bytes \<Rightarrow> bytes \<Rightarrow> go_error + bytes"
  ml_sign :: "nat \<Rightarrow> bytes \<Rightarrow> go_error + bytes"

definition mimic1Key :: nat where
  "mimic1Key = 0x777B0EF312E25246B4B155DC4D80C75FF5A437DC84EDA21A67C0F9A55C769620"

definition mimic2Key :: nat where
  "mimic2Key = 0x6A88796F01A7682CE40DBBDD45F6C24ED02B0EEA13E659EF6704A227F963FF86"

text \<open>The signed entry is always a precertificate entry: the issuer key hash and the TBSCertificate.\<close>

definition buildMimicSCT ::
  "mimicLib \<Rightarrow> bytes \<Rightarrow> nat \<Rightarrow> 64 word \<Rightarrow> bytes \<Rightarrow> bytes \<Rightarrow> go_error + sct" where
  "buildMimicSCT lib mimicLogID privateKey timestamp issuerKeyHash tbsCert =
     (let s = \<lparr>sct_SCTVersion = 0, sct_KeyID = mimicLogID, sct_Timestamp = timestamp, sct_Extensions = [],
               sct_Signature = []\<rparr>
      in case ml_serialize lib s issuerKeyHash tbsCert of
           Inl e \<Rightarrow> Inl (Errorf (''failed to serialize SCT signature input: '' @ errorString e))
         | Inr signatureInput \<Rightarrow>
             (case ml_sign lib privateKey signatureInput of
                Inl e \<Rightarrow> Inl (Errorf (''failed to sign mimic SCT: '' @ errorString e))
              | Inr tlsSig \<Rightarrow> Inr (s\<lparr>sct_Signature := tlsSig\<rparr>)))"

definition GenerateMimicSCTs :: "mimicLib \<Rightarrow> 64 word \<Rightarrow> bytes \<Rightarrow> bytes \<Rightarrow> go_error + sct list" where
  "GenerateMimicSCTs lib timestamp detoxedTBSCert issuerSPKI =
     (case buildMimicSCT lib mimic1LogID mimic1Key timestamp issuerSPKI detoxedTBSCert of
        Inl e \<Rightarrow> Inl (Errorf (''failed to generate mimic SCT 1: '' @ errorString e))
      | Inr sct1 \<Rightarrow>
          (case buildMimicSCT lib mimic2LogID mimic2Key timestamp issuerSPKI detoxedTBSCert of
             Inl e \<Rightarrow> Inl (Errorf (''failed to generate mimic SCT 2: '' @ errorString e))
           | Inr sct2 \<Rightarrow> Inr [sct1, sct2]))"

section \<open>Linter findings\<close>

definition testLogFindingSubstrings :: "string list" where
  "testLogFindingSubstrings =
     [''logs currently approved by the'', ''fewer approved SCTs than required by the'',
      ''SCT list satisfies the'', ''fewer log operators than required by the'',
      ''fewer SCTs from RFC6962-compliant logs than required'',
      ''Certificate expires outside log's temporal interval'', ''SCT is from an unknown log'']"

definition isTestLogFinding :: "string \<Rightarrow> bool" where
  "isTestLogFinding finding \<longleftrightarrow> list_ex (strContains finding) testLogFindingSubstrings"

definition severityOf :: "string \<Rightarrow> string option" where
  "severityOf p =
     (if p = ''I: '' then Some ''info''
      else if p = ''N: '' then Some ''notice''
      else if p = ''W: '' then Some ''warning''
      else if p = ''E: '' then Some ''error''
      else if p = ''B: '' then Some ''bug''
      else if p = ''F: '' then Some ''fatal''
      else None)"

text \<open>The loop over the linter's results; slicing a result shorter than three bytes panics.\<close>

fun lintResults :: "bool \<Rightarrow> string list \<Rightarrow> CTLintResult list outcome" where
  "lintResults testMode [] = Ok []"
| "lintResults testMode (result # results) =
     (if length result < 3 then Panic
      else (case lintResults testMode results of
              Ok lres \<Rightarrow>
                Ok (case severityOf (take 3 result) of
                      None \<Rightarrow> lres
                    | Some sev \<Rightarrow>
                        if testMode \<and> isTestLogFinding (drop 3 result) then lres
                        else \<lparr>lint_Finding = drop 3 result, lint_Severity = sev\<rparr> # lres)
            | Err e \<Rightarrow> Err e
            | Panic \<Rightarrow> Panic))"

definition runCTLint ::
  "(bytes \<Rightarrow> go_error + certificate) \<Rightarrow> (certificate \<Rightarrow> bytes option \<Rightarrow> string list) \<Rightarrow>
     bytes \<Rightarrow> bytes option \<Rightarrow> bool \<Rightarrow> CTLintResult list outcome" where
  "runCTLint makeDummy checkCertificate tbsCertificate issuerSPKI testMode =
     (case makeDummy tbsCertificate of
        Inl e \<Rightarrow> Ok [\<lparr>lint_Finding = ''Failed to create dummy certificate: '' @ errorString e, lint_Severity = ''fatal''\<rparr>]
      | Inr dummyCert \<Rightarrow> lintResults testMode (checkCertificate dummyCert issuerSPKI))"

text \<open>The findings as a filter of the linter's results.\<close>

definition shownResult :: "bool \<Rightarrow> string \<Rightarrow> bool" where
  "shownResult testMode result \<longleftrightarrow> severityOf (take 3 result) \<noteq> None \<and> \<not> (testMode \<and> isTestLogFinding (drop 3 result))"

lemma lintResults_filter:
  "list_all (\<lambda>r. 3 \<le> length r) results \<Longrightarrow>
     lintResults testMode results =
       Ok (map (\<lambda>r. \<lparr>lint_Finding = drop 3 r, lint_Severity = the (severityOf (take 3 r))\<rparr>)
             (filter (shownResult testMode) results))"
  by (induction results) (auto simp: shownResult_def split: option.split)

lemma lintResults_panic: "\<exists>r \<in> set results. length r < 3 \<Longrightarrow> lintResults testMode results = Panic"
proof (induction results)
  case (Cons a results)
  then show ?case by (cases "length a < 3") auto
qed simp

section \<open>The final certificate\<close>

text \<open>
  C32: The final TBSCertificate is the submitted precertificate with exactly its one poison extension
  removed and one non-critical SCT list extension added at the end; every other field and extension,
  and their order, are those of the precertificate. A precertificate without poison, with two of
  them or with trailing bytes has none.
\<close>

theorem final_certificate:
  assumes "DetoxTBSCertificateFromPrecertificate lib pre = Inr tbs"
    and "ProduceFinalTBSCertificate lib sctList tbs = (Inr der, tbs')"
  shows "\<exists>orig before poison after sctValue. al_unmarshalCertificate lib pre = Inr (orig, []) \<and>
    tbs_Extensions orig = before @ poison # after \<and> ext_Id poison = al_oidCTPoison lib \<and>
    (\<forall>e \<in> set (before @ after). ext_Id e \<noteq> al_oidCTPoison lib) \<and>
    al_marshalOctetString lib sctList = Inr sctValue \<and>
    tbs' = orig\<lparr>tbs_Extensions := before @ after @ [\<lparr>ext_Id = al_oidCTSCT lib, ext_Critical = False, ext_Value = sctValue\<rparr>]\<rparr> \<and>
    al_marshalTBS lib tbs' = Inr der"
proof -
  obtain orig before poison after where d: "al_unmarshalCertificate lib pre = Inr (orig, [])"
    "tbs_Extensions orig = before @ poison # after" "ext_Id poison = al_oidCTPoison lib"
    "tbs = orig\<lparr>tbs_Extensions := before @ after\<rparr>" "\<forall>e \<in> set (before @ after). ext_Id e \<noteq> al_oidCTPoison lib"
    using detox_spec [OF assms(1)] by blast
  obtain sctValue where s: "al_marshalOctetString lib sctList = Inr sctValue"
    using assms(2) by (auto simp: ProduceFinalTBSCertificate_def split: sum.splits)
  then show ?thesis using assms(2) d by (auto simp: ProduceFinalTBSCertificate_def Let_def)
qed

text \<open>Extensions encoded as their identifiers; a precertificate whose poison is between two others.\<close>

definition exASN1 :: "bytes asn1Lib" where
  "exASN1 =
     \<lparr>al_unmarshalCertificate = (\<lambda>b. Inr (\<lparr>tbs_Fields = b, tbs_Extensions =
         [\<lparr>ext_Id = [2], ext_Critical = True, ext_Value = []\<rparr>, \<lparr>ext_Id = [3], ext_Critical = True, ext_Value = []\<rparr>,
          \<lparr>ext_Id = [4], ext_Critical = False, ext_Value = []\<rparr>]\<rparr>, [])),
      al_marshalTBS = (\<lambda>t. Inr (tbs_Fields t)), al_marshalOctetString = (\<lambda>b. Inr (4 # b)),
      al_oidCTPoison = [3], al_oidCTSCT = [5]\<rparr>"

definition exTBS :: "bytes TBSCertificate" where
  "exTBS = \<lparr>tbs_Fields = [7], tbs_Extensions =
     [\<lparr>ext_Id = [2], ext_Critical = True, ext_Value = []\<rparr>, \<lparr>ext_Id = [4], ext_Critical = False, ext_Value = []\<rparr>]\<rparr>"

theorem final_certificate_witness:
  "\<exists>before after sctValue. snd (ProduceFinalTBSCertificate exASN1 [9] exTBS) =
     exTBS\<lparr>tbs_Extensions := before @ after @ [\<lparr>ext_Id = al_oidCTSCT exASN1, ext_Critical = False, ext_Value = sctValue\<rparr>]\<rparr>"
proof -
  have d: "DetoxTBSCertificateFromPrecertificate exASN1 [7] = Inr exTBS"
    by (simp add: DetoxTBSCertificateFromPrecertificate_def exASN1_def exTBS_def)
  have "fst (ProduceFinalTBSCertificate exASN1 [9] exTBS) = Inr [7]"
    by (simp add: ProduceFinalTBSCertificate_def exASN1_def exTBS_def)
  then obtain tbs' where p: "ProduceFinalTBSCertificate exASN1 [9] exTBS = (Inr [7], tbs')" by (metis prod.collapse)
  have same: "al_unmarshalCertificate exASN1 [7] = Inr (orig, rest) \<Longrightarrow> tbs_Fields orig = tbs_Fields exTBS" for orig rest
    by (auto simp: exASN1_def exTBS_def)
  from final_certificate [OF d p] obtain orig before after sctValue where
    "al_unmarshalCertificate exASN1 [7] = Inr (orig, [])"
    "tbs' = orig\<lparr>tbs_Extensions := before @ after @ [\<lparr>ext_Id = al_oidCTSCT exASN1, ext_Critical = False, ext_Value = sctValue\<rparr>]\<rparr>"
    by blast
  with same p show ?thesis by (intro exI [of _ before] exI [of _ after] exI [of _ sctValue]) simp
qed

text \<open>
  The placeholder signatures for the linter are DER sequences of exactly two minimal positive
  integers no longer than a byte more than the field of their curve, as the lint the comment names
  demands; certificates signed otherwise get an empty signature.
\<close>

theorem dummy_signatures_wellformed:
  "ecdsaSignatureOK 32 (dummySignatureValue \<lparr>alg_Algorithm = oidEcdsaWithSHA256, alg_Parameters = ps\<rparr>) \<and>
   ecdsaSignatureOK 48 (dummySignatureValue \<lparr>alg_Algorithm = oidEcdsaWithSHA384, alg_Parameters = ps\<rparr>)"
proof -
  have "oidEcdsaWithSHA384 \<noteq> oidEcdsaWithSHA256" by (simp add: oidEcdsaWithSHA256_def oidEcdsaWithSHA384_def)
  then show ?thesis using dummySignatures_wellformed by (simp add: dummySignatureValue_def)
qed

text \<open>
  runCTLint returns, in order, exactly the linter's results with a known severity prefix, split
  into severity and text; in test mode it leaves out those, and only those, that mention log
  approval. A result shorter than the three bytes it slices off crashes the process; if the dummy
  certificate cannot be made there is exactly one finding, a fatal one.
\<close>

theorem lint_findings:
  "runCTLint makeDummy checkCertificate tbs issuerSPKI testMode =
     (case makeDummy tbs of
        Inl e \<Rightarrow> Ok [\<lparr>lint_Finding = ''Failed to create dummy certificate: '' @ errorString e, lint_Severity = ''fatal''\<rparr>]
      | Inr cert \<Rightarrow>
          let results = checkCertificate cert issuerSPKI in
          if list_all (\<lambda>r. 3 \<le> length r) results
          then Ok (map (\<lambda>r. \<lparr>lint_Finding = drop 3 r, lint_Severity = the (severityOf (take 3 r))\<rparr>)
                 (filter (shownResult testMode) results))
          else Panic)"
proof -
  have "lintResults testMode results = Panic" if "\<not> list_all (\<lambda>r. 3 \<le> length r) results" for results
    by (rule lintResults_panic) (use that in \<open>auto simp: list_all_iff not_le\<close>)
  then show ?thesis by (auto simp: runCTLint_def lintResults_filter Let_def split: sum.split)
qed

end
