(* ===== verification/Base64.thy ===== *)
theory Base64
  imports Prelude
begin

text \<open>
  encoding/base64's StdEncoding, as submitter/handler.go and utils/base64.go use it: encoding with
  padding, and decoding, which skips line breaks, wants the padding exactly at the end and does not
  look at the bits the last digit has too many.
\<close>

definition b64Char :: "nat \<Rightarrow> char" where
  "b64Char n =
     (if n < 26 then char_of (65 + n)
      else if n < 52 then char_of (71 + n)
      else if n < 62 then char_of (n - 4)
      else if n = 62 then CHR ''+''
      else CHR ''/'')"

definition b64Value :: "char \<Rightarrow> nat option" where
  "b64Value c =
     (let n = (of_char c :: nat) in
      if 65 \<le> n \<and> n \<le> 90 then Some (n - 65)
      else if 97 \<le> n \<and> n \<le> 122 then Some (n - 71)
      else if 48 \<le> n \<and> n \<le> 57 then Some (n + 4)
      else if c = CHR ''+'' then Some 62
      else if c = CHR ''/'' then Some 63
      else None)"

fun base64Encode :: "bytes \<Rightarrow> string" where
  "base64Encode [] = []"
| "base64Encode [a] =
     (let n = unat a in [b64Char (n div 4), b64Char (n mod 4 * 16), CHR ''='', CHR ''=''])"
| "base64Encode [a, b] =
     (let n = unat a * 256 + unat b in
      [b64Char (n div 1024), b64Char (n div 16 mod 64), b64Char (n mod 16 * 4), CHR ''=''])"
| "base64Encode (a # b # c # rest) =
     (let n = unat a * 65536 + unat b * 256 + unat c in
      [b64Char (n div 262144), b64Char (n div 4096 mod 64), b64Char (n div 64 mod 64), b64Char (n mod 64)] @
      base64Encode rest)"

fun decodeQuanta :: "string \<Rightarrow> bytes option" where
  "decodeQuanta [] = Some []"
| "decodeQuanta (c1 # c2 # c3 # c4 # rest) =
     (case (b64Value c1, b64Value c2) of
        (Some n1, Some n2) \<Rightarrow>
          let n = n1 * 64 + n2 in
          if c3 = CHR ''='' then
            (if c4 = CHR ''='' \<and> rest = [] then Some [of_nat (n div 16)] else None)
          else (case b64Value c3 of
                  None \<Rightarrow> None
                | Some n3 \<Rightarrow>
                    let n = n * 64 + n3 in
                    if c4 = CHR ''='' then
                      (if rest = [] then Some [of_nat (n div 1024), of_nat (n div 4 mod 256)] else None)
                    else (case (b64Value c4, decodeQuanta rest) of
                            (Some n4, Some bs) \<Rightarrow>
                              let n = n * 64 + n4 in
                              Some (of_nat (n div 65536) # of_nat (n div 256 mod 256) # of_nat (n mod 256) # bs)
                          | _ \<Rightarrow> None))
      | _ \<Rightarrow> None)"
| "decodeQuanta cs = None"

definition base64Decode :: "string \<Rightarrow> bytes option" where
  "base64Decode cs = decodeQuanta (filter (\<lambda>c. c \<noteq> CHR 0x0A \<and> c \<noteq> CHR 0x0D) cs)"

text \<open>
  utils.DecodePEMOrBase64: the contents of a PEM block of the expected type, otherwise the input as
  base64. \<open>pemDecode\<close> is pem.Decode, giving the type and the contents of the first block.
\<close>

definition DecodePEMOrBase64 :: "(string \<Rightarrow> (string \<times> bytes) option) \<Rightarrow> string \<Rightarrow> string \<Rightarrow> go_error + bytes" where
  "DecodePEMOrBase64 pemDecode input expectedHeader =
     (let plain = (case base64Decode input of None \<Rightarrow> Inl (Errorf ''illegal base64 data'') | Some bs \<Rightarrow> Inr bs) in
      case pemDecode input of
        Some (ty, contents) \<Rightarrow> if ty = expectedHeader then Inr contents else plain
      | None \<Rightarrow> plain)"

section \<open>Round trip\<close>

lemma of_b64Char:
  "of_char (b64Char n) =
    (if n < 26 then 65 + n else if n < 52 then 71 + n else if n < 62 then n - 4 else if n = 62 then 43 else (47 :: nat))"
  by (auto simp: b64Char_def)

lemma b64Char_other:
  assumes "(of_char c :: nat) \<in> {10, 13, 61}"
  shows "b64Char n \<noteq> c"
proof
  assume "b64Char n = c"
  then have "of_char (b64Char n) \<in> {10, 13, 61 :: nat}" using assms by simp
  then show False unfolding of_b64Char by (auto split: if_splits)
qed

lemma b64Char_plain [simp]: "b64Char n \<noteq> CHR ''=''" "b64Char n \<noteq> CHR 0x0A" "b64Char n \<noteq> CHR 0x0D"
  by (rule b64Char_other; simp)+

lemma b64Value_char: "n < 64 \<Longrightarrow> b64Value (b64Char n) = Some n"
  unfolding b64Value_def of_b64Char Let_def by (auto simp: b64Char_def)

lemma byte_lt: "unat (b :: 8 word) < 256"
  using unsigned_less [of b] by simp

lemma digits3:
  fixes n :: nat
  shows "n div 262144 * 64 + n div 4096 mod 64 = n div 4096"
    and "n div 4096 * 64 + n div 64 mod 64 = n div 64" and "n div 64 * 64 + n mod 64 = n"
proof -
  have "n div 262144 = n div 4096 div 64" "n div 4096 = n div 64 div 64" by (simp_all add: div_mult2_eq [symmetric])
  then show "n div 262144 * 64 + n div 4096 mod 64 = n div 4096"
    and "n div 4096 * 64 + n div 64 mod 64 = n div 64" and "n div 64 * 64 + n mod 64 = n"
    by simp_all
qed

lemma digits2:
  fixes n :: nat
  shows "(n div 1024 * 64 + n div 16 mod 64) * 64 + n mod 16 * 4 = 4 * n"
    and "16 * (n div 1024 * 64 + n div 16 mod 64) + n mod 16 = n"
proof -
  have "n div 1024 = n div 16 div 64" by (simp add: div_mult2_eq [symmetric])
  then have e: "n div 1024 * 64 + n div 16 mod 64 = n div 16" by simp
  show "(n div 1024 * 64 + n div 16 mod 64) * 64 + n mod 16 * 4 = 4 * n"
    and "16 * (n div 1024 * 64 + n div 16 mod 64) + n mod 16 = n"
    unfolding e using div_mult_mod_eq [of n 16] by linarith+
qed

lemma split2:
  assumes "b < (256 :: nat)"
  shows "4 * (a * 256 + b) div 1024 = a" and "4 * (a * 256 + b) div 4 mod 256 = b"
proof -
  have "4 * (a * 256 + b) div 1024 = (a * 256 + b) div 256"
    using div_mult_mult1 [of 4 "a * 256 + b" 256] by simp
  then show "4 * (a * 256 + b) div 1024 = a" using assms by simp
  show "4 * (a * 256 + b) div 4 mod 256 = b" using assms by simp
qed

lemma split3:
  assumes "b < 256" and "c < (256::nat)"
  shows "(a * 65536 + b * 256 + c) div 65536 = a" and "(a * 65536 + b * 256 + c) div 256 mod 256 = b"
    and "(a * 65536 + b * 256 + c) mod 256 = c"
proof -
  let ?n = "(a * 256 + b) * 256 + c"
  have n: "a * 65536 + b * 256 + c = ?n" by simp
  have hi: "?n div 256 = a * 256 + b" and lo: "?n mod 256 = c"
    using assms(2) mod_mult_self3 [of "a * 256 + b" 256 c] by (simp_all del: distrib_right)
  have "?n div 65536 = ?n div 256 div 256" by (simp add: div_mult2_eq [symmetric])
  then show "(a * 65536 + b * 256 + c) div 65536 = a" unfolding n hi using assms by simp
  show "(a * 65536 + b * 256 + c) div 256 mod 256 = b" unfolding n hi using assms by simp
  show "(a * 65536 + b * 256 + c) mod 256 = c" unfolding n by (rule lo)
qed

lemma decodeQuanta_encode: "decodeQuanta (base64Encode bs) = Some bs"
proof (induction bs rule: base64Encode.induct)
  case 1
  then show ?case by simp
next
  case (2 a)
  have "unat a div 4 < 64" "unat a mod 4 * 16 < 64" using byte_lt [of a] by simp_all
  moreover have "unat a div 4 * 64 + unat a mod 4 * 16 = 16 * unat a" using div_mult_mod_eq [of "unat a" 4] by linarith
  ultimately show ?case by (simp add: b64Value_char Let_def)
next
  case (3 a b)
  let ?n = "unat a * 256 + unat b"
  have d: "?n div 1024 < 64" "?n div 16 mod 64 < 64" "?n mod 16 * 4 < 64" using byte_lt [of a] byte_lt [of b] by simp_all
  then show ?case using b64Value_char [OF d(1)] b64Value_char [OF d(2)] b64Value_char [OF d(3)]
    by (simp add: Let_def digits2 split2 byte_lt del: distrib_left_numeral distrib_right_numeral)
next
  case (4 a b c rest)
  let ?n = "unat a * 65536 + unat b * 256 + unat c"
  have d: "?n div 262144 < 64" "?n div 4096 mod 64 < 64" "?n div 64 mod 64 < 64" "?n mod 64 < 64"
    using byte_lt [of a] byte_lt [of b] byte_lt [of c] by simp_all
  show ?case
    using "4.IH" [OF refl] b64Value_char [OF d(1)] b64Value_char [OF d(2)] b64Value_char [OF d(3)] b64Value_char [OF d(4)]
    by (simp add: Let_def digits3 split3 byte_lt del: distrib_left_numeral distrib_right_numeral)
qed

lemma base64Encode_chars: "c \<in> set (base64Encode bs) \<Longrightarrow> c \<noteq> CHR 0x0A \<and> c \<noteq> CHR 0x0D"
  by (induction bs rule: base64Encode.induct) (auto simp: Let_def)

lemma base64Decode_encode: "base64Decode (base64Encode bs) = Some bs"
proof -
  have "filter (\<lambda>c. c \<noteq> CHR 0x0A \<and> c \<noteq> CHR 0x0D) (base64Encode bs) = base64Encode bs"
    using base64Encode_chars by (auto intro!: filter_True)
  then show ?thesis by (simp add: base64Decode_def decodeQuanta_encode)
qed

text \<open>
  Base64 text without PEM armour decodes to exactly the bytes that were encoded, also when line
  breaks have been put into it; so the values a response carries in base64 can be read back.
\<close>

theorem base64_round_trip:
  "DecodePEMOrBase64 (\<lambda>s. None) (base64Encode bs) expectedHeader = Inr bs \<and>
   base64Decode (base64Encode bs) = Some bs \<and>
   (filter (\<lambda>c. c \<noteq> CHR 0x0A \<and> c \<noteq> CHR 0x0D) wrapped = base64Encode bs \<longrightarrow> base64Decode wrapped = Some bs)"
  using base64Decode_encode [of bs] by (auto simp: DecodePEMOrBase64_def base64Decode_def decodeQuanta_encode)

theorem base64_round_trip_witness: "base64Decode ''AQI'' = None \<and> base64Decode (''AQ'' @ [CHR 0x0A] @ ''ID'') = Some [1, 2, 3]"
proof -
  have "char_of (65 :: nat) = CHR ''A''" "char_of (81 :: nat) = CHR ''Q''" "char_of (73 :: nat) = CHR ''I''"
    "char_of (68 :: nat) = CHR ''D''" by (simp_all add: char_of_def bit_iff_odd)
  then have "base64Encode [1, 2, 3] = ''AQID''" by (simp add: b64Char_def)
  then have "base64Decode (''AQ'' @ [CHR 0x0A] @ ''ID'') = Some [1, 2, 3]"
    using base64_round_trip [of "[1, 2, 3]" "[]" "''AQ'' @ [CHR 0x0A] @ ''ID''"] by simp
  moreover have "base64Decode ''AQI'' = None" by (simp add: base64Decode_def)
  ultimately show ?thesis by simp
qed

end
