(* ===== verification/Handler.thy ===== *)
theory Handler
  imports Submit_System Strategy Compatible_Logs Discovery TBS Base64
begin

text \<open>
  submitter/handler.go: one API request from the decoded submission request to the response, around
  the call of submit. What it takes from libraries is the record \<open>handlerLib\<close>, the rest of what it
  reads (clock, monitor, submitter) is \<open>handlerEnv\<close>. Handle is cut at the call of submit into
  \<open>handlePrepare\<close> and \<open>handleFinish\<close>; submit's result and the strategy it leaves come from a run of
  the submission system.
\<close>

section \<open>Endpoints (endpoint/endpoint.go)\<close>

datatype Endpoint = ENDPOINT_ADDCHAIN | ENDPOINT_ADDPRECHAIN

definition CheckPOSTEndpoint :: "string \<Rightarrow> Endpoint option" where
  "CheckPOSTEndpoint endpointString =
     (if endpointString = ''add-chain'' then Some ENDPOINT_ADDCHAIN
      else if endpointString = ''add-pre-chain'' then Some ENDPOINT_ADDPRECHAIN
      else None)"

fun APIEndpoint :: "Endpoint \<Rightarrow> string" where
  "APIEndpoint ENDPOINT_ADDCHAIN = ''add-chain''"
| "APIEndpoint ENDPOINT_ADDPRECHAIN = ''add-pre-chain''"

section \<open>What a request is handled with\<close>

record ('r, 'pool, 'l) handlerLib =
  hl_parse :: "bytes \<Rightarrow> go_error + certificate"
  hl_asn1 :: "'r asn1Lib"
  hl_oidBIMI :: "nat list"
  hl_baseList :: "baseList \<Rightarrow> logList"
  hl_discovery :: discoveryLib
  hl_compat :: "'pool compatLib"
  hl_sha256 :: "bytes \<Rightarrow> bytes"
  hl_issuerSPKIByKeyIdentifier :: "string \<Rightarrow> bytes option"
  hl_mimic :: mimicLib
  hl_marshalSignature :: "bytes \<Rightarrow> go_error + bytes"
  hl_marshalSCTs :: "sct list \<Rightarrow> go_error + 'l"
  hl_tlsMarshal :: "'l \<Rightarrow> go_error + bytes"
  hl_makeDummy :: "bytes \<Rightarrow> go_error + certificate"
  hl_checkCertificate :: "certificate \<Rightarrow> bytes option \<Rightarrow> string list"

record handlerEnv =
  he_now :: time
  he_strategyEnv :: strategyEnv
  he_submitter :: Submitter
  he_monitor :: Monitor
  he_mimicTimestamp :: "64 word"

text \<open>What submit is called with, and what Handle still needs after it.\<close>

record 'r prepared =
  pr_request :: SubmissionRequest
  pr_strategy :: "StrategyMember list"
  pr_entry :: submittedEntry
  pr_detoxed :: "'r TBSCertificate option"

text \<open>Handle returns a response (or nil) together with an error (or nil).\<close>

type_synonym handlerResult = "SubmissionResponse option \<times> go_error option"

datatype 'r handlerStage = Answered handlerResult | Prepared "'r prepared"

section \<open>Up to the submission\<close>

text \<open>The certificate matched against the endpoint: entry type, entry data and detoxed TBSCertificate.\<close>

definition entryFor ::
  "('r, 'pool, 'l) handlerLib \<Rightarrow> Endpoint \<Rightarrow> certificate \<Rightarrow> go_error + (logEntryType \<times> bytes \<times> 'r TBSCertificate option)" where
  "entryFor lib apiEndpoint cert =
     (if cert_IsPrecertificate cert then
        if apiEndpoint = ENDPOINT_ADDCHAIN then Inl (Errorf ''precertificate submitted to add-chain endpoint'')
        else (case DetoxTBSCertificateFromPrecertificate (hl_asn1 lib) (cert_Raw cert) of
                Inl e \<Rightarrow> Inl (Errorf (''failed to detox precertificate: '' @ errorString e))
              | Inr detoxedTBSCert \<Rightarrow>
                  (case al_marshalTBS (hl_asn1 lib) detoxedTBSCert of
                     Inl e \<Rightarrow> Inl (Errorf (''failed to re-marshal TBSCertificate: '' @ errorString e))
                   | Inr entryData \<Rightarrow> Inr (PrecertLogEntryType, entryData, Some detoxedTBSCert)))
      else if apiEndpoint = ENDPOINT_ADDPRECHAIN then Inl (Errorf ''certificate submitted to add-pre-chain endpoint'')
      else Inr (X509LogEntryType, cert_Raw cert, None))"

definition discoverIfAsked :: "discoveryLib \<Rightarrow> baseList \<Rightarrow> SubmissionRequest \<Rightarrow> SubmissionRequest outcome" where
  "discoverIfAsked lib ll sr =
     (if sr_DiscoverChain sr
      then (case DiscoverChain lib (sr_Chain sr) ll of
              Ok (Some discoveredChain) \<Rightarrow> Ok (sr\<lparr>sr_Chain := discoveredChain\<rparr>)
            | Ok None \<Rightarrow> Ok sr
            | Err e \<Rightarrow> Err e
            | Panic \<Rightarrow> Panic)
      else Ok sr)"

definition issuerSPKI :: "('r, 'pool, 'l) handlerLib \<Rightarrow> certificate \<Rightarrow> SubmissionRequest \<Rightarrow> go_error + bytes option" where
  "issuerSPKI lib cert sr =
     (if 1 < length (sr_Chain sr)
      then (case hl_parse lib (sr_Chain sr ! 1) of
              Inl e \<Rightarrow> Inl (Errorf (''failed to parse issuer certificate: '' @ errorString e))
            | Inr issuer \<Rightarrow> Inr (Some (hl_sha256 lib (cert_RawSubjectPublicKeyInfo issuer))))
      else Inr (hl_issuerSPKIByKeyIdentifier lib (base64Encode (cert_AuthorityKeyId cert))))"

text \<open>The response that is built up-front: it carries the strategy if one was asked for.\<close>

definition startResponse :: "SubmissionRequest \<Rightarrow> StrategyMember list \<Rightarrow> SubmissionResponse" where
  "startResponse sr strategy =
     (if sr_Verbose sr then emptyResponse\<lparr>resp_Strategy := strategy\<rparr> else emptyResponse)"

definition handlePrepare ::
  "('r, 'pool, 'l) handlerLib \<Rightarrow> handlerEnv \<Rightarrow> Endpoint \<Rightarrow> SubmissionRequest \<Rightarrow> chainCache \<Rightarrow>
     'r handlerStage outcome \<times> chainCache" where
  "handlePrepare lib env apiEndpoint sr cache =
     (if sr_Chain sr = [] then (Ok (Answered (None, Some (Errorf ''missing or empty 'chain' parameter''))), cache)
      else case hl_parse lib (sr_Chain sr ! 0) of
        Inl e \<Rightarrow> (Ok (Answered (None, Some (Errorf (''failed to parse first certificate: '' @ errorString e)))), cache)
      | Inr cert \<Rightarrow>
        (case entryFor lib apiEndpoint cert of
           Inl e \<Rightarrow> (Ok (Answered (None, Some e)), cache)
         | Inr (entryType, entryData, detoxed) \<Rightarrow>
           (case determineSubmissionRequirements (hl_oidBIMI lib) cert sr of (sr1, ll) \<Rightarrow>
             (case discoverIfAsked (hl_discovery lib) ll sr1 of
                Panic \<Rightarrow> (Panic, cache)
              | Err e \<Rightarrow> (Err e, cache)
              | Ok sr2 \<Rightarrow>
                (case determineCompatibleLogs (hl_compat lib) (he_now env) cert sr2 (hl_baseList lib ll) cache of
                   (Inl e, cache') \<Rightarrow> (Ok (Answered (None, Some e)), cache')
                 | (Inr compatibleLogList, cache') \<Rightarrow>
                   let strategy = devizeSubmissionStrategy (he_strategyEnv env) (he_submitter env) (he_monitor env)
                         compatibleLogList entryType
                   in (case issuerSPKI lib cert sr2 of
                         Inl e \<Rightarrow> (Ok (Answered (Some (startResponse sr2 strategy), Some e)), cache')
                       | Inr sha256IssuerSPKI \<Rightarrow>
                           (Ok (Prepared \<lparr>pr_request = sr2, pr_strategy = strategy,
                                  pr_entry = \<lparr>se_sha256IssuerSPKI = sha256IssuerSPKI, se_entryType = entryType,
                                              se_entryData = entryData\<rparr>,
                                  pr_detoxed = detoxed\<rparr>), cache')))))))"

section \<open>After the submission\<close>

text \<open>The loop that adds the mimic SCTs to the log responses; it stops at the first that cannot be encoded.\<close>

fun appendMimics ::
  "('r, 'pool, 'l) handlerLib \<Rightarrow> sct list \<Rightarrow> addChainResponse list \<Rightarrow> addChainResponse list \<times> go_error option" where
  "appendMimics lib [] responses = (responses, None)"
| "appendMimics lib (mimicSCT # mimicSCTs) responses =
     (case hl_marshalSignature lib (sct_Signature mimicSCT) of
        Inl e \<Rightarrow> (responses, Some (Errorf (''failed to marshal mimic SCT signature: '' @ errorString e)))
      | Inr sig \<Rightarrow>
          appendMimics lib mimicSCTs (responses @
            [\<lparr>acr_SCTVersion = sct_SCTVersion mimicSCT, acr_ID = sct_KeyID mimicSCT, acr_Timestamp = sct_Timestamp mimicSCT,
              acr_Extensions = base64Encode (sct_Extensions mimicSCT), acr_Signature = sig\<rparr>]))"

text \<open>The mimic step: the SCTs to embed, and the log responses, or the error that ends it.\<close>

definition addMimics ::
  "('r, 'pool, 'l) handlerLib \<Rightarrow> handlerEnv \<Rightarrow> 'r prepared \<Rightarrow> addChainResponse list \<Rightarrow> sct list \<Rightarrow>
     (addChainResponse list \<times> go_error option) \<times> sct list" where
  "addMimics lib env p responses scts =
     (case (if sr_Mimics (pr_request p) then se_sha256IssuerSPKI (pr_entry p) else None) of
        None \<Rightarrow> ((responses, None), scts)
      | Some hash \<Rightarrow>
          (case GenerateMimicSCTs (hl_mimic lib) (he_mimicTimestamp env) (se_entryData (pr_entry p)) hash of
             Inl e \<Rightarrow> ((responses, Some (Errorf (''failed to generate mimic SCTs: '' @ errorString e))), scts)
           | Inr mimicSCTs \<Rightarrow> (appendMimics lib mimicSCTs responses, scts @ mimicSCTs)))"

text \<open>For a precertificate: the encoded SCT list, the final TBSCertificate and the linter's findings.\<close>

definition embedSCTs ::
  "('r, 'pool, 'l) handlerLib \<Rightarrow> Settings \<Rightarrow> 'r prepared \<Rightarrow> bytes \<Rightarrow> SubmissionResponse \<Rightarrow> handlerResult outcome" where
  "embedSCTs lib cfg p sctListBytes resp =
     (let resp1 = (if response_IncludeSCTList cfg then resp\<lparr>resp_SCTListB64 := base64Encode sctListBytes\<rparr> else resp) in
      if response_ProduceFinalTBSCert cfg then
        (case pr_detoxed p of
           None \<Rightarrow> Panic
         | Some detoxed \<Rightarrow>
             (case fst (ProduceFinalTBSCertificate (hl_asn1 lib) sctListBytes detoxed) of
                Inl e \<Rightarrow> Ok (Some resp1, Some (Errorf (''failed to generate final TBSCertificate: '' @ errorString e)))
              | Inr tbsCertificate \<Rightarrow>
                  (case runCTLint (hl_makeDummy lib) (hl_checkCertificate lib) tbsCertificate
                          (se_sha256IssuerSPKI (pr_entry p)) (sr_TestLogs (pr_request p)) of
                     Panic \<Rightarrow> Panic
                   | Err e \<Rightarrow> Err e
                   | Ok findings \<Rightarrow>
                       Ok (Some (resp1\<lparr>resp_FinalTBSCertB64 := base64Encode tbsCertificate, resp_CTLint := findings\<rparr>), None))))
      else Ok (Some resp1, None))"

definition handleFinish ::
  "('r, 'pool, 'l) handlerLib \<Rightarrow> handlerEnv \<Rightarrow> 'r prepared \<Rightarrow> (addChainResponse list \<times> sct list) outcome \<Rightarrow>
     StrategyMember list \<Rightarrow> handlerResult outcome" where
  "handleFinish lib env p submitted strategy =
     (let resp = startResponse (pr_request p) strategy;
          cfg = sb_cfg (he_submitter env)
      in case submitted of
           Panic \<Rightarrow> Panic
         | Err e \<Rightarrow> Ok (Some resp, Some (Errorf (''submission failed: '' @ errorString e)))
         | Ok (responses, scts) \<Rightarrow>
             (case addMimics lib env p responses scts of
                ((responses', Some e), _) \<Rightarrow> Ok (Some (resp\<lparr>resp_LogResponse := responses'\<rparr>), Some e)
              | ((responses', None), scts') \<Rightarrow>
                  let resp1 = resp\<lparr>resp_LogResponse := responses'\<rparr> in
                  (case MarshalSCTList (hl_marshalSCTs lib) (hl_tlsMarshal lib) scts' of
                     Inl e \<Rightarrow> Ok (Some resp1, Some (Errorf (''failed to marshal SCT list: '' @ errorString e)))
                   | Inr sctListBytes \<Rightarrow>
                       (case (if se_entryType (pr_entry p) = PrecertLogEntryType
                              then embedSCTs lib cfg p sctListBytes resp1 else Ok (Some resp1, None)) of
                          Ok (Some resp2, None) \<Rightarrow>
                            Ok (Some (if response_IncludeLogResponses cfg then resp2 else resp2\<lparr>resp_LogResponse := []\<rparr>), None)
                        | other \<Rightarrow> other))))"

section \<open>The whole request\<close>

text \<open>
  A run of the submission system that has ended: with the result of submit and the strategy it
  leaves, or with a panic of a goroutine, which ends the process.
\<close>

definition submissionEnds ::
  "(bytes list \<Rightarrow> go_error + bytes) \<Rightarrow> (nat \<Rightarrow> duration) \<Rightarrow> ctLib \<Rightarrow> 'r prepared \<Rightarrow>
     (addChainResponse list \<times> sct list) outcome \<Rightarrow> StrategyMember list \<Rightarrow> bool" where
  "submissionEnds marshal elapsed ctlib p submitted strategy \<longleftrightarrow>
     (\<exists>y. sysReach (submissionOf (pr_request p) elapsed (pr_strategy p) ctlib (pr_entry p))
            (submitSystem marshal (pr_request p) elapsed (pr_strategy p) (pr_entry p)) y \<and>
          strategy = st_strategy (sys_co y) \<and>
          (if sys_panicked y then submitted = Panic else st_control (sys_co y) = Returned submitted))"

inductive Handle ::
  "('r, 'pool, 'l) handlerLib \<Rightarrow> handlerEnv \<Rightarrow> (bytes list \<Rightarrow> go_error + bytes) \<Rightarrow> (nat \<Rightarrow> duration) \<Rightarrow> ctLib \<Rightarrow>
     Endpoint \<Rightarrow> SubmissionRequest \<Rightarrow> chainCache \<Rightarrow> handlerResult outcome \<Rightarrow> chainCache \<Rightarrow> bool"
  for lib env marshal elapsed ctlib apiEndpoint sr cache where
  answered: "handlePrepare lib env apiEndpoint sr cache = (Ok (Answered result), cache') \<Longrightarrow>
    Handle lib env marshal elapsed ctlib apiEndpoint sr cache (Ok result) cache'"
| failed: "handlePrepare lib env apiEndpoint sr cache = (Err e, cache') \<Longrightarrow>
    Handle lib env marshal elapsed ctlib apiEndpoint sr cache (Err e) cache'"
| panicked: "handlePrepare lib env apiEndpoint sr cache = (Panic, cache') \<Longrightarrow>
    Handle lib env marshal elapsed ctlib apiEndpoint sr cache Panic cache'"
| submitted: "handlePrepare lib env apiEndpoint sr cache = (Ok (Prepared p), cache') \<Longrightarrow>
    submissionEnds marshal elapsed ctlib p submitted strategy \<Longrightarrow>
    Handle lib env marshal elapsed ctlib apiEndpoint sr cache (handleFinish lib env p submitted strategy) cache'"

inductive_cases HandleE: "Handle lib env marshal elapsed ctlib apiEndpoint sr cache result cache'"

section \<open>What submit is called with\<close>

lemma discoverIfAsked_cases:
  assumes "discoverIfAsked lib ll sr = Ok sr'"
  obtains chain where "sr' = sr\<lparr>sr_Chain := chain\<rparr>" "chain = sr_Chain sr \<or> (\<exists>c. DiscoverChain lib (sr_Chain sr) ll = Ok (Some c) \<and> chain = c)"
proof (cases "sr' = sr")
  case True
  then show ?thesis using that [of "sr_Chain sr"] by simp
next
  case False
  then show ?thesis using assms that by (auto simp: discoverIfAsked_def split: if_splits outcome.splits option.splits)
qed

lemma handlePrepare_Prepared:
  assumes "handlePrepare lib env apiEndpoint sr cache = (Ok (Prepared p), cache')"
  obtains cert entryType entryData detoxed sr1 ll chain logs issuer where
    "sr_Chain sr \<noteq> []" "hl_parse lib (sr_Chain sr ! 0) = Inr cert"
    "entryFor lib apiEndpoint cert = Inr (entryType, entryData, detoxed)"
    "determineSubmissionRequirements (hl_oidBIMI lib) cert sr = (sr1, ll)"
    "pr_request p = sr1\<lparr>sr_Chain := chain\<rparr>"
    "determineCompatibleLogs (hl_compat lib) (he_now env) cert (pr_request p) (hl_baseList lib ll) cache = (Inr logs, cache')"
    "pr_strategy p = devizeSubmissionStrategy (he_strategyEnv env) (he_submitter env) (he_monitor env) logs entryType"
    "issuerSPKI lib cert (pr_request p) = Inr issuer"
    "pr_entry p = \<lparr>se_sha256IssuerSPKI = issuer, se_entryType = entryType, se_entryData = entryData\<rparr>"
    "pr_detoxed p = detoxed"
proof -
  have c: "sr_Chain sr \<noteq> []" using assms by (auto simp: handlePrepare_def split: if_splits)
  obtain cert where cert: "hl_parse lib (sr_Chain sr ! 0) = Inr cert"
    using assms c by (auto simp: handlePrepare_def split: sum.splits)
  obtain entryType entryData detoxed where e: "entryFor lib apiEndpoint cert = Inr (entryType, entryData, detoxed)"
    using assms c cert by (cases "entryFor lib apiEndpoint cert") (auto simp: handlePrepare_def)
  obtain sr1 ll where r: "determineSubmissionRequirements (hl_oidBIMI lib) cert sr = (sr1, ll)" by fastforce
  obtain sr2 where d: "discoverIfAsked (hl_discovery lib) ll sr1 = Ok sr2"
    using assms c cert e r by (cases "discoverIfAsked (hl_discovery lib) ll sr1") (auto simp: handlePrepare_def)
  obtain chain where chain: "sr2 = sr1\<lparr>sr_Chain := chain\<rparr>" using discoverIfAsked_cases [OF d] by metis
  obtain logs c2 where l: "determineCompatibleLogs (hl_compat lib) (he_now env) cert sr2 (hl_baseList lib ll) cache = (Inr logs, c2)"
    using assms c cert e r d
    by (cases "determineCompatibleLogs (hl_compat lib) (he_now env) cert sr2 (hl_baseList lib ll) cache")
      (auto simp: handlePrepare_def split: sum.splits)
  obtain issuer where i: "issuerSPKI lib cert sr2 = Inr issuer"
    using assms c cert e r d l by (cases "issuerSPKI lib cert sr2") (auto simp: handlePrepare_def Let_def)
  have p: "c2 = cache' \<and> p = \<lparr>pr_request = sr2, pr_strategy = devizeSubmissionStrategy (he_strategyEnv env) (he_submitter env)
      (he_monitor env) logs entryType, pr_entry = \<lparr>se_sha256IssuerSPKI = issuer, se_entryType = entryType, se_entryData = entryData\<rparr>,
      pr_detoxed = detoxed\<rparr>"
    using assms c cert e r d l i by (simp add: handlePrepare_def Let_def)
  show ?thesis
    by (rule that [OF c cert e r, of chain logs issuer]) (use chain l i p in simp_all)
qed

text \<open>submit always gets a fresh strategy and, unless the two log type wishes conflict, fulfillable requirements.\<close>

lemma prepared_ok:
  assumes "handlePrepare lib env apiEndpoint sr cache = (Ok (Prepared p), cache')"
    and "sort_function (sv_sort (he_strategyEnv env))"
  shows "freshStrategy (pr_strategy p)" and "\<not> staticConflict (pr_request p) \<Longrightarrow> requirementsOK (pr_request p)"
    and "se_entryType (pr_entry p) = PrecertLogEntryType \<Longrightarrow> pr_detoxed p \<noteq> None"
proof -
  obtain cert entryType entryData detoxed sr1 ll chain logs issuer where
    a: "entryFor lib apiEndpoint cert = Inr (entryType, entryData, detoxed)"
    "determineSubmissionRequirements (hl_oidBIMI lib) cert sr = (sr1, ll)" "pr_request p = sr1\<lparr>sr_Chain := chain\<rparr>"
    "pr_strategy p = devizeSubmissionStrategy (he_strategyEnv env) (he_submitter env) (he_monitor env) logs entryType"
    "pr_entry p = \<lparr>se_sha256IssuerSPKI = issuer, se_entryType = entryType, se_entryData = entryData\<rparr>" "pr_detoxed p = detoxed"
    by (rule handlePrepare_Prepared [OF assms(1)]) blast
  show "freshStrategy (pr_strategy p)" using devize_fresh [OF assms(2)] a(4) by simp
  show "requirementsOK (pr_request p)" if "\<not> staticConflict (pr_request p)"
    using determined_requirementsOK(6) [OF a(2)] that a(3) by (simp add: requirementsOK_def staticConflict_def)
  show "pr_detoxed p \<noteq> None" if "se_entryType (pr_entry p) = PrecertLogEntryType"
  proof -
    have "detoxed \<noteq> None" using a(1,5) that by (auto simp: entryFor_def split: if_splits sum.splits)
    then show ?thesis using a(6) by simp
  qed
qed

section \<open>What comes back\<close>

lemma appendMimics_ok:
  "appendMimics lib mimics responses = (responses', None) \<Longrightarrow>
     \<exists>more. responses' = responses @ more \<and> length more = length mimics"
proof (induction lib mimics responses rule: appendMimics.induct)
  case (1 lib responses)
  then show ?case by simp
next
  case (2 lib m ms responses)
  then obtain sig where "hl_marshalSignature lib (sct_Signature m) = Inr sig" by (auto split: sum.splits)
  with 2 show ?case by fastforce
qed

lemma GenerateMimicSCTs_two: "GenerateMimicSCTs lib t tbs h = Inr mimics \<Longrightarrow> length mimics = 2"
  by (auto simp: GenerateMimicSCTs_def split: sum.splits)

definition withMimics :: "'r prepared \<Rightarrow> bool" where
  "withMimics p \<longleftrightarrow> sr_Mimics (pr_request p) \<and> se_sha256IssuerSPKI (pr_entry p) \<noteq> None"

lemma addMimics_ok:
  assumes "addMimics lib env p responses scts = ((responses', None), scts')"
  shows "\<exists>more mimics. responses' = responses @ more \<and> scts' = scts @ mimics \<and> length more = length mimics \<and>
    length mimics = (if withMimics p then 2 else 0)"
proof (cases "withMimics p")
  case False
  then show ?thesis using assms by (auto simp: addMimics_def withMimics_def split: if_splits)
next
  case True
  then obtain h where h: "se_sha256IssuerSPKI (pr_entry p) = Some h" "sr_Mimics (pr_request p)" by (auto simp: withMimics_def)
  obtain mimics where m: "GenerateMimicSCTs (hl_mimic lib) (he_mimicTimestamp env) (se_entryData (pr_entry p)) h = Inr mimics"
    using assms h by (auto simp: addMimics_def split: sum.splits)
  then have "appendMimics lib mimics responses = (responses', None)" "scts' = scts @ mimics"
    using assms h by (simp_all add: addMimics_def)
  then show ?thesis using appendMimics_ok GenerateMimicSCTs_two [OF m] True by fastforce
qed

lemma embedSCTs_frame:
  assumes "embedSCTs lib cfg p sctListBytes resp = Ok (Some resp', e)"
  shows "resp_LogResponse resp' = resp_LogResponse resp" and "resp_Strategy resp' = resp_Strategy resp"
  using assms by (auto simp: embedSCTs_def Let_def split: if_splits option.splits sum.splits outcome.splits)

lemma embedSCTs_some: "embedSCTs lib cfg p sctListBytes resp \<noteq> Ok (None, e)"
  by (auto simp: embedSCTs_def Let_def split: option.split sum.split outcome.split)

text \<open>A request is answered without an error only by a successful submission.\<close>

lemma handleFinish_ok:
  assumes "handleFinish lib env p submitted strategy = Ok (r, None)"
  obtains responses scts more mimics resp sctListBytes where "submitted = Ok (responses, scts)" "r = Some resp"
    "length more = length mimics" "length mimics = (if withMimics p then 2 else 0)"
    "MarshalSCTList (hl_marshalSCTs lib) (hl_tlsMarshal lib) (scts @ mimics) = Inr sctListBytes"
    "resp_LogResponse resp = (if response_IncludeLogResponses (sb_cfg (he_submitter env)) then responses @ more else [])"
    "resp_Strategy resp = (if sr_Verbose (pr_request p) then strategy else [])"
proof -
  let ?cfg = "sb_cfg (he_submitter env)" and ?resp = "startResponse (pr_request p) strategy"
  obtain responses scts where s: "submitted = Ok (responses, scts)"
    using assms by (cases submitted) (auto simp: handleFinish_def Let_def)
  obtain responses' e scts' where m0: "addMimics lib env p responses scts = ((responses', e), scts')" by (metis surj_pair)
  have "e = None" using assms s m0 by (cases e) (auto simp: handleFinish_def Let_def)
  then have m: "addMimics lib env p responses scts = ((responses', None), scts')" using m0 by simp
  let ?resp1 = "?resp\<lparr>resp_LogResponse := responses'\<rparr>"
  obtain bs where b: "MarshalSCTList (hl_marshalSCTs lib) (hl_tlsMarshal lib) scts' = Inr bs"
    using assms s m by (cases "MarshalSCTList (hl_marshalSCTs lib) (hl_tlsMarshal lib) scts'") (auto simp: handleFinish_def Let_def)
  let ?embed = "if se_entryType (pr_entry p) = PrecertLogEntryType then embedSCTs lib ?cfg p bs ?resp1 else Ok (Some ?resp1, None)"
  have fin: "(case ?embed of
      Ok (Some resp2, None) \<Rightarrow> Ok (Some (if response_IncludeLogResponses ?cfg then resp2 else resp2\<lparr>resp_LogResponse := []\<rparr>), None)
    | other \<Rightarrow> other) = Ok (r, None)"
    using assms s m b by (simp add: handleFinish_def Let_def)
  then obtain resp2 where r2: "?embed = Ok (Some resp2, None)"
    using embedSCTs_some by (fastforce split: outcome.splits prod.splits option.splits if_splits)
  have frame: "resp_LogResponse resp2 = responses' \<and> resp_Strategy resp2 = resp_Strategy ?resp"
  proof (cases "se_entryType (pr_entry p) = PrecertLogEntryType")
    case True
    then show ?thesis using embedSCTs_frame r2 by fastforce
  next
    case False
    then show ?thesis using r2 by auto
  qed
  obtain more mimics where mm: "responses' = responses @ more" "scts' = scts @ mimics" "length more = length mimics"
    "length mimics = (if withMimics p then 2 else 0)" using addMimics_ok [OF m] by blast
  show ?thesis
    by (rule that [OF s, of "if response_IncludeLogResponses ?cfg then resp2 else resp2\<lparr>resp_LogResponse := []\<rparr>" more mimics bs])
      (use fin r2 frame mm b in \<open>auto simp: startResponse_def emptyResponse_def split: if_splits\<close>)
qed

lemma discoverIfAsked_Ok: "sr_Chain sr \<noteq> [] \<Longrightarrow> \<exists>sr'. discoverIfAsked lib ll sr = Ok sr'"
  by (auto simp: discoverIfAsked_def DiscoverChain_def Let_def split: option.split)

text \<open>Before the submission, a request is either answered with an error or prepared.\<close>

lemma handlePrepare_cases:
  obtains (answered) r e c where "handlePrepare lib env apiEndpoint sr cache = (Ok (Answered (r, Some e)), c)"
  | (prepared) p c where "handlePrepare lib env apiEndpoint sr cache = (Ok (Prepared p), c)"
proof (cases "sr_Chain sr = []")
  case True
  then show ?thesis using answered by (simp add: handlePrepare_def)
next
  case chain: False
  show ?thesis
  proof (cases "hl_parse lib (sr_Chain sr ! 0)")
    case Inl
    then show ?thesis using answered chain by (simp add: handlePrepare_def)
  next
    case cert: (Inr cert)
    show ?thesis
    proof (cases "entryFor lib apiEndpoint cert")
      case Inl
      then show ?thesis using answered chain cert by (simp add: handlePrepare_def)
    next
      case (Inr entry)
      obtain entryType entryData detoxed where entry: "entryFor lib apiEndpoint cert = Inr (entryType, entryData, detoxed)"
        using Inr by (cases entry) auto
      obtain sr1 ll where req: "determineSubmissionRequirements (hl_oidBIMI lib) cert sr = (sr1, ll)" by fastforce
      have "sr_Chain sr1 \<noteq> []" using determined_requirementsOK(7) [OF req] chain by simp
      then obtain sr2 where disc: "discoverIfAsked (hl_discovery lib) ll sr1 = Ok sr2" using discoverIfAsked_Ok by blast
      obtain found c2 where comp: "determineCompatibleLogs (hl_compat lib) (he_now env) cert sr2 (hl_baseList lib ll) cache = (found, c2)"
        by fastforce
      note eqs = chain cert entry req disc comp
      show ?thesis
      proof (cases found)
        case Inl
        then show ?thesis using answered eqs by (simp add: handlePrepare_def)
      next
        case (Inr logs)
        then show ?thesis using answered prepared eqs
          by (cases "issuerSPKI lib cert sr2") (simp_all add: handlePrepare_def Let_def)
      qed
    qed
  qed
qed

lemma handlePrepare_Answered: "handlePrepare lib env apiEndpoint sr cache = (Ok (Answered (r, e)), c) \<Longrightarrow> e \<noteq> None"
  by (rule handlePrepare_cases [of lib env apiEndpoint sr cache]) auto

lemma handlePrepare_Ok:
  "handlePrepare lib env apiEndpoint sr cache \<noteq> (Panic, c)" "handlePrepare lib env apiEndpoint sr cache \<noteq> (Err e, c)"
  by (rule handlePrepare_cases [of lib env apiEndpoint sr cache]; auto)+

lemma Handle_cache:
  "Handle lib env marshal elapsed ctlib apiEndpoint sr cache result cache' \<Longrightarrow> cache' = snd (handlePrepare lib env apiEndpoint sr cache)"
  by (cases rule: Handle.cases) auto

lemma startResponse_strategy [simp]: "resp_Strategy (startResponse sr strategy) = (if sr_Verbose sr then strategy else [])"
  by (simp add: startResponse_def emptyResponse_def)

lemma handleFinish_some:
  assumes "handleFinish lib env p submitted strategy = Ok (r, e)"
  shows "\<exists>resp. r = Some resp \<and> resp_Strategy resp = (if sr_Verbose (pr_request p) then strategy else [])"
proof (cases submitted)
  case (Ok out)
  obtain responses scts where s: "submitted = Ok (responses, scts)" using Ok by (cases out) auto
  obtain responses' e' scts' where m: "addMimics lib env p responses scts = ((responses', e'), scts')" by (metis surj_pair)
  let ?resp1 = "(startResponse (pr_request p) strategy)\<lparr>resp_LogResponse := responses'\<rparr>"
  show ?thesis
  proof (cases "e' \<noteq> None \<or> (\<exists>x. MarshalSCTList (hl_marshalSCTs lib) (hl_tlsMarshal lib) scts' = Inl x)")
    case True
    then show ?thesis using assms s m by (cases e') (auto simp: handleFinish_def Let_def)
  next
    case False
    then obtain bs where ok: "e' = None" "MarshalSCTList (hl_marshalSCTs lib) (hl_tlsMarshal lib) scts' = Inr bs"
      by (cases "MarshalSCTList (hl_marshalSCTs lib) (hl_tlsMarshal lib) scts'") auto
    let ?cfg = "sb_cfg (he_submitter env)"
    let ?embed = "if se_entryType (pr_entry p) = PrecertLogEntryType then embedSCTs lib ?cfg p bs ?resp1 else Ok (Some ?resp1, None)"
    have fin: "(case ?embed of
        Ok (Some resp2, None) \<Rightarrow> Ok (Some (if response_IncludeLogResponses ?cfg then resp2 else resp2\<lparr>resp_LogResponse := []\<rparr>), None)
      | other \<Rightarrow> other) = Ok (r, e)"
      using assms s m ok by (simp add: handleFinish_def Let_def)
    then obtain r2 e2 where r2: "?embed = Ok (r2, e2)" by (cases ?embed) auto
    then obtain resp2 where "r2 = Some resp2" by (cases r2) (auto simp: embedSCTs_some split: if_splits)
    moreover from this have "resp_Strategy resp2 = resp_Strategy ?resp1"
      using r2 embedSCTs_frame(2) by (fastforce split: if_splits)
    ultimately show ?thesis using fin r2 by (cases e2) auto
  qed
qed (use assms in \<open>auto simp: handleFinish_def Let_def\<close>)

text \<open>Once submit has returned, the process only stops for a linter result that is too short.\<close>

lemma handleFinish_panic:
  assumes "handleFinish lib env p submitted strategy = Panic" and "submitted \<noteq> Panic"
    and "se_entryType (pr_entry p) = PrecertLogEntryType \<Longrightarrow> pr_detoxed p \<noteq> None"
  shows "\<exists>tbs cert result. hl_makeDummy lib tbs = Inr cert \<and>
    result \<in> set (hl_checkCertificate lib cert (se_sha256IssuerSPKI (pr_entry p))) \<and> length result < 3"
proof -
  obtain responses scts where s: "submitted = Ok (responses, scts)"
    using assms(1,2) by (cases submitted) (auto simp: handleFinish_def Let_def)
  obtain responses' e' scts' where m: "addMimics lib env p responses scts = ((responses', e'), scts')" by (metis surj_pair)
  have e': "e' = None" using assms(1) s m by (cases e') (auto simp: handleFinish_def Let_def)
  let ?resp1 = "(startResponse (pr_request p) strategy)\<lparr>resp_LogResponse := responses'\<rparr>" and ?cfg = "sb_cfg (he_submitter env)"
  obtain bs where bs: "MarshalSCTList (hl_marshalSCTs lib) (hl_tlsMarshal lib) scts' = Inr bs"
    using assms(1) s m e' by (cases "MarshalSCTList (hl_marshalSCTs lib) (hl_tlsMarshal lib) scts'") (auto simp: handleFinish_def Let_def)
  have "se_entryType (pr_entry p) = PrecertLogEntryType \<and> embedSCTs lib ?cfg p bs ?resp1 = Panic"
    using assms(1) s m e' bs
    by (auto simp: handleFinish_def Let_def split: if_splits outcome.splits prod.splits option.splits)
  then obtain detoxed tbs where t: "pr_detoxed p = Some detoxed"
    "runCTLint (hl_makeDummy lib) (hl_checkCertificate lib) tbs (se_sha256IssuerSPKI (pr_entry p)) (sr_TestLogs (pr_request p)) = Panic"
    using assms(3) by (auto simp: embedSCTs_def Let_def split: if_splits sum.splits outcome.splits)
  then obtain cert where c: "hl_makeDummy lib tbs = Inr cert"
    "lintResults (sr_TestLogs (pr_request p)) (hl_checkCertificate lib cert (se_sha256IssuerSPKI (pr_entry p))) = Panic"
    by (auto simp: runCTLint_def split: sum.splits)
  have "\<not> list_all (\<lambda>r. 3 \<le> length r) (hl_checkCertificate lib cert (se_sha256IssuerSPKI (pr_entry p)))"
    using c(2) lintResults_filter by fastforce
  then show ?thesis using c(1) by (auto simp: list_all_iff not_le)
qed

end
