(* ===== verification/Web.thy ===== *)
theory Web
  imports Health Handler
begin

text \<open>
  The two HTTP servers: the server package (server.go, livez.go, readyz.go, metrics.go, pprof.go,
  buildInfo.go, configInfo.go) and the request package. A request and a response carry what the code reads and writes of fasthttp's; a response
  body is the list of parts written to it, where pages of the templates and embedded files are named
  and carry their arguments. The request log is part of the handlers; metrics are left out.
\<close>

section \<open>Requests and responses\<close>

record DashboardLog =
  db_OperatorName :: string
  db_LogDescription :: string
  db_MonitoringURL :: string
  db_SubmissionURL :: string
  db_LogType :: string
  db_MMD :: int

datatype bodyPart =
    Text string
  | Page string
  | APIPage string string string
  | DashboardPage string "DashboardLog list"
  | LogListJSON logList
  | HTMLError string
  | HTMLResponse "SubmissionResponse option"
  | ResponseJSON bool "SubmissionResponse option"
  | ProblemJSON int string "StrategyMember list option"

text \<open>The response of a request context, and its user values.\<close>

record fhResponse =
  rs_Status :: int
  rs_ContentType :: string
  rs_CORS :: bool
  rs_Body :: "bodyPart list"
  rs_UserValues :: userValues

text \<open>A new response has status 200; NotFound resets it, but not the user values.\<close>

definition newResponse :: fhResponse where
  "newResponse = \<lparr>rs_Status = 200, rs_ContentType = [], rs_CORS = False, rs_Body = [], rs_UserValues = Map.empty\<rparr>"

definition NotFound :: "fhResponse \<Rightarrow> fhResponse" where
  "NotFound rs = newResponse\<lparr>rs_Status := 404, rs_Body := [Text ''404 Page not found''], rs_UserValues := rs_UserValues rs\<rparr>"

definition setUserValue :: "string \<Rightarrow> userValue \<Rightarrow> fhResponse \<Rightarrow> fhResponse" where
  "setUserValue k v rs = rs\<lparr>rs_UserValues := SetUserValue k v (rs_UserValues rs)\<rparr>"

definition setDetails :: "zapLevel \<Rightarrow> string \<Rightarrow> go_error option \<Rightarrow> fhResponse \<Rightarrow> fhResponse" where
  "setDetails level msg err rs = rs\<lparr>rs_UserValues := SetDetails level msg err None (rs_UserValues rs)\<rparr>"

text \<open>
  What the servers use of libraries: encoding and decoding of JSON (encoding returns an error or
  none), the settings and the build information as text, and the length of a body.
\<close>

record webLib =
  wb_unmarshal :: "SubmissionRequest \<Rightarrow> bytes \<Rightarrow> go_error + SubmissionRequest"
  wb_encode :: "SubmissionResponse option \<Rightarrow> go_error option"
  wb_marshalIndent :: "logList \<Rightarrow> go_error option"
  wb_marshalConfig :: "Settings \<Rightarrow> go_error + string"
  wb_buildInfo :: "string option"
  wb_ApplicationName :: string
  wb_bodySize :: "bodyPart list \<Rightarrow> int"

definition peek :: "(string \<times> string) list \<Rightarrow> string \<Rightarrow> string" where
  "peek args name = (case map_of args name of None \<Rightarrow> [] | Some v \<Rightarrow> v)"

definition paramB :: "fhRequest \<Rightarrow> string \<Rightarrow> string" where
  "paramB rq name =
     (if peek (rq_PostArgs rq) name \<noteq> [] then peek (rq_PostArgs rq) name
      else if peek (rq_QueryArgs rq) name \<noteq> [] then peek (rq_QueryArgs rq) name
      else case rq_MultipartForm rq of
        Inl e \<Rightarrow> []
      | Inr form \<Rightarrow> (case map_of form name of Some (v # vs) \<Rightarrow> v | _ \<Rightarrow> []))"

section \<open>Submissions (request/post.go)\<close>

definition getResponseFormat :: "fhRequest \<Rightarrow> ResponseFormat" where
  "getResponseFormat rq =
     (if paramB rq ''format'' \<noteq> [] then ParseResponseFormat (paramB rq ''format'')
      else if rq_Accept rq = ''text/html'' then RESPONSEFORMAT_HTML
      else if rq_Accept rq = ''application/json'' then RESPONSEFORMAT_JSON
      else DefaultResponseFormat)"

definition hasStrategy :: "SubmissionResponse option \<Rightarrow> bool" where
  "hasStrategy response = (case response of None \<Rightarrow> False | Some r \<Rightarrow> 0 < length (resp_Strategy r))"

definition sendJSONProblem :: "int \<Rightarrow> SubmissionResponse option \<Rightarrow> go_error \<Rightarrow> fhResponse \<Rightarrow> int \<times> fhResponse" where
  "sendJSONProblem status response err rs =
     (status, rs\<lparr>rs_ContentType := ''application/problem+json'',
        rs_Body := [ProblemJSON status (errorString err)
          (if hasStrategy response then map_option resp_Strategy response else None)]\<rparr>)"

definition sendJSONResponse :: "webLib \<Rightarrow> Settings \<Rightarrow> SubmissionResponse option \<Rightarrow> fhResponse \<Rightarrow> int \<times> fhResponse" where
  "sendJSONResponse lib cfg response rs =
     (let rs1 = rs\<lparr>rs_ContentType := ''application/json; charset=UTF-8''\<rparr> in
      (200,
       case wb_encode lib response of
         Some e \<Rightarrow> setDetails ErrorLevel ''Failed to encode JSON'' None rs1
       | None \<Rightarrow> rs1\<lparr>rs_Body := rs_Body rs @ [ResponseJSON (response_JsonPrettyPrint cfg) response]\<rparr>))"

definition sendHTMLResponse :: "SubmissionResponse option \<Rightarrow> go_error option \<Rightarrow> fhResponse \<Rightarrow> int \<times> fhResponse" where
  "sendHTMLResponse response err rs =
     (let rs1 = rs\<lparr>rs_ContentType := ''text/html; charset=UTF-8''\<rparr> in
      case err of
        Some e \<Rightarrow>
          (400, rs1\<lparr>rs_Body := rs_Body rs @ [HTMLError (errorString e)] @
             (if hasStrategy response then [HTMLResponse response] else [])\<rparr>)
      | None \<Rightarrow> (200, rs1\<lparr>rs_Body := rs_Body rs @ [HTMLResponse response]\<rparr>))"

definition sendResponse ::
  "webLib \<Rightarrow> Settings \<Rightarrow> ResponseFormat \<Rightarrow> SubmissionResponse option \<Rightarrow> go_error option \<Rightarrow> fhResponse \<Rightarrow> int \<times> fhResponse" where
  "sendResponse lib cfg responseFormat response err rs =
     (case responseFormat of
        RESPONSEFORMAT_HTML \<Rightarrow> sendHTMLResponse response err rs
      | RESPONSEFORMAT_JSON \<Rightarrow>
          (case err of
             None \<Rightarrow> sendJSONResponse lib cfg response rs
           | Some e \<Rightarrow> sendJSONProblem 400 response e rs)
      | RESPONSEFORMAT_INVALID \<Rightarrow> (400, rs))"

text \<open>
  The request's deadline is looked at twice: after Handle, and by the function that POST defers.
  The clock decides both; once the deadline has passed it stays passed.
\<close>

record deadlineChecks =
  dc_afterHandle :: bool
  dc_atReturn :: bool

definition checksOK :: "deadlineChecks \<Rightarrow> bool" where
  "checksOK dc \<longleftrightarrow> (dc_afterHandle dc \<longrightarrow> dc_atReturn dc)"

definition deferredStatus :: "deadlineChecks \<Rightarrow> int \<Rightarrow> go_error option \<Rightarrow> fhResponse \<Rightarrow> fhResponse" where
  "deferredStatus dc status err rs =
     (let rs1 = setDetails InfoLevel ''Submission Request'' err rs in
      if dc_atReturn dc then rs1 else rs1\<lparr>rs_Status := status\<rparr>)"

text \<open>
  POST; the outcome of Handle is an argument. It returns a status, -1 for a request that has timed
  out.
\<close>

definition invalidFormat :: "fhRequest \<Rightarrow> go_error" where
  "invalidFormat rq =
     Errorf (''invalid value for query parameter 'format': '' @ [CHR 0x27] @ paramB rq ''format'' @ [CHR 0x27] @
       ''; supported: html, json'')"

definition emptyBody :: go_error where
  "emptyBody = Errorf (''request body is empty; expected JSON object with required field 'chain'' @ [CHR 0x27])"

definition POST ::
  "webLib \<Rightarrow> Settings \<Rightarrow> deadlineChecks \<Rightarrow> (Endpoint \<Rightarrow> SubmissionRequest \<Rightarrow> handlerResult outcome) \<Rightarrow> fhRequest \<Rightarrow> string \<Rightarrow>
     Health \<Rightarrow> fhResponse \<Rightarrow> (int \<times> Health \<times> fhResponse) outcome" where
  "POST lib cfg dc handled rq path h rs =
     (case CheckPOSTEndpoint path of
        None \<Rightarrow> Ok (404, h, (setDetails InfoLevel ''Invalid endpoint'' None rs)\<lparr>rs_Status := 404\<rparr>)
      | Some apiEndpoint \<Rightarrow>
          let responseFormat = getResponseFormat rq in
          if responseFormat = RESPONSEFORMAT_INVALID then
            (case sendJSONProblem 400 None (invalidFormat rq) rs of
               (status, rs1) \<Rightarrow> Ok (status, h, deferredStatus dc status (Some (invalidFormat rq)) rs1))
          else if rq_Body rq = [] then
            (case sendResponse lib cfg responseFormat None (Some emptyBody) rs of
               (status, rs1) \<Rightarrow> Ok (status, h, deferredStatus dc status (Some emptyBody) rs1))
          else
            (case (case wb_unmarshal lib NewSubmissionRequest (rq_Body rq) of
                     Inl e \<Rightarrow> Ok (None, Some e)
                   | Inr submissionRequest \<Rightarrow> handled apiEndpoint submissionRequest) of
               Panic \<Rightarrow> Panic
             | Err e \<Rightarrow> Err e
             | Ok (response, err) \<Rightarrow>
                 if dc_afterHandle dc then
                   Ok (-1, UpdateLatestTimestamps None None (Some (rq_Time rq + server_RequestTimeout cfg)) h,
                       deferredStatus dc (if err = None then 200 else 400) err rs)
                 else
                   (case sendResponse lib cfg responseFormat response err (rs\<lparr>rs_CORS := True\<rparr>) of
                      (status, rs1) \<Rightarrow> Ok (status, h, deferredStatus dc status err rs1))))"

section \<open>Pages (request/dashboard.go, logList.go, apiwebpage.go)\<close>

record webLists =
  wl_UsableTLSLogs :: logList
  wl_ActiveTLSLogs :: logList
  wl_TestTLSLogs :: logList
  wl_UsableBIMILogs :: logList

definition dashboardList :: "webLists \<Rightarrow> string \<Rightarrow> (logList \<times> string) option" where
  "dashboardList wl param =
     (if param = ''usabletls'' \<or> param = [] then Some (wl_UsableTLSLogs wl, ''Usable TLS Log'')
      else if param = ''activetls'' then Some (wl_ActiveTLSLogs wl, ''Active TLS Log'')
      else if param = ''testtls'' then Some (wl_TestTLSLogs wl, ''Test TLS Log'')
      else if param = ''usablebimi'' then Some (wl_UsableBIMILogs wl, ''Usable BIMI Log'')
      else None)"

definition dashboardLogs :: "logList \<Rightarrow> DashboardLog list" where
  "dashboardLogs ops =
     concat (map (\<lambda>op.
       map (\<lambda>l. \<lparr>db_OperatorName = op_Name op, db_LogDescription = log_Description l, db_MonitoringURL = log_URL l,
                db_SubmissionURL = log_URL l, db_LogType = ''RFC6962'', db_MMD = log_MMD l\<rparr>) (op_Logs op) @
       map (\<lambda>tl. \<lparr>db_OperatorName = op_Name op, db_LogDescription = tl_Description tl, db_MonitoringURL = tl_MonitoringURL tl,
                db_SubmissionURL = tl_SubmissionURL tl, db_LogType = ''Static CT'', db_MMD = tl_MMD tl\<rparr>) (op_TiledLogs op)) ops)"

definition Dashboard :: "webLists \<Rightarrow> fhRequest \<Rightarrow> fhResponse \<Rightarrow> fhResponse" where
  "Dashboard wl rq rs =
     (case dashboardList wl (paramB rq ''loglist'') of
        None \<Rightarrow> setDetails InfoLevel ''Invalid loglist query parameter'' None (NotFound rs)
      | Some (ops, name) \<Rightarrow>
          (setDetails InfoLevel ''Dashboard'' None rs)\<lparr>rs_ContentType := ''text/html'', rs_Status := 200, rs_Body := rs_Body rs @ [DashboardPage name (dashboardLogs ops)]\<rparr>)"

definition LogList :: "webLib \<Rightarrow> logList \<Rightarrow> string \<Rightarrow> fhResponse \<Rightarrow> fhResponse" where
  "LogList lib ops logListDescription rs =
     (let rs1 = setDetails InfoLevel logListDescription None rs in
      case wb_marshalIndent lib ops of
        Some e \<Rightarrow> (setDetails ErrorLevel ''Failed to marshal log list'' (Some e) rs1)\<lparr>rs_Status := 500\<rparr>
      | None \<Rightarrow> rs1\<lparr>rs_Body := [LogListJSON ops], rs_ContentType := ''application/json'', rs_Status := 200\<rparr>)"

definition APIWebpage :: "string \<Rightarrow> fhResponse \<Rightarrow> fhResponse" where
  "APIWebpage endpointPath rs =
     (let (inputType, firstItem) =
        (if endpointPath = ''add-chain'' then (''Certificate'', ''leaf'')
         else if endpointPath = ''add-pre-chain'' then (''Precertificate'', ''precertificate'')
         else ([], []))
      in (setDetails InfoLevel (endpointPath @ '' webpage'') None rs)\<lparr>rs_ContentType := ''text/html'', rs_Status := 200,
           rs_Body := rs_Body rs @ [APIPage endpointPath inputType firstItem]\<rparr>)"

definition FrontPage :: "fhResponse \<Rightarrow> fhResponse" where
  "FrontPage rs =
     (setDetails InfoLevel ''Front page'' None rs)\<lparr>rs_ContentType := ''text/html'', rs_Status := 200,
       rs_Body := rs_Body rs @ [Page ''front page'']\<rparr>"

definition CSS :: "fhResponse \<Rightarrow> fhResponse" where
  "CSS rs = (setDetails InfoLevel ''CSS'' None rs)\<lparr>rs_Body := [Page ''ctsubmit.css''], rs_ContentType := ''text/css'', rs_Status := 200\<rparr>"

definition favicon :: "fhRequest \<Rightarrow> fhResponse \<Rightarrow> fhResponse" where
  "favicon rq rs =
     (let rs0 = setUserValue ''msg'' (UVString ''Favicon download'') (setUserValue ''level'' (UVLevel InfoLevel) rs);
          rs1 = rs0\<lparr>rs_Status := 200, rs_ContentType := ''image/x-icon''\<rparr> in
      if rq_Method rq \<noteq> ''HEAD'' then rs1\<lparr>rs_Body := [Page ''favicon.ico'']\<rparr> else rs1)"

definition mascot :: "fhRequest \<Rightarrow> fhResponse \<Rightarrow> fhResponse" where
  "mascot rq rs =
     (let rs0 = setUserValue ''msg'' (UVString ''Mascot download'') (setUserValue ''level'' (UVLevel InfoLevel) rs);
          rs1 = rs0\<lparr>rs_Status := 200, rs_ContentType := ''image/png''\<rparr> in
      if rq_Method rq \<noteq> ''HEAD'' then rs1\<lparr>rs_Body := [Page ''mascot.png'']\<rparr> else rs1)"

section \<open>The web server (server/server.go)\<close>

text \<open>The page of a GET request; the path is in lower case and without its first slash.\<close>

definition webPage :: "webLib \<Rightarrow> webLists \<Rightarrow> fhRequest \<Rightarrow> string \<Rightarrow> fhResponse \<Rightarrow> fhResponse" where
  "webPage lib wl rq endpointPath rs =
     (if endpointPath = ''ctsubmit.css'' then CSS rs
      else if endpointPath = ''dashboard'' then Dashboard wl rq rs
      else if endpointPath = ''favicon.ico'' then favicon rq rs
      else if endpointPath = [] then FrontPage rs
      else if endpointPath = ''mascot.png'' then mascot rq rs
      else if endpointPath = ''usable_tls_logs.json'' then LogList lib (wl_UsableTLSLogs wl) ''Usable TLS Logs'' rs
      else if endpointPath = ''active_tls_logs.json'' then LogList lib (wl_ActiveTLSLogs wl) ''Active TLS Logs'' rs
      else if endpointPath = ''test_tls_logs.json'' then LogList lib (wl_TestTLSLogs wl) ''Test TLS Logs'' rs
      else if endpointPath = ''usable_bimi_logs.json'' then LogList lib (wl_UsableBIMILogs wl) ''Usable BIMI Logs'' rs
      else if endpointPath = ''add-chain'' \<or> endpointPath = ''add-pre-chain'' then APIWebpage endpointPath rs
      else setDetails InfoLevel ''Invalid endpoint'' None (NotFound rs))"

text \<open>The answer to a request, and then its entry in the log, which the handler writes last.\<close>

definition webResponse ::
  "webLib \<Rightarrow> webLists \<Rightarrow> Settings \<Rightarrow> deadlineChecks \<Rightarrow> (Endpoint \<Rightarrow> SubmissionRequest \<Rightarrow> handlerResult outcome) \<Rightarrow>
     fhRequest \<Rightarrow> Health \<Rightarrow> (Health \<times> fhResponse) outcome" where
  "webResponse lib wl cfg dc handled rq h =
     (if rq_Path rq = [] then Panic
      else
        let endpointPath = toLower (tl (rq_Path rq)) in
        if rq_Method rq = ''GET'' then Ok (h, webPage lib wl rq endpointPath newResponse)
        else if rq_Method rq = ''POST'' then
          (case POST lib cfg dc handled rq endpointPath h newResponse of
             Ok (status, h', rs) \<Rightarrow>
               Ok (h', if status = -1
                       then setDetails InfoLevel ''Request timeout'' None (rs\<lparr>rs_Status := 503, rs_ContentType := ''text/plain''\<rparr>)
                       else rs)
           | Err e \<Rightarrow> Err e
           | Panic \<Rightarrow> Panic)
        else Ok (h, setDetails InfoLevel ''Method not allowed'' None (newResponse\<lparr>rs_Status := 405\<rparr>)))"

definition logResponse :: "webLib \<Rightarrow> logContext \<Rightarrow> fhRequest \<Rightarrow> fhResponse \<Rightarrow> logEntry option outcome" where
  "logResponse lib lc rq rs = LogRequest lc rq (rs_Status rs) (wb_bodySize lib (rs_Body rs)) (rs_UserValues rs)"

definition webHandler ::
  "webLib \<Rightarrow> logContext \<Rightarrow> webLists \<Rightarrow> Settings \<Rightarrow> deadlineChecks \<Rightarrow>
     (Endpoint \<Rightarrow> SubmissionRequest \<Rightarrow> handlerResult outcome) \<Rightarrow> fhRequest \<Rightarrow> Health \<Rightarrow>
     (Health \<times> fhResponse \<times> logEntry option) outcome" where
  "webHandler lib lc wl cfg dc handled rq h =
     (case webResponse lib wl cfg dc handled rq h of
        Ok (h', rs) \<Rightarrow>
          (case logResponse lib lc rq rs of Ok entry \<Rightarrow> Ok (h', rs, entry) | Err e \<Rightarrow> Err e | Panic \<Rightarrow> Panic)
      | Err e \<Rightarrow> Err e
      | Panic \<Rightarrow> Panic)"

section \<open>The monitoring server (server/server.go, livez.go, readyz.go, metrics.go, pprof.go)\<close>

text \<open>
  A probe runs in a goroutine of its own, which writes to the response and to the user values. If the
  probe's deadline passes first, the handler writes its answer to the same context while that goroutine
  may still be writing: the writes of both, in any order, are what the context gets.
\<close>

datatype responseWrite = SetStatus int | SetContentType string | SetBody bodyPart | SetValue string userValue

fun applyWrite :: "responseWrite \<Rightarrow> fhResponse \<Rightarrow> fhResponse" where
  "applyWrite (SetStatus status) rs = rs\<lparr>rs_Status := status\<rparr>"
| "applyWrite (SetContentType ct) rs = rs\<lparr>rs_ContentType := ct\<rparr>"
| "applyWrite (SetBody body) rs = rs\<lparr>rs_Body := [body]\<rparr>"
| "applyWrite (SetValue k v) rs = setUserValue k v rs"

definition probeWrites :: "bool \<Rightarrow> zapField list \<Rightarrow> bool \<Rightarrow> responseWrite list" where
  "probeWrites isHead extra ok =
     [SetValue ''zap_fields'' (UVFields extra), SetContentType ''text/plain'', SetStatus (if ok then 200 else 503)] @
     (if isHead then [] else [SetBody (Text (if ok then ''OK'' else ''ERROR''))])"

definition timeoutWrites :: "bool \<Rightarrow> responseWrite list" where
  "timeoutWrites isHead =
     [SetStatus 503, SetContentType ''text/plain''] @ (if isHead then [] else [SetBody (Text ''ERROR'')]) @
     [SetValue ''level'' (UVLevel WarnLevel), SetValue ''msg'' (UVString ''Monitoring timeout'')]"

text \<open>
  The answer to a probe: None is a probe that finishes in time, Some the interleaved writes of one
  that does not, those before the log entry is written and those after it, which are the goroutine's.
  What the goroutine writes after the response has been copied is lost. The first response is what the
  log sees, the second what the client gets.
\<close>

definition answerProbe ::
  "string \<Rightarrow> responseWrite list \<Rightarrow> (responseWrite list \<times> responseWrite list) option \<Rightarrow> fhResponse \<Rightarrow> fhResponse \<times> fhResponse" where
  "answerProbe msg writes race rs =
     (let rs0 = setUserValue ''msg'' (UVString msg) (setUserValue ''level'' (UVLevel DebugLevel) rs) in
      case race of
        None \<Rightarrow> (fold applyWrite writes rs0, fold applyWrite writes rs0)
      | Some (logged, late) \<Rightarrow> (fold applyWrite logged rs0, fold applyWrite late (fold applyWrite logged rs0)))"

definition raceOK :: "bool \<Rightarrow> responseWrite list \<Rightarrow> (responseWrite list \<times> responseWrite list) option \<Rightarrow> bool" where
  "raceOK isHead writes race \<longleftrightarrow>
     (case race of
        None \<Rightarrow> True
      | Some (logged, late) \<Rightarrow>
          \<exists>k \<le> length writes. \<exists>j \<le> k. logged \<in> shuffles (timeoutWrites isHead) (take j writes) \<and> late = drop j (take k writes))"

definition livez :: "fhRequest \<Rightarrow> Health \<Rightarrow> responseWrite list" where
  "livez rq h = probeWrites (rq_Method rq = ''HEAD'') (IsAliveFields h) (IsAlive h)"

definition readyz :: "fhRequest \<Rightarrow> Settings \<Rightarrow> Health \<Rightarrow> time \<Rightarrow> responseWrite list" where
  "readyz rq cfg h now = probeWrites (rq_Method rq = ''HEAD'') (IsReadyFields h) (IsReady h cfg now)"

definition metrics :: "responseWrite list" where
  "metrics = [SetContentType ''text/plain'', SetStatus 200, SetBody (Page ''metrics'')]"

text \<open>pprof's handler behind its path prefix; the path is taken as it was sent.\<close>

definition profilingHandler :: "fhRequest \<Rightarrow> fhResponse \<Rightarrow> fhResponse option" where
  "profilingHandler rq rs =
     (if rq_Path rq = ''/debug/pprof'' then Some ((setUserValue ''level'' (UVLevel InfoLevel) rs)\<lparr>rs_Status := 301\<rparr>)
      else if prefix ''/debug/pprof/'' (rq_Path rq) then
        Some ((setUserValue ''msg'' (UVString ''Profiling'') (setUserValue ''level'' (UVLevel InfoLevel) rs))\<lparr>rs_Body := [Page (rq_Path rq)]\<rparr>)
      else None)"

text \<open>The two debug pages; a line break becomes a BR element.\<close>

definition breakLines :: "string \<Rightarrow> string" where
  "breakLines s = concat (map (\<lambda>c. if c = CHR 0x0A then ''<BR>'' else [c]) s)"

definition debugPage :: "webLib \<Rightarrow> string \<Rightarrow> string \<Rightarrow> bodyPart" where
  "debugPage lib title content =
     Text (''<HTML><HEAD><TITLE>'' @ wb_ApplicationName lib @ title @ ''</TITLE></HEAD><BODY>'' @ content @ ''</BODY></HTML>'')"

definition buildInfo :: "webLib \<Rightarrow> fhResponse \<Rightarrow> fhResponse" where
  "buildInfo lib rs =
     (let rs1 = setUserValue ''msg'' (UVString ''Build information'') (setUserValue ''level'' (UVLevel InfoLevel) rs);
          buildInfoString = (case wb_buildInfo lib of Some bi \<Rightarrow> breakLines bi | None \<Rightarrow> ''Build information unavailable'')
      in rs1\<lparr>rs_ContentType := ''text/html; charset=utf-8'', rs_Body := [debugPage lib '' Build Information'' buildInfoString]\<rparr>)"

definition configInfo :: "webLib \<Rightarrow> Settings \<Rightarrow> fhResponse \<Rightarrow> fhResponse" where
  "configInfo lib cfg rs =
     (let rs1 = setUserValue ''msg'' (UVString ''Configuration information'') (setUserValue ''level'' (UVLevel InfoLevel) rs);
          jsonString = (case wb_marshalConfig lib cfg of
             Inl e \<Rightarrow> ''Error obtaining configuration information: '' @ errorString e
           | Inr jmi \<Rightarrow> breakLines jmi)
      in rs1\<lparr>rs_ContentType := ''text/html; charset=utf-8'',
             rs_Body := [debugPage lib '' Configuration Information'' jsonString]\<rparr>)"

text \<open>The context when the log entry is written, and the one that the client gets.\<close>

definition monitoringResponse ::
  "webLib \<Rightarrow> webLists \<Rightarrow> Settings \<Rightarrow> (responseWrite list \<times> responseWrite list) option \<Rightarrow> time \<Rightarrow> fhRequest \<Rightarrow> Health \<Rightarrow>
     (fhResponse \<times> fhResponse) outcome" where
  "monitoringResponse lib wl cfg race now rq h =
     (if rq_Path rq = [] then Panic
      else
        let path = toLower (tl (rq_Path rq));
            same = (\<lambda>rs. (rs, rs)) in
        Ok (if path = ''ctsubmit.css'' then same (CSS newResponse)
            else if path = ''dashboard'' then same (Dashboard wl rq newResponse)
            else if path = ''favicon.ico'' then same (favicon rq newResponse)
            else if path = ''mascot.png'' then same (mascot rq newResponse)
            else if path = ''livez'' then answerProbe ''Liveness check'' (livez rq h) race newResponse
            else if path = ''readyz'' then answerProbe ''Readiness check'' (readyz rq cfg h now) race newResponse
            else if path = ''metrics'' then answerProbe ''Metrics'' metrics race newResponse
            else if path = ''debug/build'' then
              same (if server_EnableDebugEndpoints cfg then buildInfo lib newResponse else NotFound newResponse)
            else if path = ''debug/config'' then
              same (if server_EnableDebugEndpoints cfg then configInfo lib cfg newResponse else NotFound newResponse)
            else if server_EnableDebugEndpoints cfg then
              same (case profilingHandler rq newResponse of Some rs \<Rightarrow> rs | None \<Rightarrow> NotFound newResponse)
            else same (NotFound newResponse)))"

definition monitoringHandler ::
  "webLib \<Rightarrow> logContext \<Rightarrow> webLists \<Rightarrow> Settings \<Rightarrow> (responseWrite list \<times> responseWrite list) option \<Rightarrow> time \<Rightarrow> fhRequest \<Rightarrow> Health \<Rightarrow>
     (fhResponse \<times> logEntry option) outcome" where
  "monitoringHandler lib lc wl cfg race now rq h =
     (case monitoringResponse lib wl cfg race now rq h of
        Ok (seen, rs) \<Rightarrow> (case logResponse lib lc rq seen of Ok entry \<Rightarrow> Ok (rs, entry) | Err e \<Rightarrow> Err e | Panic \<Rightarrow> Panic)
      | Err e \<Rightarrow> Err e
      | Panic \<Rightarrow> Panic)"

end
