(* ===== verification/Web_Correct.thy ===== *)
theory Web_Correct
  imports Web
begin

text \<open>
  What the two HTTP servers answer and log: the way of a POST through its checks, the race of a
  probe with its time-out, and the types of the values that end in the request log.
\<close>

section \<open>The race of a probe\<close>

text \<open>The status of a response after its writes is one of those written.\<close>

lemma fold_applyWrite_status:
  "rs_Status (fold applyWrite ws rs) = rs_Status rs \<and> (\<forall>s. SetStatus s \<notin> set ws) \<or>
   SetStatus (rs_Status (fold applyWrite ws rs)) \<in> set ws"
proof (induction ws arbitrary: rs)
  case (Cons w ws)
  show ?case using Cons [of "applyWrite w rs"] by (cases w) (auto simp: setUserValue_def)
qed simp

lemma raceOK_writes:
  assumes "raceOK isHead writes (Some (logged, late))"
  shows "set (timeoutWrites isHead) \<subseteq> set logged" and "set logged \<subseteq> set (timeoutWrites isHead) \<union> set writes" and "set late \<subseteq> set writes"
proof -
  from assms obtain j k where jk: "logged \<in> shuffles (timeoutWrites isHead) (take j writes)" "late = drop j (take k writes)"
    by (auto simp: raceOK_def)
  from jk(1) have "set logged = set (timeoutWrites isHead) \<union> set (take j writes)" by (rule set_shuffles)
  then show "set (timeoutWrites isHead) \<subseteq> set logged" "set logged \<subseteq> set (timeoutWrites isHead) \<union> set writes"
    using set_take_subset [of j writes] by auto
  show "set late \<subseteq> set writes" using jk(2) set_drop_subset [of j "take k writes"] set_take_subset [of k writes] by auto
qed

lemma race_status:
  assumes "raceOK isHead writes race" and "\<And>s. SetStatus s \<in> set writes \<Longrightarrow> s = 503 \<or> s = t"
    and "SetStatus t \<in> set writes \<or> SetStatus 503 \<in> set writes" and "rs' = snd (answerProbe msg writes race rs)"
  shows "rs_Status rs' = 503 \<or> rs_Status rs' = t"
proof -
  obtain rs0 ws where ws: "rs' = fold applyWrite ws rs0" "\<And>s. SetStatus s \<in> set ws \<Longrightarrow> s = 503 \<or> s = t" "\<exists>s. SetStatus s \<in> set ws"
  proof (cases race)
    case None
    show ?thesis
      by (rule that [of writes]) (use assms None in \<open>auto simp: answerProbe_def Let_def\<close>)
  next
    case (Some ll)
    obtain logged late where ll: "ll = (logged, late)" by (cases ll)
    note r = raceOK_writes [OF assms(1) [unfolded Some ll]]
    show ?thesis
    proof (rule that [of "logged @ late"])
      show "\<exists>s. SetStatus s \<in> set (logged @ late)" using r(1) by (auto simp: timeoutWrites_def)
      show "s = 503 \<or> s = t" if "SetStatus s \<in> set (logged @ late)" for s
        using that r(2,3) assms(2) by (auto simp: timeoutWrites_def split: if_splits)
    qed (simp add: assms(4) Some ll answerProbe_def Let_def)
  qed
  then show ?thesis using fold_applyWrite_status [of ws rs0] by metis
qed

section \<open>Submissions\<close>

text \<open>The error POST answers with, if any: of the format, of the body, of Handle.\<close>

definition requestError ::
  "webLib \<Rightarrow> (SubmissionRequest \<Rightarrow> handlerResult) \<Rightarrow> fhRequest \<Rightarrow> go_error option" where
  "requestError lib handled rq =
     (if getResponseFormat rq = RESPONSEFORMAT_INVALID then Some (invalidFormat rq)
      else if rq_Body rq = [] then Some emptyBody
      else case wb_unmarshal lib NewSubmissionRequest (rq_Body rq) of Inl e \<Rightarrow> Some e | Inr sr \<Rightarrow> snd (handled sr))"

definition reachesHandle :: "fhRequest \<Rightarrow> bool" where
  "reachesHandle rq \<longleftrightarrow> getResponseFormat rq \<noteq> RESPONSEFORMAT_INVALID \<and> rq_Body rq \<noteq> []"

lemmas send_defs = sendResponse_def sendHTMLResponse_def sendJSONResponse_def sendJSONProblem_def setDetails_def Let_def

lemma sendResponse_status:
  "responseFormat \<noteq> RESPONSEFORMAT_INVALID \<Longrightarrow> fst (sendResponse lib cfg responseFormat response err rs) = (if err = None then 200 else 400)"
  "rs_Status (snd (sendResponse lib cfg responseFormat response err rs)) = rs_Status rs"
  by (cases responseFormat; cases err; simp add: send_defs split: option.split)+

text \<open>The parts of a body that tell of an error, or of success.\<close>

fun tellsError :: "string \<Rightarrow> bodyPart \<Rightarrow> bool" where
  "tellsError e (HTMLError s) = (s = e)"
| "tellsError e (ProblemJSON status s strategy) = (s = e \<and> status = 400)"
| "tellsError e _ = False"

fun tellsSuccess :: "SubmissionResponse option \<Rightarrow> bodyPart \<Rightarrow> bool" where
  "tellsSuccess response (HTMLResponse r) = (r = response)"
| "tellsSuccess response (ResponseJSON pretty r) = (r = response)"
| "tellsSuccess response _ = False"

lemma sendResponse_body:
  "responseFormat \<noteq> RESPONSEFORMAT_INVALID \<Longrightarrow> err = None \<longrightarrow> wb_encode lib response = None \<Longrightarrow>
     list_ex (case err of Some e \<Rightarrow> tellsError (errorString e) | None \<Rightarrow> tellsSuccess response)
       (rs_Body (snd (sendResponse lib cfg responseFormat response err rs)))"
  by (cases responseFormat; cases err; simp add: send_defs)

lemma deferredStatus_fields [simp]:
  "rs_Status (deferredStatus dc status err rs) = (if dc_atReturn dc then rs_Status rs else status)"
  "rs_Body (deferredStatus dc status err rs) = rs_Body rs"
  by (simp_all add: deferredStatus_def setDetails_def Let_def)

lemma answer_sent:
  assumes "sendResponse lib cfg fmt response err rs = (st, rs1)" and "fmt \<noteq> RESPONSEFORMAT_INVALID"
    and "err = None \<longrightarrow> wb_encode lib response = None" and "rs_Status rs = 200"
  shows "st = (if err = None then 200 else 400)"
    and "rs_Status (deferredStatus dc st err rs1) = (if dc_atReturn dc \<or> err = None then 200 else 400)"
    and "list_ex (case err of Some e \<Rightarrow> tellsError (errorString e) | None \<Rightarrow> tellsSuccess response) (rs_Body (deferredStatus dc st err rs1))"
  using sendResponse_status(1) [OF assms(2), of lib cfg response err rs] sendResponse_status(2) [of lib cfg fmt response err rs]
    sendResponse_body [OF assms(2,3), of cfg rs] assms(1,4)
  by auto

text \<open>What POST does on a submission endpoint, in one equation per way out.\<close>

lemma POST_timeout:
  assumes "CheckPOSTEndpoint path = Some ep" "reachesHandle rq" "dc_afterHandle dc" "\<forall>sr. handled ep sr = Ok (result sr)"
  shows "\<exists>rs'. POST lib cfg dc handled rq path h rs =
    Ok (-1, UpdateLatestTimestamps None None (Some (rq_Time rq + server_RequestTimeout cfg)) h, rs')"
  using assms by (auto simp: POST_def reachesHandle_def Let_def split: sum.split prod.split)

text \<open>The response and the error that POST answers with, unless the format is invalid.\<close>

definition answerOf :: "webLib \<Rightarrow> (SubmissionRequest \<Rightarrow> handlerResult) \<Rightarrow> fhRequest \<Rightarrow> SubmissionResponse option" where
  "answerOf lib result rq =
     (case wb_unmarshal lib NewSubmissionRequest (rq_Body rq) of Inl e \<Rightarrow> None | Inr sr \<Rightarrow> fst (result sr))"

lemma POST_answer:
  assumes ep: "CheckPOSTEndpoint path = Some ep" and time: "\<not> (reachesHandle rq \<and> dc_afterHandle dc)"
    and handled: "\<forall>sr. handled ep sr = Ok (result sr)" and enc: "\<forall>sr. wb_encode lib (fst (result sr)) = None" and st: "rs_Status rs = 200"
  obtains rs' where "POST lib cfg dc handled rq path h rs = Ok (if requestError lib result rq = None then 200 else 400, h, rs')"
    "rs_Status rs' = (if dc_atReturn dc \<or> requestError lib result rq = None then 200 else 400)"
    "list_ex (case requestError lib result rq of
        Some e \<Rightarrow> tellsError (errorString e)
      | None \<Rightarrow> tellsSuccess (answerOf lib result rq)) (rs_Body rs')"
proof -
  let ?fmt = "getResponseFormat rq"
  consider (format) "?fmt = RESPONSEFORMAT_INVALID" | (body) "?fmt \<noteq> RESPONSEFORMAT_INVALID" "rq_Body rq = []"
    | (run) "?fmt \<noteq> RESPONSEFORMAT_INVALID" "rq_Body rq \<noteq> []" by blast
  then show ?thesis
  proof cases
    case format
    show ?thesis
      by (rule that [of "deferredStatus dc 400 (Some (invalidFormat rq)) (snd (sendJSONProblem 400 None (invalidFormat rq) rs))"])
        (use ep st format in \<open>simp_all add: POST_def requestError_def sendJSONProblem_def Let_def\<close>)
  next
    case body
    obtain s rs1 where s: "sendResponse lib cfg ?fmt None (Some emptyBody) rs = (s, rs1)" by fastforce
    have e: "requestError lib result rq = Some emptyBody" using body by (simp add: requestError_def)
    note a = answer_sent [OF s body(1) _ st]
    show ?thesis
      by (rule that [of "deferredStatus dc s (Some emptyBody) rs1"]) (use a ep body s e in \<open>simp_all add: POST_def Let_def\<close>)
  next
    case run
    let ?err = "requestError lib result rq"
    let ?resp = "answerOf lib result rq"
    let ?rs = "rs\<lparr>rs_CORS := True\<rparr>"
    have out: "(case wb_unmarshal lib NewSubmissionRequest (rq_Body rq) of Inl e \<Rightarrow> Ok (None, Some e) | Inr sr \<Rightarrow> handled ep sr) = Ok (?resp, ?err)"
      using run handled by (auto simp: requestError_def answerOf_def split: sum.split)
    have time': "\<not> dc_afterHandle dc" using run time by (simp add: reachesHandle_def)
    have enc': "?err = None \<longrightarrow> wb_encode lib ?resp = None"
      using run enc by (auto simp: requestError_def answerOf_def split: sum.split)
    obtain s rs1 where s: "sendResponse lib cfg ?fmt ?resp ?err ?rs = (s, rs1)" by fastforce
    note a = answer_sent [OF s run(1) enc']
    have "POST lib cfg dc handled rq path h rs = Ok (s, h, deferredStatus dc s ?err rs1)"
      using ep run time' s by (simp add: POST_def Let_def out)
    then show ?thesis using a st that by simp
  qed
qed

section \<open>The types of the user values\<close>

text \<open>What every handler leaves in the user values: typed details, and a level.\<close>

definition logsAs :: "zapLevel \<Rightarrow> fhResponse \<Rightarrow> bool" where
  "logsAs level rs \<longleftrightarrow> detailsTyped (rs_UserValues rs) \<and> rs_UserValues rs ''level'' = Some (UVLevel level)"

lemma setDetails_fields [simp]:
  "rs_UserValues (setDetails level msg err rs) = SetDetails level msg err None (rs_UserValues rs)"
  "rs_Status (setDetails level msg err rs) = rs_Status rs" "rs_Body (setDetails level msg err rs) = rs_Body rs"
  by (simp_all add: setDetails_def)

lemma setUserValue_fields [simp]:
  "rs_UserValues (setUserValue k v rs) = SetUserValue k v (rs_UserValues rs)" "rs_Status (setUserValue k v rs) = rs_Status rs"
  by (simp_all add: setUserValue_def)

lemma SetUserValue_apply [simp]: "SetUserValue k v uv k' = (if k' = k then Some v else uv k')"
  by (simp add: SetUserValue_def)

lemma NotFound_fields [simp]: "rs_UserValues (NotFound rs) = rs_UserValues rs" "rs_Status (NotFound rs) = 404"
  by (simp_all add: NotFound_def)

lemma newResponse_fields [simp]: "rs_UserValues newResponse = Map.empty" "rs_Status newResponse = 200"
  by (simp_all add: newResponse_def)

lemma sendResponse_typed: "detailsTyped (rs_UserValues rs) \<Longrightarrow> detailsTyped (rs_UserValues (snd (sendResponse lib cfg fmt response err rs)))"
  by (cases fmt; cases err; simp add: sendResponse_def sendHTMLResponse_def sendJSONResponse_def sendJSONProblem_def Let_def split: option.split)

lemma deferredStatus_logs: "detailsTyped (rs_UserValues rs) \<Longrightarrow> logsAs InfoLevel (deferredStatus dc status err rs)"
  by (simp add: deferredStatus_def logsAs_def Let_def)

text \<open>The web server's entries are at level error exactly for an answer of status 500.\<close>

definition logsWeb :: "fhResponse \<Rightarrow> bool" where
  "logsWeb rs \<longleftrightarrow> logsAs (if rs_Status rs = 500 then ErrorLevel else InfoLevel) rs"

lemma deferredStatus_logsWeb:
  "detailsTyped (rs_UserValues rs) \<Longrightarrow> rs_Status rs = 200 \<Longrightarrow> status \<in> {200, 400} \<Longrightarrow> logsWeb (deferredStatus dc status err rs)"
  by (auto simp: logsWeb_def intro: deferredStatus_logs)

lemma sendResponse_logsWeb:
  assumes "sendResponse lib cfg fmt response err rs = (status, rs1)" and "detailsTyped (rs_UserValues rs)" and "rs_Status rs = 200"
  shows "logsWeb (deferredStatus dc status err' rs1)"
proof (rule deferredStatus_logsWeb)
  show "detailsTyped (rs_UserValues rs1)" using sendResponse_typed [OF assms(2), of lib cfg fmt response err] assms(1) by simp
  show "rs_Status rs1 = 200" using sendResponse_status(2) [of lib cfg fmt response err rs] assms(1,3) by simp
  show "status \<in> {200, 400}"
    using sendResponse_status(1) [of fmt lib cfg response err rs] assms(1) by (cases fmt) (auto simp: sendResponse_def)
qed

lemma sendJSONProblem_sendResponse: "sendJSONProblem 400 response e rs = sendResponse lib cfg RESPONSEFORMAT_JSON response (Some e) rs"
  by (simp add: sendResponse_def)

lemma POST_logs:
  assumes "POST lib cfg dc handled rq path h rs = Ok (status, h', rs')" and "detailsTyped (rs_UserValues rs)" and "rs_Status rs = 200"
  shows "logsWeb rs'"
proof (cases "CheckPOSTEndpoint path")
  case None
  then show ?thesis using assms(1,2) by (auto simp: POST_def logsWeb_def logsAs_def)
next
  case (Some ep)
  let ?fmt = "getResponseFormat rq"
  have typed: "detailsTyped (rs_UserValues (rs\<lparr>rs_CORS := True\<rparr>))" "rs_Status (rs\<lparr>rs_CORS := True\<rparr>) = 200" using assms(2,3) by simp_all
  consider (sent) fmt response err err' s rs1 rs0 where "rs' = deferredStatus dc s err' rs1" "sendResponse lib cfg fmt response err rs0 = (s, rs1)"
      "rs0 \<in> {rs, rs\<lparr>rs_CORS := True\<rparr>}"
    | (late) s err where "rs' = deferredStatus dc s err rs" "s \<in> {200, 400}"
  proof (cases "?fmt = RESPONSEFORMAT_INVALID")
    case True
    obtain s rs1 where "sendJSONProblem 400 None (invalidFormat rq) rs = (s, rs1)" by fastforce
    then show thesis
      using that(1) [of s "Some (invalidFormat rq)" rs1 RESPONSEFORMAT_JSON None "Some (invalidFormat rq)" rs] assms(1) Some True
      by (auto simp: POST_def Let_def sendJSONProblem_sendResponse [where lib = lib and cfg = cfg])
  next
    case fmt: False
    show thesis
    proof (cases "rq_Body rq = []")
      case True
      obtain s rs1 where "sendResponse lib cfg ?fmt None (Some emptyBody) rs = (s, rs1)" by fastforce
      then show thesis
        using that(1) [of s "Some emptyBody" rs1 ?fmt None "Some emptyBody" rs] assms(1) Some fmt True by (auto simp: POST_def Let_def)
    next
      case False
      then obtain response err where out: "(case wb_unmarshal lib NewSubmissionRequest (rq_Body rq) of
          Inl e \<Rightarrow> Ok (None, Some e) | Inr sr \<Rightarrow> handled ep sr) = Ok (response, err)"
        using assms(1) Some fmt by (auto simp: POST_def Let_def split: outcome.splits)
      obtain s rs1 where s: "sendResponse lib cfg ?fmt response err (rs\<lparr>rs_CORS := True\<rparr>) = (s, rs1)" by fastforce
      have "rs' = (if dc_afterHandle dc then deferredStatus dc (if err = None then 200 else 400) err rs else deferredStatus dc s err rs1)"
        using assms(1) Some fmt False out s by (auto simp: POST_def Let_def split: if_splits)
      then show thesis
        using that(1) [OF _ s, of err] that(2) [of "if err = None then 200 else 400" err] by (cases "dc_afterHandle dc") auto
    qed
  qed
  then show ?thesis
  proof cases
    case sent
    then show ?thesis using sendResponse_logsWeb [OF sent(2)] assms(2,3) typed by auto
  next
    case late
    then show ?thesis using deferredStatus_logsWeb assms(2,3) by simp
  qed
qed

lemmas page_defs = CSS_def Dashboard_def favicon_def mascot_def FrontPage_def LogList_def APIWebpage_def buildInfo_def configInfo_def
  logsAs_def Let_def

lemma pages_log:
  "logsAs InfoLevel (CSS newResponse)" "logsAs InfoLevel (Dashboard wl rq newResponse)" "logsAs InfoLevel (favicon rq newResponse)"
  "logsAs InfoLevel (mascot rq newResponse)" "logsAs InfoLevel (FrontPage newResponse)" "logsAs InfoLevel (APIWebpage path newResponse)"
  "logsAs InfoLevel (buildInfo lib newResponse)" "logsAs InfoLevel (configInfo lib cfg newResponse)"
  "logsAs InfoLevel (setDetails InfoLevel msg None (NotFound newResponse))"
  by (simp_all add: page_defs split: option.split prod.split)

lemma pages_logWeb:
  "logsWeb (CSS newResponse)" "logsWeb (Dashboard wl rq newResponse)" "logsWeb (favicon rq newResponse)"
  "logsWeb (mascot rq newResponse)" "logsWeb (FrontPage newResponse)" "logsWeb (APIWebpage path newResponse)"
  "logsWeb (LogList lib ll name newResponse)" "logsWeb (setDetails InfoLevel msg None (NotFound newResponse))"
  by (simp_all add: logsWeb_def page_defs split: option.split prod.split)

lemma webPage_logs: "logsWeb (webPage lib wl rq path newResponse)"
proof -
  have both: "logsWeb (if c then a else b)" if "logsWeb a" "logsWeb b" for c a b using that by simp
  show ?thesis unfolding webPage_def by (intro both pages_logWeb)
qed

lemma webResponse_logs:
  assumes "webResponse lib wl cfg dc handled rq h = Ok (h', rs)"
  shows "logsWeb rs"
proof -
  let ?path = "toLower (tl (rq_Path rq))"
  consider (get) "rs = webPage lib wl rq ?path newResponse"
    | (post) status rs' where "POST lib cfg dc handled rq ?path h newResponse = Ok (status, h', rs')"
        "rs = (if status = -1 then setDetails InfoLevel ''Request timeout'' None (rs'\<lparr>rs_Status := 503, rs_ContentType := ''text/plain''\<rparr>) else rs')"
    | (other) "rs = setDetails InfoLevel ''Method not allowed'' None (newResponse\<lparr>rs_Status := 405\<rparr>)"
    using assms by (auto simp: webResponse_def Let_def split: if_splits outcome.splits)
  then show ?thesis
  proof cases
    case get
    then show ?thesis using webPage_logs by simp
  next
    case post
    then show ?thesis using POST_logs [OF post(1)] by (auto simp: logsWeb_def logsAs_def)
  next
    case other
    then show ?thesis by (simp add: logsWeb_def logsAs_def)
  qed
qed

text \<open>Writes that keep the details typed and set no level but the given one.\<close>

fun okWrite :: "zapLevel \<Rightarrow> responseWrite \<Rightarrow> bool" where
  "okWrite l (SetValue k v) = (keyOf v = k \<and> (k = ''level'' \<longrightarrow> v = UVLevel l))"
| "okWrite l _ = True"

lemma fold_writes_typed:
  "list_all (okWrite l) ws \<Longrightarrow> detailsTyped (rs_UserValues rs) \<Longrightarrow> detailsTyped (rs_UserValues (fold applyWrite ws rs))"
proof (induction ws arbitrary: rs)
  case (Cons w ws)
  then show ?case by (cases w) simp_all
qed simp

lemma fold_writes_level:
  "list_all (okWrite l) ws \<Longrightarrow> SetValue ''level'' (UVLevel l) \<in> set ws \<or> rs_UserValues rs ''level'' = Some (UVLevel l) \<Longrightarrow>
     rs_UserValues (fold applyWrite ws rs) ''level'' = Some (UVLevel l)"
proof (induction ws arbitrary: rs)
  case (Cons w ws)
  have "SetValue ''level'' (UVLevel l) \<in> set ws \<or> rs_UserValues (applyWrite w rs) ''level'' = Some (UVLevel l)"
    using Cons.prems by (cases w) auto
  then show ?case using Cons by simp
qed simp

lemma probe_typed:
  assumes "raceOK isHead writes race" and "\<And>l. list_all (okWrite l) writes"
  shows "logsAs (if race = None then DebugLevel else WarnLevel) (fst (answerProbe msg writes race newResponse))"
proof -
  let ?rs0 = "setUserValue ''msg'' (UVString msg) (setUserValue ''level'' (UVLevel DebugLevel) newResponse)"
  have rs0: "detailsTyped (rs_UserValues ?rs0)" "rs_UserValues ?rs0 ''level'' = Some (UVLevel DebugLevel)" by simp_all
  show ?thesis
  proof (cases race)
    case None
    then show ?thesis
      using fold_writes_level [OF assms(2), where rs = ?rs0] fold_writes_typed [OF assms(2) rs0(1)] rs0(2)
      by (simp add: answerProbe_def logsAs_def Let_def)
  next
    case (Some ll)
    obtain logged late where ll: "ll = (logged, late)" by (cases ll)
    note r = raceOK_writes [OF assms(1) [unfolded Some ll]]
    have "list_all (okWrite WarnLevel) (timeoutWrites isHead)" by (simp add: timeoutWrites_def)
    then have "list_all (okWrite WarnLevel) logged" using r(2) assms(2) [of WarnLevel] by (auto simp: list_all_iff)
    moreover have "SetValue ''level'' (UVLevel WarnLevel) \<in> set logged" using r(1) by (auto simp: timeoutWrites_def)
    ultimately show ?thesis
      using Some ll fold_writes_level [of WarnLevel logged ?rs0] fold_writes_typed [OF _ rs0(1), of WarnLevel logged]
      by (simp add: answerProbe_def logsAs_def Let_def)
  qed
qed

text \<open>The writes of the goroutine that a monitoring request starts; only the three probes start one.\<close>

definition probeOf :: "Settings \<Rightarrow> time \<Rightarrow> fhRequest \<Rightarrow> Health \<Rightarrow> responseWrite list option" where
  "probeOf cfg now rq h =
     (let path = toLower (tl (rq_Path rq)) in
      if path = ''livez'' then Some (livez rq h)
      else if path = ''readyz'' then Some (readyz rq cfg h now)
      else if path = ''metrics'' then Some metrics
      else None)"

definition isHeadRequest :: "fhRequest \<Rightarrow> bool" where
  "isHeadRequest rq \<longleftrightarrow> rq_Method rq = ''HEAD''"

definition probeRaceOK :: "Settings \<Rightarrow> time \<Rightarrow> fhRequest \<Rightarrow> Health \<Rightarrow> (responseWrite list \<times> responseWrite list) option \<Rightarrow> bool" where
  "probeRaceOK cfg now rq h race \<longleftrightarrow>
     (case probeOf cfg now rq h of None \<Rightarrow> race = None | Some writes \<Rightarrow> raceOK (isHeadRequest rq) writes race)"

text \<open>The pages that log themselves: all but those that are not found, or not found enabled.\<close>

definition knownPage :: "Settings \<Rightarrow> fhRequest \<Rightarrow> bool" where
  "knownPage cfg rq \<longleftrightarrow>
     toLower (tl (rq_Path rq)) \<in> {''ctsubmit.css'', ''dashboard'', ''favicon.ico'', ''mascot.png'', ''livez'', ''readyz'', ''metrics''} \<or>
     server_EnableDebugEndpoints cfg \<and>
       (toLower (tl (rq_Path rq)) \<in> {''debug/build'', ''debug/config''} \<or> profilingHandler rq newResponse \<noteq> None)"

lemma monitoringResponse_unknown:
  assumes "rq_Path rq \<noteq> []" and "\<not> knownPage cfg rq"
  shows "monitoringResponse lib wl cfg race now rq h = Ok (NotFound newResponse, NotFound newResponse)"
  using assms by (auto simp: monitoringResponse_def knownPage_def Let_def split: option.split)

lemma monitoringResponse_known:
  assumes "rq_Path rq \<noteq> []" and "knownPage cfg rq" and "probeRaceOK cfg now rq h race"
  shows "\<exists>seen rs level. monitoringResponse lib wl cfg race now rq h = Ok (seen, rs) \<and> logsAs level seen \<and> level \<noteq> ErrorLevel \<and>
    level \<in> {DebugLevel, InfoLevel, WarnLevel}"
proof (cases "probeOf cfg now rq h")
  case (Some writes)
  have "list_all (okWrite l) writes" for l
    using Some by (auto simp: probeOf_def livez_def readyz_def probeWrites_def metrics_def Let_def split: if_splits)
  note p = probe_typed [OF _ this]
  have "\<exists>msg. monitoringResponse lib wl cfg race now rq h = Ok (answerProbe msg writes race newResponse)"
    using Some assms(1) by (auto simp: probeOf_def monitoringResponse_def Let_def split: if_splits)
  then obtain msg where m: "monitoringResponse lib wl cfg race now rq h =
      Ok (fst (answerProbe msg writes race newResponse), snd (answerProbe msg writes race newResponse))" by auto
  have "raceOK (isHeadRequest rq) writes race" using assms(3) Some by (simp add: probeRaceOK_def)
  from p [OF this, of msg] show ?thesis
    by (intro exI [of _ "fst (answerProbe msg writes race newResponse)"] exI [of _ "snd (answerProbe msg writes race newResponse)"]
        exI [of _ "if race = None then DebugLevel else WarnLevel"]) (simp add: m)
next
  case None
  let ?path = "toLower (tl (rq_Path rq))"
  have "logsAs InfoLevel rs" if "rs \<in> {CSS newResponse, Dashboard wl rq newResponse, favicon rq newResponse, mascot rq newResponse,
      buildInfo lib newResponse, configInfo lib cfg newResponse}" for rs
    using that pages_log by blast
  moreover have "logsAs InfoLevel rs" if "profilingHandler rq newResponse = Some rs" for rs
    using that by (auto simp: profilingHandler_def logsAs_def split: if_splits)
  moreover have "\<exists>rs. monitoringResponse lib wl cfg race now rq h = Ok (rs, rs) \<and>
      (rs \<in> {CSS newResponse, Dashboard wl rq newResponse, favicon rq newResponse, mascot rq newResponse,
        buildInfo lib newResponse, configInfo lib cfg newResponse} \<or> profilingHandler rq newResponse = Some rs)"
    using None assms(1,2) by (auto simp: probeOf_def monitoringResponse_def knownPage_def Let_def split: if_splits option.splits)
  ultimately obtain rs where "monitoringResponse lib wl cfg race now rq h = Ok (rs, rs)" "logsAs InfoLevel rs" by blast
  then show ?thesis by (intro exI [of _ rs] exI [of _ InfoLevel]) simp
qed

text \<open>A context whose details are typed is logged, with its level.\<close>

lemma logResponse_logs:
  assumes "logsAs level rs" and "level \<in> {DebugLevel, InfoLevel, WarnLevel, ErrorLevel}"
  shows "\<exists>entry. logResponse lib lc rq rs = Ok (Some entry) \<and> le_Level entry = level \<and>
    set (commonFields lc rq (rs_Status rs) (wb_bodySize lib (rs_Body rs))) \<subseteq> set (le_Fields entry)"
proof -
  have "detailsTyped (rs_UserValues rs)" "rs_UserValues rs ''level'' = Some (UVLevel level)" using assms(1) by (simp_all add: logsAs_def)
  with LogRequest_typed [OF this(1), where lc = lc and rq = rq and status = "rs_Status rs" and bodySize = "wb_bodySize lib (rs_Body rs)"]
  show ?thesis using assms(2) unfolding logResponse_def by auto
qed

lemma logResponse_logsWeb:
  assumes "logsWeb rs"
  shows "\<exists>entry. logResponse lib lc rq rs = Ok (Some entry) \<and> le_Level entry = (if rs_Status rs = 500 then ErrorLevel else InfoLevel) \<and>
    set (commonFields lc rq (rs_Status rs) (wb_bodySize lib (rs_Body rs))) \<subseteq> set (le_Fields entry)"
  by (rule logResponse_logs [OF assms [unfolded logsWeb_def]]) simp

text \<open>A request and a result for the examples.\<close>

definition exHttpRequest :: fhRequest where
  "exHttpRequest = \<lparr>rq_Method = ''POST'', rq_Path = ''/Add-Chain'', rq_PostArgs = [], rq_QueryArgs = [],
     rq_MultipartForm = Inl (Errorf ''no form''), rq_Accept = ''text/html'', rq_Body = [1], rq_Time = 5,
     rq_ID = 7, rq_RemoteAddr = ''192.0.2.1:99'', rq_XRealIP = [], rq_XForwardedFor = [], rq_Protocol = ''HTTP/1.1'',
     rq_RequestURI = ''/Add-Chain'', rq_ContentType = [], rq_UserAgent = []\<rparr>"

definition exLists :: webLists where
  "exLists = \<lparr>wl_UsableTLSLogs = [], wl_ActiveTLSLogs = [], wl_TestTLSLogs = [], wl_UsableBIMILogs = []\<rparr>"

definition exWebLib :: webLib where
  "exWebLib = \<lparr>wb_unmarshal = (\<lambda>sr b. Inr sr), wb_encode = (\<lambda>r. None), wb_marshalIndent = (\<lambda>ll. None),
     wb_marshalConfig = (\<lambda>cfg. Inr ''{}''), wb_buildInfo = None, wb_ApplicationName = ''ctsubmit'', wb_bodySize = (\<lambda>b. int (length b))\<rparr>"

definition exLogContext :: logContext where
  "exLogContext = \<lparr>lc_instancePrefix = ''01020304'', lc_XFFUseFirstIPAddress = False, lc_now = 9\<rparr>"

text \<open>
  C20: A POST to a submission endpoint is answered as follows. If the deadline has passed when Handle
  returns: status 503, and the busy timestamp becomes the request's deadline. Otherwise the body
  tells the response if the format, the body and Handle are without error and tells the first error if not, and the
  status is 200 or 400 accordingly; except that if the deadline passes while the response is being
  written, the status is 200 even though the body tells an error.
\<close>

theorem submission_answered:
  assumes "rq_Method rq = ''POST''" and "rq_Path rq \<noteq> []" and "CheckPOSTEndpoint (toLower (tl (rq_Path rq))) = Some ep"
    and "\<forall>sr. handled ep sr = Ok (result sr)" and "\<forall>sr. wb_encode lib (fst (result sr)) = None"
  shows "\<exists>h' rs entry. webHandler lib lc wl cfg dc handled rq h = Ok (h', rs, entry) \<and>
    (if reachesHandle rq \<and> dc_afterHandle dc
     then rs_Status rs = 503 \<and> h' = UpdateLatestTimestamps None None (Some (rq_Time rq + server_RequestTimeout cfg)) h
     else h' = h \<and>
       rs_Status rs = (if dc_atReturn dc \<or> requestError lib result rq = None then 200 else 400) \<and>
       list_ex (case requestError lib result rq of
           Some e \<Rightarrow> tellsError (errorString e)
         | None \<Rightarrow> tellsSuccess (answerOf lib result rq)) (rs_Body rs))"
proof -
  let ?path = "toLower (tl (rq_Path rq))"
  let ?ok = "\<lambda>h' rs. if reachesHandle rq \<and> dc_afterHandle dc
     then rs_Status rs = 503 \<and> h' = UpdateLatestTimestamps None None (Some (rq_Time rq + server_RequestTimeout cfg)) h
     else h' = h \<and> rs_Status rs = (if dc_atReturn dc \<or> requestError lib result rq = None then 200 else 400) \<and>
       list_ex (case requestError lib result rq of Some e \<Rightarrow> tellsError (errorString e) | None \<Rightarrow> tellsSuccess (answerOf lib result rq)) (rs_Body rs)"
  have "\<exists>h' rs. webResponse lib wl cfg dc handled rq h = Ok (h', rs) \<and> ?ok h' rs"
  proof (cases "reachesHandle rq \<and> dc_afterHandle dc")
    case True
    then obtain rs' where "POST lib cfg dc handled rq ?path h newResponse =
        Ok (-1, UpdateLatestTimestamps None None (Some (rq_Time rq + server_RequestTimeout cfg)) h, rs')"
      using POST_timeout [where handled = handled and result = result, OF assms(3) _ _ assms(4), of rq dc lib cfg h newResponse] by auto
    then show ?thesis using assms(1,2) True by (simp add: webResponse_def Let_def)
  next
    case False
    obtain rs' where rs': "POST lib cfg dc handled rq ?path h newResponse = Ok (if requestError lib result rq = None then 200 else 400, h, rs')"
      "rs_Status rs' = (if dc_atReturn dc \<or> requestError lib result rq = None then 200 else 400)"
      "list_ex (case requestError lib result rq of Some e \<Rightarrow> tellsError (errorString e) | None \<Rightarrow> tellsSuccess (answerOf lib result rq)) (rs_Body rs')"
      by (rule POST_answer [where handled = handled and result = result, OF assms(3) False assms(4,5) newResponse_fields(2)])
    have "webResponse lib wl cfg dc handled rq h = Ok (h, rs')"
      using rs'(1) assms(1,2) by (simp add: webResponse_def Let_def)
    then show ?thesis unfolding if_not_P [OF False] using rs'(2,3) by blast
  qed
  then obtain h' rs where ok: "webResponse lib wl cfg dc handled rq h = Ok (h', rs)" "?ok h' rs" by blast
  obtain entry where "logResponse lib lc rq rs = Ok (Some entry)"
    using logResponse_logsWeb [OF webResponse_logs [OF ok(1)]] by blast
  then have "webHandler lib lc wl cfg dc handled rq h = Ok (h', rs, Some entry)" by (simp add: webHandler_def ok(1))
  then show ?thesis using ok(2) by blast
qed

theorem submission_answered_witness:
  "\<exists>h' rs entry. webHandler exWebLib exLogContext exLists defaultSettings \<lparr>dc_afterHandle = False, dc_atReturn = True\<rparr>
      (\<lambda>ep sr. Ok (None, Some (Errorf ''bad''))) exHttpRequest newHealth = Ok (h', rs, entry) \<and>
    rs_Status rs = 200 \<and> list_ex (tellsError ''bad'') (rs_Body rs)"
proof -
  have r: "rq_Method exHttpRequest = ''POST''" "rq_Path exHttpRequest \<noteq> []"
    "CheckPOSTEndpoint (toLower (tl (rq_Path exHttpRequest))) = Some ENDPOINT_ADDCHAIN" by code_simp+
  have "requestError exWebLib (\<lambda>sr. (None, Some (Errorf ''bad''))) exHttpRequest = Some (Errorf ''bad'')" by code_simp
  then show ?thesis
    using submission_answered [OF r, of "\<lambda>ep sr. Ok (None, Some (Errorf ''bad''))" "\<lambda>sr. (None, Some (Errorf ''bad''))" exWebLib
        exLogContext exLists defaultSettings "\<lparr>dc_afterHandle = False, dc_atReturn = True\<rparr>" newHealth]
    by (auto simp: exWebLib_def)
qed

text \<open>
  C21: The readiness probe of a service whose signals have gone through any history answers 200
  only if the initial data has been loaded and more than the configured time has passed since the
  deadline of every timed-out request, whatever the order in which a late probe and the time-out handler write
  to the response; and if the probe finishes in time it answers 200 exactly then, 503 otherwise. The liveness probe always answers 200 in time.
\<close>

theorem readiness_exact:
  assumes "rq_Path rq = ''/readyz''" and "rq_Path lrq = ''/livez''"
    and "probeRaceOK cfg now rq (healthAfter events) race"
  shows "\<exists>rs lrs entry lentry ready. ready = (InitialDataReady \<in> set events \<and> zeroTime + server_RememberBusyTimeout cfg < now \<and>
      list_all (\<lambda>e. case e of RequestTimedOut d \<Rightarrow> d + server_RememberBusyTimeout cfg < now | _ \<Rightarrow> True) events) \<and>
    monitoringHandler lib lc wl cfg race now rq (healthAfter events) = Ok (rs, entry) \<and>
    (rs_Status rs = 503 \<or> rs_Status rs = 200 \<and> ready) \<and> (race = None \<longrightarrow> rs_Status rs = (if ready then 200 else 503)) \<and>
    monitoringHandler lib lc wl cfg None now lrq (healthAfter events) = Ok (lrs, lentry) \<and> rs_Status lrs = 200"
proof -
  let ?h = "healthAfter events"
  let ?ready = "IsReady ?h cfg now" and ?t = "if IsReady (healthAfter events) cfg now then 200 else 503"
  have ready: "?ready = (InitialDataReady \<in> set events \<and> zeroTime + server_RememberBusyTimeout cfg < now \<and>
      list_all (\<lambda>e. case e of RequestTimedOut d \<Rightarrow> d + server_RememberBusyTimeout cfg < now | _ \<Rightarrow> True) events)"
    unfolding healthAfter_ready by (auto simp: list_all_iff split: healthEvent.split)
  have run: "\<exists>entry. monitoringHandler lib lc wl cfg race' now rq' ?h = Ok (snd (answerProbe msg writes race' newResponse), entry)"
    if answer: "monitoringResponse lib wl cfg race' now rq' ?h = Ok (answerProbe msg writes race' newResponse)"
      and page: "rq_Path rq' \<noteq> []" "knownPage cfg rq'" "probeRaceOK cfg now rq' ?h race'" for rq' race' msg writes
  proof -
    obtain level where "logsAs level (fst (answerProbe msg writes race' newResponse))" "level \<in> {DebugLevel, InfoLevel, WarnLevel}"
      using monitoringResponse_known [OF page, of lib wl] answer by auto
    then obtain entry where "logResponse lib lc rq' (fst (answerProbe msg writes race' newResponse)) = Ok (Some entry)"
      using logResponse_logs by blast
    then show ?thesis using answer by (cases "answerProbe msg writes race' newResponse") (simp add: monitoringHandler_def)
  qed
  have paths: "toLower (tl (rq_Path rq)) = ''readyz''" "toLower (tl (rq_Path lrq)) = ''livez''"
    using assms(1,2) by (simp_all add: toLower_def toLowerChar_def)
  let ?rs = "snd (answerProbe ''Readiness check'' (readyz rq cfg ?h now) race newResponse)"
  let ?lrs = "snd (answerProbe ''Liveness check'' (livez lrq ?h) None newResponse)"
  obtain entry where e: "monitoringHandler lib lc wl cfg race now rq ?h = Ok (?rs, entry)"
    using run [OF _ _ _ assms(3)] paths(1) assms(1) by (auto simp: monitoringResponse_def knownPage_def Let_def)
  obtain lentry where le: "monitoringHandler lib lc wl cfg None now lrq ?h = Ok (?lrs, lentry)"
  proof -
    have "probeRaceOK cfg now lrq ?h None" by (simp add: probeRaceOK_def raceOK_def split: option.split)
    from run [OF _ _ _ this] show ?thesis
      using that paths(2) assms(2) by (auto simp: monitoringResponse_def knownPage_def Let_def)
  qed
  have "raceOK (isHeadRequest rq) (readyz rq cfg ?h now) race" using assms(3) paths(1) by (simp add: probeRaceOK_def probeOf_def Let_def)
  then have "rs_Status ?rs = 503 \<or> rs_Status ?rs = ?t"
    by (rule race_status) (auto simp: readyz_def probeWrites_def split: if_splits)
  moreover have "race = None \<longrightarrow> rs_Status ?rs = ?t"
    by (auto simp: answerProbe_def readyz_def probeWrites_def Let_def)
  moreover have "rs_Status ?lrs = 200"
    by (auto simp: answerProbe_def livez_def probeWrites_def healthAfter_alive Let_def)
  ultimately show ?thesis
    by (intro exI [of _ ?rs] exI [of _ ?lrs] exI [of _ entry] exI [of _ lentry] exI [of _ ?ready] conjI ready e le) (auto split: if_splits)
qed

theorem readiness_exact_witness:
  "\<exists>rs entry. monitoringHandler exWebLib exLogContext exLists defaultSettings None (60 * hour) (exHttpRequest\<lparr>rq_Path := ''/readyz''\<rparr>)
      (healthAfter [RequestTimedOut 7, InitialDataReady]) = Ok (rs, entry) \<and> rs_Status rs = 200"
proof -
  have "probeRaceOK defaultSettings (60 * hour) (exHttpRequest\<lparr>rq_Path := ''/readyz''\<rparr>) (healthAfter [RequestTimedOut 7, InitialDataReady]) None"
    by (simp add: probeRaceOK_def raceOK_def split: option.split)
  from readiness_exact [OF _ _ this, of "exHttpRequest\<lparr>rq_Path := ''/livez''\<rparr>" exWebLib exLogContext exLists] show ?thesis
    by (auto simp: defaultSettings_def zeroTime_def hour_def second_def minute_def)
qed



end
