(* ===== verification/Loglists.thy ===== *)
theory Loglists
  imports CT_Types Base64
begin

text \<open>
  The loglists package: the lists of usable, active and test logs derived from ctloglists' data
  (filter.go), the custom test log list (customTestLogs.go) and the names of logs (logNames.go). The
  lists of ctloglists, its selection by status, SHA-256, the keys' parsing and the file system are
  parameters. intersect changes the logs it keeps in place, so an operator's logs are a store and
  its result a list of positions in it; Loglists_Store has the store that all lists share.
\<close>

section \<open>Loops that may panic\<close>

fun foldO :: "('a \<Rightarrow> 's \<Rightarrow> 's outcome) \<Rightarrow> 'a list \<Rightarrow> 's \<Rightarrow> 's outcome" where
  "foldO f [] s = Ok s"
| "foldO f (x # xs) s =
     (case f x s of Ok s' \<Rightarrow> foldO f xs s' | Err e \<Rightarrow> Err e | Panic \<Rightarrow> Panic)"

lemma foldO_inv:
  assumes "\<And>x s s'. x \<in> set xs \<Longrightarrow> P s \<Longrightarrow> f x s = Ok s' \<Longrightarrow> P s'"
  shows "P s \<Longrightarrow> foldO f xs s = Ok s' \<Longrightarrow> P s'"
  using assms
proof (induction xs arbitrary: s)
  case (Cons x xs)
  from Cons.prems(2) obtain s1 where s1: "f x s = Ok s1" "foldO f xs s1 = Ok s'" by (auto split: outcome.splits)
  show ?case by (rule Cons.IH [OF _ s1(2)]) (use Cons.prems s1(1) in auto)
qed simp

section \<open>Intersecting two log lists (filter.go)\<close>

text \<open>The later of the two usable timestamps; a nil State is dereferenced.\<close>

definition mergeState :: "logStates option \<Rightarrow> logStates option \<Rightarrow> logStates option outcome" where
  "mergeState state1 state2 =
     (case state1 of
        None \<Rightarrow> Panic
      | Some s1 \<Rightarrow>
          (case ls_Usable s1 of
             None \<Rightarrow> Ok state1
           | Some t1 \<Rightarrow>
               (case state2 of
                  None \<Rightarrow> Panic
                | Some s2 \<Rightarrow>
                    (case ls_Usable s2 of
                       None \<Rightarrow> Ok state1
                     | Some t2 \<Rightarrow> Ok (Some (if t1 < t2 then s1\<lparr>ls_Usable := Some t2\<rparr> else s1))))))"

text \<open>The part of the temporal interval that the other has too.\<close>

definition mergeInterval :: "temporalInterval option \<Rightarrow> temporalInterval option \<Rightarrow> temporalInterval option" where
  "mergeInterval interval1 interval2 =
     (case (interval1, interval2) of
        (Some i1, Some i2) \<Rightarrow>
          let i1a = (if ti_StartInclusive i1 < ti_StartInclusive i2 then i1\<lparr>ti_StartInclusive := ti_StartInclusive i2\<rparr> else i1)
          in Some (if ti_EndExclusive i2 < ti_EndExclusive i1a then i1a\<lparr>ti_EndExclusive := ti_EndExclusive i2\<rparr> else i1a)
      | _ \<Rightarrow> interval1)"

definition mergeLog :: "ctLog \<Rightarrow> ctLog \<Rightarrow> ctLog outcome" where
  "mergeLog log1 log2 =
     (case mergeState (log_State log1) (log_State log2) of
        Ok state \<Rightarrow>
          Ok (log1\<lparr>log_State := state,
                log_TemporalInterval := mergeInterval (log_TemporalInterval log1) (log_TemporalInterval log2)\<rparr>)
      | Err e \<Rightarrow> Err e
      | Panic \<Rightarrow> Panic)"

definition mergeTiledLog :: "tiledLog \<Rightarrow> tiledLog \<Rightarrow> tiledLog outcome" where
  "mergeTiledLog log1 log2 =
     (case mergeState (tl_State log1) (tl_State log2) of
        Ok state \<Rightarrow>
          Ok (log1\<lparr>tl_State := state,
                tl_TemporalInterval := mergeInterval (tl_TemporalInterval log1) (tl_TemporalInterval log2)\<rparr>)
      | Err e \<Rightarrow> Err e
      | Panic \<Rightarrow> Panic)"

text \<open>
  One log against one operator of the second list: the first log with its ID is merged into it and
  its position is appended to the result. The RFC 6962 and the tiled loops share this step.
\<close>

definition keepMatch ::
  "('l \<Rightarrow> 'l \<Rightarrow> bool) \<Rightarrow> ('l \<Rightarrow> 'l \<Rightarrow> 'l outcome) \<Rightarrow> 'l list \<Rightarrow> nat \<Rightarrow> 'l list \<times> nat list \<Rightarrow> ('l list \<times> nat list) outcome" where
  "keepMatch matches merge logs2 i st =
     (case find (matches (fst st ! i)) logs2 of
        None \<Rightarrow> Ok st
      | Some log2 \<Rightarrow>
          (case merge (fst st ! i) log2 of
             Ok lg \<Rightarrow> Ok ((fst st)[i := lg], snd st @ [i])
           | Err e \<Rightarrow> Err e
           | Panic \<Rightarrow> Panic))"

definition sameLogID :: "ctLog \<Rightarrow> ctLog \<Rightarrow> bool" where
  "sameLogID log1 log2 \<longleftrightarrow> log_LogID log1 = log_LogID log2 \<and> \<not> strContains (log_URL log1) ''bogus''"

definition sameTiledLogID :: "tiledLog \<Rightarrow> tiledLog \<Rightarrow> bool" where
  "sameTiledLogID log1 log2 \<longleftrightarrow> tl_LogID log1 = tl_LogID log2"

definition intersectLogs :: "logList \<Rightarrow> ctLog list \<Rightarrow> (ctLog list \<times> nat list) outcome" where
  "intersectLogs ll2 logs =
     foldO (\<lambda>operator2. foldO (keepMatch sameLogID mergeLog (op_Logs operator2)) [0..<length logs]) ll2 (logs, [])"

definition intersectTiledLogs :: "logList \<Rightarrow> tiledLog list \<Rightarrow> (tiledLog list \<times> nat list) outcome" where
  "intersectTiledLogs ll2 logs =
     foldO (\<lambda>i. foldO (\<lambda>operator2. keepMatch sameTiledLogID mergeTiledLog (op_TiledLogs operator2) i) ll2) [0..<length logs] (logs, [])"

definition pickAll :: "'l list \<times> nat list \<Rightarrow> 'l list" where
  "pickAll st = map (\<lambda>i. fst st ! i) (snd st)"

definition intersectOperator :: "logList \<Rightarrow> operator \<Rightarrow> logList \<Rightarrow> logList outcome" where
  "intersectOperator ll2 operator1 intersection =
     (case intersectLogs ll2 (op_Logs operator1) of
        Ok st \<Rightarrow>
          (case intersectTiledLogs ll2 (op_TiledLogs operator1) of
             Ok st' \<Rightarrow>
               let op = operator1\<lparr>op_Logs := pickAll st, op_TiledLogs := pickAll st'\<rparr> in
               Ok (if 0 < length (op_Logs op) \<or> 0 < length (op_TiledLogs op) then intersection @ [op] else intersection)
           | Err e \<Rightarrow> Err e
           | Panic \<Rightarrow> Panic)
      | Err e \<Rightarrow> Err e
      | Panic \<Rightarrow> Panic)"

definition intersect :: "logList \<Rightarrow> logList \<Rightarrow> logList outcome" where
  "intersect ll1 ll2 = foldO (intersectOperator ll2) ll1 []"

section \<open>Names of logs (logNames.go)\<close>

definition allLogs :: "logList \<Rightarrow> ctLog list" where
  "allLogs ll = concat (map op_Logs ll)"

definition allTiledLogs :: "logList \<Rightarrow> tiledLog list" where
  "allTiledLogs ll = concat (map op_TiledLogs ll)"

definition useCrtshLogNameForRFC6962Log :: "logList \<Rightarrow> ctLog \<Rightarrow> ctLog" where
  "useCrtshLogNameForRFC6962Log crtsh lg =
     (case find (\<lambda>l. log_LogID lg = log_LogID l) (allLogs crtsh) of
        Some l \<Rightarrow> lg\<lparr>log_Description := log_Description l\<rparr>
      | None \<Rightarrow> lg)"

definition useCrtshLogNameForStaticLog :: "logList \<Rightarrow> tiledLog \<Rightarrow> tiledLog" where
  "useCrtshLogNameForStaticLog crtsh lg =
     (case find (\<lambda>l. tl_LogID lg = tl_LogID l) (allTiledLogs crtsh) of
        Some l \<Rightarrow> lg\<lparr>tl_Description := tl_Description l\<rparr>
      | None \<Rightarrow> lg)"

definition useCrtshLogNames :: "logList \<Rightarrow> logList \<Rightarrow> logList" where
  "useCrtshLogNames crtsh ll =
     map (\<lambda>op. op\<lparr>op_Logs := map (useCrtshLogNameForRFC6962Log crtsh) (op_Logs op),
                 op_TiledLogs := map (useCrtshLogNameForStaticLog crtsh) (op_TiledLogs op)\<rparr>) ll"

text \<open>The names other packages register for log IDs, and the search for a name over the four lists.\<close>

definition RegisterLogName :: "bytes \<Rightarrow> string \<Rightarrow> string \<Rightarrow> (bytes \<Rightarrow> (string \<times> string) option) \<Rightarrow> bytes \<Rightarrow> (string \<times> string) option" where
  "RegisterLogName keyID operator name extra = extra(keyID \<mapsto> (operator, name))"

definition operatorLogName :: "bytes \<Rightarrow> operator \<Rightarrow> (string \<times> string) option" where
  "operatorLogName logID op =
     (case find (\<lambda>l. log_LogID l = logID) (op_Logs op) of
        Some l \<Rightarrow> Some (op_Name op, log_Description l)
      | None \<Rightarrow>
          (case find (\<lambda>l. tl_LogID l = logID) (op_TiledLogs op) of
             Some l \<Rightarrow> Some (op_Name op, tl_Description l)
           | None \<Rightarrow> None))"

fun firstSome :: "('a \<Rightarrow> 'b option) \<Rightarrow> 'a list \<Rightarrow> 'b option" where
  "firstSome f [] = None"
| "firstSome f (x # xs) = (case f x of Some y \<Rightarrow> Some y | None \<Rightarrow> firstSome f xs)"

lemma firstSome_None: "firstSome f xs = None \<longleftrightarrow> list_all (\<lambda>x. f x = None) xs"
  by (induction xs) (auto split: option.split)

definition GetLogName :: "logList option list \<Rightarrow> (bytes \<Rightarrow> (string \<times> string) option) \<Rightarrow> bytes \<Rightarrow> string \<times> string" where
  "GetLogName lls extra logID =
     (case firstSome (\<lambda>ll. case ll of None \<Rightarrow> None | Some ops \<Rightarrow> firstSome (operatorLogName logID) ops) lls of
        Some name \<Rightarrow> name
      | None \<Rightarrow>
          (case (if length logID = 32 then extra logID else None) of
             Some entry \<Rightarrow> entry
           | None \<Rightarrow> ([], [])))"

section \<open>The derived lists (filter.go)\<close>

text \<open>What the package takes from ctloglists, with its selection by status.\<close>

datatype logStatus = QualifiedLogStatus | UsableLogStatus

record ctloglists =
  cl_GstaticV3All :: logList
  cl_AppleCurrent :: logList
  cl_MozillaV3Known :: logList
  cl_BimiV3Approved :: logList
  cl_CrtshV3Active :: logList
  cl_CrtshV3All :: logList
  cl_SelectByStatus :: "logStatus list \<Rightarrow> logList \<Rightarrow> logList"

definition determineUsableTLSLogs :: "ctloglists \<Rightarrow> logList outcome" where
  "determineUsableTLSLogs cl =
     (let chromeUsableLogs = cl_SelectByStatus cl [UsableLogStatus] (cl_GstaticV3All cl);
          appleUsableLogs = cl_SelectByStatus cl [UsableLogStatus] (cl_AppleCurrent cl);
          mozillaAdmissibleLogs = cl_SelectByStatus cl [QualifiedLogStatus, UsableLogStatus] (cl_MozillaV3Known cl)
      in case intersect chromeUsableLogs appleUsableLogs of
           Ok both \<Rightarrow>
             (case intersect both mozillaAdmissibleLogs of
                Ok usable \<Rightarrow> Ok (useCrtshLogNames (cl_CrtshV3All cl) usable)
              | Err e \<Rightarrow> Err e
              | Panic \<Rightarrow> Panic)
         | Err e \<Rightarrow> Err e
         | Panic \<Rightarrow> Panic)"

definition FindLogByURL :: "logList \<Rightarrow> string \<Rightarrow> ctLog option" where
  "FindLogByURL ll url = find (\<lambda>l. log_URL l = url) (allLogs ll)"

definition FindTiledLogByURL :: "logList \<Rightarrow> string \<Rightarrow> tiledLog option" where
  "FindTiledLogByURL ll url = find (\<lambda>l. tl_SubmissionURL l = url) (allTiledLogs ll)"

definition filterOperators :: "(ctLog \<Rightarrow> bool) \<Rightarrow> (tiledLog \<Rightarrow> bool) \<Rightarrow> logList \<Rightarrow> logList" where
  "filterOperators keepLog keepTiled ll =
     filter (\<lambda>op. 0 < length (op_Logs op) \<or> 0 < length (op_TiledLogs op))
       (map (\<lambda>op. op\<lparr>op_Logs := filter keepLog (op_Logs op), op_TiledLogs := filter keepTiled (op_TiledLogs op)\<rparr>) ll)"

definition determineActiveTLSLogs :: "ctloglists \<Rightarrow> logList" where
  "determineActiveTLSLogs cl =
     filterOperators
       (\<lambda>l. log_Type l \<noteq> ''test'' \<and> FindLogByURL (cl_BimiV3Approved cl) (log_URL l) = None)
       (\<lambda>l. tl_Type l \<noteq> ''test'' \<and> FindTiledLogByURL (cl_BimiV3Approved cl) (tl_SubmissionURL l) = None)
       (cl_CrtshV3Active cl)"

definition determineTestTLSLogs :: "ctloglists \<Rightarrow> logList" where
  "determineTestTLSLogs cl =
     filterOperators
       (\<lambda>l. log_Type l = ''test'' \<and> FindLogByURL (cl_BimiV3Approved cl) (log_URL l) = None)
       (\<lambda>l. tl_Type l = ''test'' \<and> FindTiledLogByURL (cl_BimiV3Approved cl) (tl_SubmissionURL l) = None)
       (cl_CrtshV3Active cl)"

definition determineUsableBIMILogs :: "ctloglists \<Rightarrow> logList" where
  "determineUsableBIMILogs cl =
     useCrtshLogNames (cl_CrtshV3All cl) (cl_SelectByStatus cl [UsableLogStatus] (cl_BimiV3Approved cl))"

section \<open>The custom test log list (customTestLogs.go)\<close>

text \<open>fmt's quoting of a string is a parameter.\<close>

record customLib =
  cu_quote :: "string \<Rightarrow> string"
  cu_sha256 :: "bytes \<Rightarrow> bytes"
  cu_newVerifier :: "bytes \<Rightarrow> go_error option"

definition validateLogID :: "customLib \<Rightarrow> bytes \<Rightarrow> bytes \<Rightarrow> go_error option" where
  "validateLogID lib logID key =
     (let expected = cu_sha256 lib key in
      if logID \<noteq> expected
      then Some (Errorf (''log_id is '' @ cu_quote lib (base64Encode logID) @
             '', but the SHA-256 hash of key is '' @ cu_quote lib (base64Encode expected)))
      else None)"

definition validateLog :: "customLib \<Rightarrow> ctLog \<Rightarrow> go_error option" where
  "validateLog lib lg =
     (let name = ''log '' @ cu_quote lib (log_Description lg) in
      if log_URL lg = [] then Some (Errorf (name @ '': url is required''))
      else if log_Type lg \<noteq> ''test'' then
        Some (Errorf (name @ '': log_type must be \"test\", got '' @ cu_quote lib (log_Type lg)))
      else map_option (\<lambda>e. Errorf (name @ '': '' @ errorString e)) (validateLogID lib (log_LogID lg) (log_Key lg)))"

definition validateTiledLog :: "customLib \<Rightarrow> tiledLog \<Rightarrow> go_error option" where
  "validateTiledLog lib lg =
     (let name = ''tiled log '' @ cu_quote lib (tl_Description lg) in
      if tl_SubmissionURL lg = [] then Some (Errorf (name @ '': submission_url is required''))
      else if tl_MonitoringURL lg = [] then Some (Errorf (name @ '': monitoring_url is required''))
      else if tl_Type lg \<noteq> ''test'' then
        Some (Errorf (name @ '': log_type must be \"test\", got '' @ cu_quote lib (tl_Type lg)))
      else map_option (\<lambda>e. Errorf (name @ '': '' @ errorString e)) (validateLogID lib (tl_LogID lg) (tl_Key lg)))"

definition validateOperator :: "customLib \<Rightarrow> operator \<Rightarrow> go_error option" where
  "validateOperator lib op =
     (case firstSome (validateLog lib) (op_Logs op) of
        Some e \<Rightarrow> Some e
      | None \<Rightarrow> firstSome (validateTiledLog lib) (op_TiledLogs op))"

definition validateLogList :: "customLib \<Rightarrow> logList \<Rightarrow> go_error option" where
  "validateLogList lib ll = firstSome (validateOperator lib) ll"

text \<open>The verifiers known so far, by log ID; a key is registered once.\<close>

definition registerSignatureVerifier :: "customLib \<Rightarrow> bytes \<Rightarrow> bytes set \<Rightarrow> go_error option \<times> bytes set" where
  "registerSignatureVerifier lib logPublicKey verifiers =
     (let logID = cu_sha256 lib logPublicKey in
      if logID \<in> verifiers then (None, verifiers)
      else case cu_newVerifier lib logPublicKey of
        Some e \<Rightarrow> (Some e, verifiers)
      | None \<Rightarrow> (None, insert logID verifiers))"

text \<open>The keys of a list with the URLs named in errors, in the order of the loops.\<close>

definition listKeys :: "logList \<Rightarrow> (string \<times> bytes) list" where
  "listKeys ll =
     concat (map (\<lambda>op. map (\<lambda>l. (log_URL l, log_Key l)) (op_Logs op) @
       map (\<lambda>l. (tl_SubmissionURL l, tl_Key l)) (op_TiledLogs op)) ll)"

fun registerKeys :: "customLib \<Rightarrow> (string \<times> bytes) list \<Rightarrow> bytes set \<Rightarrow> go_error option \<times> bytes set" where
  "registerKeys lib [] verifiers = (None, verifiers)"
| "registerKeys lib ((url, key) # keys) verifiers =
     (case registerSignatureVerifier lib key verifiers of
        (Some e, verifiers') \<Rightarrow> (Some (Errorf (''log '' @ cu_quote lib url @ '': '' @ errorString e)), verifiers')
      | (None, verifiers') \<Rightarrow> registerKeys lib keys verifiers')"

definition registerSignatureVerifiers :: "customLib \<Rightarrow> logList \<Rightarrow> bytes set \<Rightarrow> go_error option \<times> bytes set" where
  "registerSignatureVerifiers lib ll verifiers = registerKeys lib (listKeys ll) verifiers"

text \<open>
  The package's state: the test list, the custom list (nil if there is none), the verifiers and the
  timestamp of the test list. The file is read by the arguments; os.Stat may fail.
\<close>

record loglistsState =
  lg_TestTLSLogs :: logList
  lg_TestTimestamp :: time
  lg_customTestLogList :: "logList option"
  lg_verifiers :: "bytes set"

definition LoadCustomTestLogList ::
  "customLib \<Rightarrow> string \<Rightarrow> go_error + 'data \<Rightarrow> ('data \<Rightarrow> go_error + (logList \<times> time)) \<Rightarrow> time option \<Rightarrow>
     loglistsState \<Rightarrow> go_error option \<times> loglistsState" where
  "LoadCustomTestLogList lib filename readFile newFromJSON modTime st =
     (if filename = [] then (None, st)
      else case readFile of
        Inl e \<Rightarrow> (Some (Errorf (''failed to read custom test log list '' @ cu_quote lib filename @ '': '' @ errorString e)), st)
      | Inr data \<Rightarrow>
        (case newFromJSON data of
           Inl e \<Rightarrow> (Some (Errorf (''failed to parse custom test log list '' @ cu_quote lib filename @ '': '' @ errorString e)), st)
         | Inr (ll, timestamp) \<Rightarrow>
           (case validateLogList lib ll of
              Some e \<Rightarrow> (Some (Errorf (''invalid custom test log list '' @ cu_quote lib filename @ '': '' @ errorString e)), st)
            | None \<Rightarrow>
              (case registerSignatureVerifiers lib ll (lg_verifiers st) of
                 (Some e, verifiers) \<Rightarrow>
                   (Some (Errorf (''failed to register signature verifiers for custom test log list '' @ cu_quote lib filename @
                      '': '' @ errorString e)), st\<lparr>lg_verifiers := verifiers\<rparr>)
               | (None, verifiers) \<Rightarrow>
                   (None, st\<lparr>lg_verifiers := verifiers, lg_TestTLSLogs := ll, lg_customTestLogList := Some ll,
                      lg_TestTimestamp := (if timestamp = zeroTime
                        then (case modTime of Some t \<Rightarrow> t | None \<Rightarrow> timestamp) else timestamp)\<rparr>)))))"

end
