(* ===== verification/Loglists_Correct.thy ===== *)
theory Loglists_Correct
  imports Loglists
begin

text \<open>
  What the derived log lists contain: the lists of usable logs are exactly the logs that Chrome,
  Apple and Mozilla all list, with the latest of their dates and the narrowest of their intervals; a custom list
  that is accepted has only complete test logs.
\<close>

section \<open>What intersecting keeps\<close>

text \<open>
  The contract between the loops and the merge of one log into another: a merge keeps what
  identifies the log, and leaves it below both logs, in the sense that it is usable no earlier and
  accepts no more than they do. The two loops over RFC 6962 and tiled logs share the lemmas.
\<close>

lemma foldO_done:
  assumes "\<And>x D s s'. x \<in> set xs \<Longrightarrow> Q D s \<Longrightarrow> f x s = Ok s' \<Longrightarrow> Q (D \<union> E x) s'"
  shows "Q D s \<Longrightarrow> foldO f xs s = Ok s' \<Longrightarrow> Q (D \<union> (\<Union>x \<in> set xs. E x)) s'"
  using assms
proof (induction xs arbitrary: D s)
  case (Cons x xs)
  from Cons.prems(2) obtain s1 where s1: "f x s = Ok s1" "foldO f xs s1 = Ok s'" by (auto split: outcome.splits)
  have "Q (D \<union> E x) s1" using Cons.prems(1,3) s1(1) by auto
  then have "Q (D \<union> E x \<union> (\<Union>y \<in> set xs. E y)) s'" by (rule Cons.IH [OF _ s1(2)]) (use Cons.prems(3) in auto)
  then show ?case by (simp add: Un_assoc)
qed simp

definition keptFrom ::
  "('l \<Rightarrow> 'l \<Rightarrow> bool) \<Rightarrow> ('l \<Rightarrow> 'k) \<Rightarrow> ('l \<Rightarrow> 'l \<Rightarrow> bool) \<Rightarrow> 'l list set \<Rightarrow> 'l list \<Rightarrow> 'l list \<Rightarrow> bool" where
  "keptFrom matches ident below lists2 logs1 logs \<longleftrightarrow>
     (\<forall>l \<in> set logs. \<exists>l1 \<in> set logs1. ident l = ident l1 \<and> below l l1 \<and>
        (\<exists>logs2 \<in> lists2. find (matches l1) logs2 \<noteq> None) \<and>
        (\<forall>logs2 \<in> lists2. \<forall>l2. find (matches l1) logs2 = Some l2 \<longrightarrow> below l l2)) \<and>
     (\<forall>l1 \<in> set logs1. (\<exists>logs2 \<in> lists2. find (matches l1) logs2 \<noteq> None) \<longrightarrow> (\<exists>l \<in> set logs. ident l = ident l1))"

locale log_merge =
  fixes matches :: "'l \<Rightarrow> 'l \<Rightarrow> bool" and merge :: "'l \<Rightarrow> 'l \<Rightarrow> 'l outcome"
    and ident :: "'l \<Rightarrow> 'k" and below :: "'l \<Rightarrow> 'l \<Rightarrow> bool"
  assumes merge_ident: "merge l l2 = Ok l' \<Longrightarrow> ident l' = ident l"
    and merge_below: "merge l l2 = Ok l' \<Longrightarrow> below l' l2"
    and merge_keeps: "merge l l2 = Ok l' \<Longrightarrow> below l x \<Longrightarrow> below l' x"
    and below_refl: "below l l"
    and matches_ident: "ident l = ident l' \<Longrightarrow> matches l = matches l'"
    and below_trans: "below l l' \<Longrightarrow> below l' x \<Longrightarrow> ident l = ident l' \<Longrightarrow> below l x"
begin

definition storeOK :: "'l list \<Rightarrow> (nat \<times> 'l list) set \<Rightarrow> 'l list \<times> nat list \<Rightarrow> bool" where
  "storeOK logs1 D st \<longleftrightarrow>
     length (fst st) = length logs1 \<and> set (snd st) \<subseteq> {..<length logs1} \<and>
     (\<forall>i < length logs1. ident (fst st ! i) = ident (logs1 ! i) \<and> below (fst st ! i) (logs1 ! i) \<and>
        (\<forall>logs2 l2. (i, logs2) \<in> D \<and> find (matches (logs1 ! i)) logs2 = Some l2 \<longrightarrow>
           i \<in> set (snd st) \<and> below (fst st ! i) l2)) \<and>
     (\<forall>i \<in> set (snd st). \<exists>logs2. (i, logs2) \<in> D \<and> find (matches (logs1 ! i)) logs2 \<noteq> None)"

lemma storeOK_start: "storeOK logs1 {} (logs1, [])"
  by (simp add: storeOK_def below_refl)

lemma storeOKI:
  assumes "length (fst st) = length logs1" "set (snd st) \<subseteq> {..<length logs1}"
    and "\<And>j. j < length logs1 \<Longrightarrow> ident (fst st ! j) = ident (logs1 ! j)"
    and "\<And>j. j < length logs1 \<Longrightarrow> below (fst st ! j) (logs1 ! j)"
    and "\<And>j logs2 l2. j < length logs1 \<Longrightarrow> (j, logs2) \<in> D \<Longrightarrow> find (matches (logs1 ! j)) logs2 = Some l2 \<Longrightarrow>
      j \<in> set (snd st) \<and> below (fst st ! j) l2"
    and "\<And>j. j \<in> set (snd st) \<Longrightarrow> \<exists>logs2. (j, logs2) \<in> D \<and> find (matches (logs1 ! j)) logs2 \<noteq> None"
  shows "storeOK logs1 D st"
  using assms unfolding storeOK_def by blast

lemma storeOK_at:
  assumes "storeOK logs1 D st" "j < length logs1"
  shows "ident (fst st ! j) = ident (logs1 ! j)" and "below (fst st ! j) (logs1 ! j)"
    and "(j, logs) \<in> D \<Longrightarrow> find (matches (logs1 ! j)) logs = Some l2 \<Longrightarrow> j \<in> set (snd st) \<and> below (fst st ! j) l2"
  using assms unfolding storeOK_def by blast+

lemma storeOK_skip:
  assumes "storeOK logs1 D st" "find (matches (logs1 ! i)) logs2 = None"
  shows "storeOK logs1 (D \<union> {(i, logs2)}) st"
proof -
  have 1: "\<exists>logs. (j, logs) \<in> D \<union> {(i, logs2)} \<and> find (matches (logs1 ! j)) logs \<noteq> None" if "j \<in> set (snd st)" for j
    using assms(1) that unfolding storeOK_def by blast
  have 2: "j \<in> set (snd st) \<and> below (fst st ! j) l2"
    if "j < length logs1" "(j, logs) \<in> D \<union> {(i, logs2)}" "find (matches (logs1 ! j)) logs = Some l2" for j logs l2
    using that assms(2) storeOK_at(3) [OF assms(1) that(1)] by auto
  have "length (fst st) = length logs1" "set (snd st) \<subseteq> {..<length logs1}" using assms(1) by (simp_all add: storeOK_def)
  then show ?thesis using 1 2 storeOK_at(1,2) [OF assms(1)] by (intro storeOKI)
qed

lemma storeOK_merge:
  assumes "storeOK logs1 D st" "i < length logs1" "find (matches (logs1 ! i)) logs2 = Some l2" "merge (fst st ! i) l2 = Ok l"
  shows "storeOK logs1 (D \<union> {(i, logs2)}) ((fst st)[i := l], snd st @ [i])"
proof -
  let ?st = "((fst st)[i := l], snd st @ [i])"
  have len: "length (fst st) = length logs1" using assms(1) by (simp add: storeOK_def)
  have at: "fst ?st ! j = (if j = i then l else fst st ! j)" if "j < length logs1" for j
    using len that by simp
  note facts = merge_ident [OF assms(4)] merge_below [OF assms(4)] merge_keeps [OF assms(4)]
  have 1: "ident (fst ?st ! j) = ident (logs1 ! j)" "below (fst ?st ! j) (logs1 ! j)" if j: "j < length logs1" for j
    using storeOK_at(1,2) [OF assms(1) j] facts(1,3) at [OF j] by (cases "j = i"; simp)+
  have 2: "j \<in> set (snd ?st) \<and> below (fst ?st ! j) l'"
    if j: "j < length logs1" and m: "(j, logs) \<in> D \<union> {(i, logs2)}" "find (matches (logs1 ! j)) logs = Some l'" for j logs l'
  proof (cases "(j, logs) \<in> D")
    case True
    then show ?thesis using storeOK_at(3) [OF assms(1) j True m(2)] facts(3) at [OF j] by (cases "j = i") auto
  next
    case False
    then show ?thesis using m assms(3) facts(2) at [OF j] by auto
  qed
  have 3: "\<exists>logs. (j, logs) \<in> D \<union> {(i, logs2)} \<and> find (matches (logs1 ! j)) logs \<noteq> None" if j: "j \<in> set (snd ?st)" for j
  proof (cases "j = i")
    case True
    then show ?thesis using assms(3) by auto
  next
    case False
    then have "j \<in> set (snd st)" using j by simp
    then show ?thesis using assms(1) unfolding storeOK_def by blast
  qed
  have "set (snd ?st) \<subseteq> {..<length logs1}" using assms(1,2) by (simp add: storeOK_def)
  moreover have "length (fst ?st) = length logs1" using len by simp
  ultimately show ?thesis using 1 2 3 by (intro storeOKI)
qed

lemma storeOK_step:
  assumes "storeOK logs1 D st" "i < length logs1" "keepMatch matches merge logs2 i st = Ok st'"
  shows "storeOK logs1 (D \<union> {(i, logs2)}) st'"
proof -
  have m: "matches (fst st ! i) = matches (logs1 ! i)" using storeOK_at(1) [OF assms(1,2)] by (rule matches_ident)
  show ?thesis
  proof (cases "find (matches (logs1 ! i)) logs2")
    case None
    then show ?thesis using assms(3) m storeOK_skip [OF assms(1) None] by (simp add: keepMatch_def)
  next
    case (Some l2)
    then obtain l where "merge (fst st ! i) l2 = Ok l" "st' = ((fst st)[i := l], snd st @ [i])"
      using assms(3) m by (auto simp: keepMatch_def split: outcome.splits)
    then show ?thesis using storeOK_merge [OF assms(1,2) Some] by simp
  qed
qed

lemma storeOK_kept:
  assumes "storeOK logs1 D st" and "\<And>i logs2. (i, logs2) \<in> D \<longleftrightarrow> i < length logs1 \<and> logs2 \<in> lists2"
  shows "keptFrom matches ident below lists2 logs1 (pickAll st)"
proof -
  have "\<exists>l1 \<in> set logs1. ident l = ident l1 \<and> below l l1 \<and> (\<exists>logs2 \<in> lists2. find (matches l1) logs2 \<noteq> None) \<and>
      (\<forall>logs2 \<in> lists2. \<forall>l2. find (matches l1) logs2 = Some l2 \<longrightarrow> below l l2)" if "l \<in> set (pickAll st)" for l
  proof -
    obtain i where i: "i \<in> set (snd st)" "l = fst st ! i" using \<open>l \<in> set (pickAll st)\<close> by (auto simp: pickAll_def)
    have "i < length logs1" using assms(1) i(1) by (auto simp: storeOK_def)
    moreover have "\<exists>logs2 \<in> lists2. find (matches (logs1 ! i)) logs2 \<noteq> None"
      using assms i(1) unfolding storeOK_def by blast
    moreover have "ident l = ident (logs1 ! i)" "below l (logs1 ! i)"
      "\<forall>logs2 \<in> lists2. \<forall>l2. find (matches (logs1 ! i)) logs2 = Some l2 \<longrightarrow> below l l2"
      using assms calculation(1) i(2) unfolding storeOK_def by blast+
    ultimately show ?thesis by (intro bexI [of _ "logs1 ! i"]) simp_all
  qed
  moreover have "\<exists>l \<in> set (pickAll st). ident l = ident l1"
    if l1: "l1 \<in> set logs1" "\<exists>logs2 \<in> lists2. find (matches l1) logs2 \<noteq> None" for l1
  proof -
    obtain i where i: "i < length logs1" "l1 = logs1 ! i" using l1(1) by (auto simp: in_set_conv_nth)
    then have "i \<in> set (snd st)" "ident (fst st ! i) = ident l1" using assms l1(2) unfolding storeOK_def by auto
    then show ?thesis by (auto simp: pickAll_def)
  qed
  ultimately show ?thesis unfolding keptFrom_def by blast
qed

text \<open>The loops in the order operator, log (RFC 6962) and in the order log, operator (tiled).\<close>

lemma operators_first:
  assumes "foldO (\<lambda>op. foldO (keepMatch matches merge (logsOf op)) [0..<length logs1]) ops (logs1, []) = Ok st"
  shows "keptFrom matches ident below (logsOf ` set ops) logs1 (pickAll st)"
proof -
  have inner: "storeOK logs1 (D \<union> (\<Union>i \<in> set [0..<length logs1]. {(i, logsOf op)})) s'"
    if "storeOK logs1 D s" "foldO (keepMatch matches merge (logsOf op)) [0..<length logs1] s = Ok s'" for D s s' op
    by (rule foldO_done [where Q = "storeOK logs1" and E = "\<lambda>i. {(i, logsOf op)}", OF _ that]) (rule storeOK_step, simp_all)
  have "storeOK logs1 ({} \<union> (\<Union>op \<in> set ops. \<Union>i \<in> set [0..<length logs1]. {(i, logsOf op)})) st"
    by (rule foldO_done [where Q = "storeOK logs1" and E = "\<lambda>op. \<Union>i \<in> set [0..<length logs1]. {(i, logsOf op)}", OF _ storeOK_start assms])
      (rule inner)
  then show ?thesis by (rule storeOK_kept) auto
qed

lemma logs_first:
  assumes "foldO (\<lambda>i. foldO (\<lambda>op. keepMatch matches merge (logsOf op) i) ops) [0..<length logs1] (logs1, []) = Ok st"
  shows "keptFrom matches ident below (logsOf ` set ops) logs1 (pickAll st)"
proof -
  have inner: "storeOK logs1 (D \<union> (\<Union>op \<in> set ops. {(i, logsOf op)})) s'"
    if "i \<in> set [0..<length logs1]" "storeOK logs1 D s" "foldO (\<lambda>op. keepMatch matches merge (logsOf op) i) ops s = Ok s'" for D s s' i
    by (rule foldO_done [where Q = "storeOK logs1" and E = "\<lambda>op. {(i, logsOf op)}", OF _ that(2,3)])
      (rule storeOK_step, use that(1) in simp_all)
  have "storeOK logs1 ({} \<union> (\<Union>i \<in> set [0..<length logs1]. \<Union>op \<in> set ops. {(i, logsOf op)})) st"
    by (rule foldO_done [where Q = "storeOK logs1" and E = "\<lambda>i. \<Union>op \<in> set ops. {(i, logsOf op)}", OF _ storeOK_start assms])
      (rule inner)
  then show ?thesis by (rule storeOK_kept) auto
qed

text \<open>Intersecting twice: what is kept is below a log of each of the three lists, and nothing else is lost.\<close>

lemma kept_twice:
  assumes "keptFrom matches ident below listsA logs1 logs" "keptFrom matches ident below listsM logs logs'"
  shows "l \<in> set logs' \<Longrightarrow> \<exists>l1 \<in> set logs1. ident l = ident l1 \<and> below l l1 \<and>
      (\<exists>la \<in> listsA. \<exists>a \<in> set la. matches l1 a \<and> below l a) \<and> (\<exists>lm \<in> listsM. \<exists>m \<in> set lm. matches l1 m \<and> below l m)"
    and "l1 \<in> set logs1 \<Longrightarrow> la \<in> listsA \<Longrightarrow> a \<in> set la \<Longrightarrow> matches l1 a \<Longrightarrow> lm \<in> listsM \<Longrightarrow> m \<in> set lm \<Longrightarrow> matches l1 m \<Longrightarrow>
      \<exists>l \<in> set logs'. ident l = ident l1"
proof -
  assume "l \<in> set logs'"
  then obtain l' lm m where l': "l' \<in> set logs" "ident l = ident l'" "below l l'" "lm \<in> listsM" "find (matches l') lm = Some m" "below l m"
    using assms(2) unfolding keptFrom_def by fastforce
  obtain l1 la a where l1: "l1 \<in> set logs1" "ident l' = ident l1" "below l' l1" "la \<in> listsA" "find (matches l1) la = Some a" "below l' a"
    using assms(1) l'(1) unfolding keptFrom_def by fastforce
  have "a \<in> set la \<and> matches l1 a" "m \<in> set lm \<and> matches l1 m"
    using l1(5) l'(5) matches_ident [OF l1(2)] by (auto simp: find_Some_iff)
  moreover have "below l l1" "below l a" using below_trans [OF l'(3) _ l'(2)] l1(3,6) by auto
  ultimately show "\<exists>l1 \<in> set logs1. ident l = ident l1 \<and> below l l1 \<and>
      (\<exists>la \<in> listsA. \<exists>a \<in> set la. matches l1 a \<and> below l a) \<and> (\<exists>lm \<in> listsM. \<exists>m \<in> set lm. matches l1 m \<and> below l m)"
    using l1 l' by auto
next
  assume a: "l1 \<in> set logs1" "la \<in> listsA" "a \<in> set la" "matches l1 a" and m: "lm \<in> listsM" "m \<in> set lm" "matches l1 m"
  have "find (matches l1) la \<noteq> None" "find (matches l1) lm \<noteq> None" using a m by (auto simp: find_None_iff)
  then obtain l' where l': "l' \<in> set logs" "ident l' = ident l1" using assms(1) a(1,2) unfolding keptFrom_def by blast
  have "find (matches l') lm \<noteq> None" using \<open>find (matches l1) lm \<noteq> None\<close> matches_ident [OF l'(2)] by simp
  then show "\<exists>l \<in> set logs'. ident l = ident l1" using assms(2) l' m(1) unfolding keptFrom_def by fastforce
qed

lemma kept_twice_operators:
  assumes "\<forall>op' \<in> B. \<exists>op1 \<in> C. keptFrom matches ident below (logsOf ` A) (logsOf op1) (logsOf op')"
    and "\<forall>op1 \<in> C. \<exists>op'. keptFrom matches ident below (logsOf ` A) (logsOf op1) (logsOf op') \<and> (op' \<in> B \<or> logsOf op' = [])"
    and "\<forall>op \<in> U. \<exists>op' \<in> B. keptFrom matches ident below (logsOf ` M) (logsOf op') (logsOf op)"
    and "\<forall>op' \<in> B. \<exists>op. keptFrom matches ident below (logsOf ` M) (logsOf op') (logsOf op) \<and> (op \<in> U \<or> logsOf op = [])"
  shows "op \<in> U \<Longrightarrow> l \<in> set (logsOf op) \<Longrightarrow>
      \<exists>op1 \<in> C. \<exists>l1 \<in> set (logsOf op1). ident l = ident l1 \<and> below l l1 \<and>
        (\<exists>op2 \<in> A. \<exists>a \<in> set (logsOf op2). matches l1 a \<and> below l a) \<and> (\<exists>op2 \<in> M. \<exists>m \<in> set (logsOf op2). matches l1 m \<and> below l m)"
    and "op1 \<in> C \<Longrightarrow> l1 \<in> set (logsOf op1) \<Longrightarrow> opA \<in> A \<Longrightarrow> a \<in> set (logsOf opA) \<Longrightarrow> matches l1 a \<Longrightarrow>
      opM \<in> M \<Longrightarrow> m \<in> set (logsOf opM) \<Longrightarrow> matches l1 m \<Longrightarrow> \<exists>op \<in> U. \<exists>l \<in> set (logsOf op). ident l = ident l1"
proof -
  assume op: "op \<in> U" "l \<in> set (logsOf op)"
  obtain op' where op': "op' \<in> B" "keptFrom matches ident below (logsOf ` M) (logsOf op') (logsOf op)" using assms(3) op(1) by blast
  obtain op1 where op1: "op1 \<in> C" "keptFrom matches ident below (logsOf ` A) (logsOf op1) (logsOf op')" using assms(1) op'(1) by blast
  from kept_twice(1) [OF op1(2) op'(2) op(2)] op1(1)
  show "\<exists>op1 \<in> C. \<exists>l1 \<in> set (logsOf op1). ident l = ident l1 \<and> below l l1 \<and>
      (\<exists>op2 \<in> A. \<exists>a \<in> set (logsOf op2). matches l1 a \<and> below l a) \<and> (\<exists>op2 \<in> M. \<exists>m \<in> set (logsOf op2). matches l1 m \<and> below l m)"
    by fastforce
next
  assume op1: "op1 \<in> C" "l1 \<in> set (logsOf op1)" and a: "opA \<in> A" "a \<in> set (logsOf opA)" "matches l1 a"
    and m: "opM \<in> M" "m \<in> set (logsOf opM)" "matches l1 m"
  obtain op' where op': "keptFrom matches ident below (logsOf ` A) (logsOf op1) (logsOf op')" "op' \<in> B \<or> logsOf op' = []"
    using assms(2) op1(1) by blast
  have "find (matches l1) (logsOf opA) \<noteq> None" using a by (auto simp: find_None_iff)
  then have "logsOf op' \<noteq> []" using op'(1) op1(2) a(1) unfolding keptFrom_def by fastforce
  then have "op' \<in> B" using op'(2) by blast
  then obtain op where op: "keptFrom matches ident below (logsOf ` M) (logsOf op') (logsOf op)" "op \<in> U \<or> logsOf op = []"
    using assms(4) by blast
  obtain l where "l \<in> set (logsOf op)" "ident l = ident l1"
    using kept_twice(2) [OF op'(1) op(1) op1(2) imageI [OF a(1)] a(2,3) imageI [OF m(1)] m(2,3)] by blast
  then show "\<exists>op \<in> U. \<exists>l \<in> set (logsOf op). ident l = ident l1" using op(2) by auto
qed

end

text \<open>What a log of the second list allows, in terms of usability and of expiry dates.\<close>

definition usableSince :: "logStates option \<Rightarrow> time option" where
  "usableSince state = (case state of None \<Rightarrow> None | Some s \<Rightarrow> ls_Usable s)"

definition noEarlier :: "logStates option \<Rightarrow> logStates option \<Rightarrow> bool" where
  "noEarlier state1 state2 \<longleftrightarrow>
     (case (usableSince state1, usableSince state2) of (Some t1, Some t2) \<Rightarrow> t2 \<le> t1 | _ \<Rightarrow> True)"

definition noWider :: "temporalInterval option \<Rightarrow> temporalInterval option \<Rightarrow> bool" where
  "noWider interval1 interval2 \<longleftrightarrow>
     (case (interval1, interval2) of
        (Some i1, Some i2) \<Rightarrow> ti_StartInclusive i2 \<le> ti_StartInclusive i1 \<and> ti_EndExclusive i1 \<le> ti_EndExclusive i2
      | _ \<Rightarrow> True)"

definition belowLog :: "ctLog \<Rightarrow> ctLog \<Rightarrow> bool" where
  "belowLog l l2 \<longleftrightarrow> noEarlier (log_State l) (log_State l2) \<and> noWider (log_TemporalInterval l) (log_TemporalInterval l2)"

definition belowTiledLog :: "tiledLog \<Rightarrow> tiledLog \<Rightarrow> bool" where
  "belowTiledLog l l2 \<longleftrightarrow> noEarlier (tl_State l) (tl_State l2) \<and> noWider (tl_TemporalInterval l) (tl_TemporalInterval l2)"

text \<open>What a merge keeps: all other fields, and whether there is a usable timestamp and an interval at all.\<close>

definition logIdent :: "ctLog \<Rightarrow> ctLog \<times> bool \<times> bool" where
  "logIdent l = (l\<lparr>log_State := None, log_TemporalInterval := None\<rparr>, usableSince (log_State l) = None, log_TemporalInterval l = None)"

definition tiledLogIdent :: "tiledLog \<Rightarrow> tiledLog \<times> bool \<times> bool" where
  "tiledLogIdent l = (l\<lparr>tl_State := None, tl_TemporalInterval := None\<rparr>, usableSince (tl_State l) = None, tl_TemporalInterval l = None)"

lemma mergeState_facts:
  assumes "mergeState s1 s2 = Ok s"
  shows "noEarlier s s2" and "noEarlier s1 x \<Longrightarrow> noEarlier s x" and "usableSince s = None \<longleftrightarrow> usableSince s1 = None"
  using assms by (auto simp: mergeState_def noEarlier_def usableSince_def split: option.splits if_splits)

lemma mergeInterval_facts:
  "noWider (mergeInterval i1 i2) i2" "noWider i1 x \<Longrightarrow> noWider (mergeInterval i1 i2) x"
  "mergeInterval i1 i2 = None \<longleftrightarrow> i1 = None"
  by (auto simp: mergeInterval_def noWider_def Let_def split: option.splits)

lemma noEarlier_refl [simp]: "noEarlier s s"
  by (simp add: noEarlier_def split: option.split)

lemma noWider_refl [simp]: "noWider i i"
  by (simp add: noWider_def split: option.split)

lemma noEarlier_trans: "noEarlier s s' \<Longrightarrow> noEarlier s' x \<Longrightarrow> (usableSince s = None \<longleftrightarrow> usableSince s' = None) \<Longrightarrow> noEarlier s x"
  by (auto simp: noEarlier_def split: option.splits)

lemma noWider_trans: "noWider i i' \<Longrightarrow> noWider i' x \<Longrightarrow> (i = None \<longleftrightarrow> i' = None) \<Longrightarrow> noWider i x"
  by (auto simp: noWider_def split: option.splits)

interpretation rfc6962: log_merge sameLogID mergeLog logIdent belowLog
proof
  fix l l' assume "logIdent l = logIdent l'"
  then have "log_LogID l = log_LogID l' \<and> log_URL l = log_URL l'" by (cases l; cases l') (simp add: logIdent_def)
  then show "sameLogID l = sameLogID l'" by (intro ext) (simp add: sameLogID_def)
qed (auto simp: mergeLog_def logIdent_def belowLog_def mergeState_facts mergeInterval_facts split: outcome.splits
    intro: noEarlier_trans noWider_trans)

interpretation tiled: log_merge sameTiledLogID mergeTiledLog tiledLogIdent belowTiledLog
proof
  fix l l' assume "tiledLogIdent l = tiledLogIdent l'"
  then have "tl_LogID l = tl_LogID l'" by (cases l; cases l') (simp add: tiledLogIdent_def)
  then show "sameTiledLogID l = sameTiledLogID l'" by (intro ext) (simp add: sameTiledLogID_def)
qed (auto simp: mergeTiledLog_def tiledLogIdent_def belowTiledLog_def mergeState_facts mergeInterval_facts split: outcome.splits
    intro: noEarlier_trans noWider_trans)

text \<open>One operator of the result comes from one operator of the first list.\<close>

definition intersectedOp :: "logList \<Rightarrow> operator \<Rightarrow> operator \<Rightarrow> bool" where
  "intersectedOp ll2 op1 op \<longleftrightarrow>
     op_Name op = op_Name op1 \<and>
     keptFrom sameLogID logIdent belowLog (op_Logs ` set ll2) (op_Logs op1) (op_Logs op) \<and>
     keptFrom sameTiledLogID tiledLogIdent belowTiledLog (op_TiledLogs ` set ll2) (op_TiledLogs op1) (op_TiledLogs op)"

definition noLogs :: "operator \<Rightarrow> bool" where
  "noLogs op \<longleftrightarrow> op_Logs op = [] \<and> op_TiledLogs op = []"

lemma intersectOperator_spec:
  assumes "intersectOperator ll2 op1 ll = Ok ll'"
  shows "\<exists>op. intersectedOp ll2 op1 op \<and> ll' = (if noLogs op then ll else ll @ [op])"
proof -
  obtain st st' where st: "intersectLogs ll2 (op_Logs op1) = Ok st" "intersectTiledLogs ll2 (op_TiledLogs op1) = Ok st'"
    using assms by (auto simp: intersectOperator_def split: outcome.splits)
  let ?op = "op1\<lparr>op_Logs := pickAll st, op_TiledLogs := pickAll st'\<rparr>"
  have "intersectedOp ll2 op1 ?op"
    using rfc6962.operators_first [OF st(1) [unfolded intersectLogs_def]] tiled.logs_first [OF st(2) [unfolded intersectTiledLogs_def]]
    by (simp add: intersectedOp_def)
  moreover have "ll' = (if noLogs ?op then ll else ll @ [?op])"
    using assms st by (auto simp: intersectOperator_def noLogs_def)
  ultimately show ?thesis by blast
qed

lemma intersect_spec:
  assumes "intersect ll1 ll2 = Ok ll"
  shows "op \<in> set ll \<Longrightarrow> \<exists>op1 \<in> set ll1. intersectedOp ll2 op1 op"
    and "op1 \<in> set ll1 \<Longrightarrow> \<exists>op. intersectedOp ll2 op1 op \<and> (op \<in> set ll \<or> noLogs op)"
proof -
  define Q where "Q D s \<longleftrightarrow> (\<forall>op \<in> set s. \<exists>op1 \<in> D. intersectedOp ll2 op1 op) \<and>
      (\<forall>op1 \<in> D. \<exists>op. intersectedOp ll2 op1 op \<and> (op \<in> set s \<or> noLogs op))" for D s
  have step: "Q (D \<union> {op1}) s'" if q: "Q D s" and s': "intersectOperator ll2 op1 s = Ok s'" for op1 D s s'
  proof -
    obtain op where op: "intersectedOp ll2 op1 op" "s' = (if noLogs op then s else s @ [op])"
      using intersectOperator_spec [OF s'] by blast
    have "set s \<subseteq> set s'" "set s' \<subseteq> insert op (set s)" "op \<in> set s' \<or> noLogs op" using op(2) by auto
    note s = this
    have "\<exists>o1 \<in> D \<union> {op1}. intersectedOp ll2 o1 p" if "p \<in> set s'" for p
    proof (cases "p = op")
      case True
      then show ?thesis using op(1) by blast
    next
      case False
      then have "p \<in> set s" using s(2) \<open>p \<in> set s'\<close> by blast
      then show ?thesis using q unfolding Q_def by blast
    qed
    moreover have "\<exists>p. intersectedOp ll2 o1 p \<and> (p \<in> set s' \<or> noLogs p)" if "o1 \<in> D \<union> {op1}" for o1
    proof (cases "o1 = op1")
      case True
      then show ?thesis using op(1) s(3) by blast
    next
      case False
      then have "o1 \<in> D" using \<open>o1 \<in> D \<union> {op1}\<close> by blast
      then show ?thesis using q s(1) unfolding Q_def by blast
    qed
    ultimately show ?thesis unfolding Q_def by blast
  qed
  have "Q ({} \<union> (\<Union>x \<in> set ll1. {x})) ll"
    by (rule foldO_done [where Q = Q and E = "\<lambda>x. {x}", OF _ _ assms [unfolded intersect_def]])
      (rule step, assumption+, simp add: Q_def)
  then show "op \<in> set ll \<Longrightarrow> \<exists>op1 \<in> set ll1. intersectedOp ll2 op1 op"
    "op1 \<in> set ll1 \<Longrightarrow> \<exists>op. intersectedOp ll2 op1 op \<and> (op \<in> set ll \<or> noLogs op)"
    by (auto simp: Q_def)
qed

text \<open>Renaming leaves everything but the description.\<close>

lemma rename_log [simp]:
  "log_LogID (useCrtshLogNameForRFC6962Log crtsh l) = log_LogID l" "log_URL (useCrtshLogNameForRFC6962Log crtsh l) = log_URL l"
  "belowLog (useCrtshLogNameForRFC6962Log crtsh l) x = belowLog l x"
  by (simp_all add: useCrtshLogNameForRFC6962Log_def belowLog_def split: option.split)

lemma rename_tiledLog [simp]:
  "tl_LogID (useCrtshLogNameForStaticLog crtsh l) = tl_LogID l" "tl_SubmissionURL (useCrtshLogNameForStaticLog crtsh l) = tl_SubmissionURL l"
  "belowTiledLog (useCrtshLogNameForStaticLog crtsh l) x = belowTiledLog l x"
  by (simp_all add: useCrtshLogNameForStaticLog_def belowTiledLog_def split: option.split)

text \<open>A log of the usable list, with the logs of the three programs it stands for.\<close>

definition usableInAll :: "logList \<Rightarrow> logList \<Rightarrow> logList \<Rightarrow> ctLog \<Rightarrow> bool" where
  "usableInAll chrome apple mozilla l \<longleftrightarrow>
     (\<exists>c \<in> set (allLogs chrome). log_LogID l = log_LogID c \<and> log_URL l = log_URL c \<and> \<not> strContains (log_URL c) ''bogus'' \<and> belowLog l c) \<and>
     (\<exists>a \<in> set (allLogs apple). log_LogID l = log_LogID a \<and> belowLog l a) \<and>
     (\<exists>m \<in> set (allLogs mozilla). log_LogID l = log_LogID m \<and> belowLog l m)"

definition tiledUsableInAll :: "logList \<Rightarrow> logList \<Rightarrow> logList \<Rightarrow> tiledLog \<Rightarrow> bool" where
  "tiledUsableInAll chrome apple mozilla l \<longleftrightarrow>
     (\<exists>c \<in> set (allTiledLogs chrome). tl_LogID l = tl_LogID c \<and> tl_SubmissionURL l = tl_SubmissionURL c \<and> belowTiledLog l c) \<and>
     (\<exists>a \<in> set (allTiledLogs apple). tl_LogID l = tl_LogID a \<and> belowTiledLog l a) \<and>
     (\<exists>m \<in> set (allTiledLogs mozilla). tl_LogID l = tl_LogID m \<and> belowTiledLog l m)"

definition usableIDs :: "logList \<Rightarrow> logList \<Rightarrow> logList \<Rightarrow> bytes set" where
  "usableIDs chrome apple mozilla =
     {log_LogID c | c. c \<in> set (allLogs chrome) \<and> \<not> strContains (log_URL c) ''bogus''} \<inter>
     log_LogID ` set (allLogs apple) \<inter> log_LogID ` set (allLogs mozilla)"

definition usableTiledIDs :: "logList \<Rightarrow> logList \<Rightarrow> logList \<Rightarrow> bytes set" where
  "usableTiledIDs chrome apple mozilla =
     tl_LogID ` set (allTiledLogs chrome) \<inter> tl_LogID ` set (allTiledLogs apple) \<inter> tl_LogID ` set (allTiledLogs mozilla)"

lemma logIdent_ids: "logIdent l = logIdent l' \<Longrightarrow> log_LogID l = log_LogID l' \<and> log_URL l = log_URL l'"
  by (cases l; cases l') (simp add: logIdent_def)

lemma tiledLogIdent_ids: "tiledLogIdent l = tiledLogIdent l' \<Longrightarrow> tl_LogID l = tl_LogID l' \<and> tl_SubmissionURL l = tl_SubmissionURL l'"
  by (cases l; cases l') (simp add: tiledLogIdent_def)

lemma allLogs_mem: "op \<in> set ll \<Longrightarrow> l \<in> set (op_Logs op) \<Longrightarrow> l \<in> set (allLogs ll)"
  "op \<in> set ll \<Longrightarrow> t \<in> set (op_TiledLogs op) \<Longrightarrow> t \<in> set (allTiledLogs ll)"
  by (auto simp: allLogs_def allTiledLogs_def)

lemma determineUsable_logs:
  assumes "determineUsableTLSLogs cl = Ok ll"
    and "chrome = cl_SelectByStatus cl [UsableLogStatus] (cl_GstaticV3All cl)"
    and "apple = cl_SelectByStatus cl [UsableLogStatus] (cl_AppleCurrent cl)"
    and "mozilla = cl_SelectByStatus cl [QualifiedLogStatus, UsableLogStatus] (cl_MozillaV3Known cl)"
  shows "list_all (usableInAll chrome apple mozilla) (allLogs ll)" and "log_LogID ` set (allLogs ll) = usableIDs chrome apple mozilla"
    and "list_all (tiledUsableInAll chrome apple mozilla) (allTiledLogs ll)" and "tl_LogID ` set (allTiledLogs ll) = usableTiledIDs chrome apple mozilla"
proof -
  obtain both usable where b: "intersect chrome apple = Ok both" "intersect both mozilla = Ok usable"
    "ll = useCrtshLogNames (cl_CrtshV3All cl) usable"
    using assms by (auto simp: determineUsableTLSLogs_def Let_def split: outcome.splits)
  note i = intersect_spec [OF b(1)] and j = intersect_spec [OF b(2)]
  have logs: "set (allLogs ll) = useCrtshLogNameForRFC6962Log (cl_CrtshV3All cl) ` set (allLogs usable)"
    "set (allTiledLogs ll) = useCrtshLogNameForStaticLog (cl_CrtshV3All cl) ` set (allTiledLogs usable)"
    by (auto simp: b(3) useCrtshLogNames_def allLogs_def allTiledLogs_def)
  have rfc: "\<forall>op' \<in> set both. \<exists>op1 \<in> set chrome. keptFrom sameLogID logIdent belowLog (op_Logs ` set apple) (op_Logs op1) (op_Logs op')"
    "\<forall>op1 \<in> set chrome. \<exists>op'. keptFrom sameLogID logIdent belowLog (op_Logs ` set apple) (op_Logs op1) (op_Logs op') \<and> (op' \<in> set both \<or> op_Logs op' = [])"
    "\<forall>op \<in> set usable. \<exists>op' \<in> set both. keptFrom sameLogID logIdent belowLog (op_Logs ` set mozilla) (op_Logs op') (op_Logs op)"
    "\<forall>op' \<in> set both. \<exists>op. keptFrom sameLogID logIdent belowLog (op_Logs ` set mozilla) (op_Logs op') (op_Logs op) \<and> (op \<in> set usable \<or> op_Logs op = [])"
    using i j unfolding intersectedOp_def noLogs_def by blast+
  have tiled: "\<forall>op' \<in> set both. \<exists>op1 \<in> set chrome. keptFrom sameTiledLogID tiledLogIdent belowTiledLog (op_TiledLogs ` set apple) (op_TiledLogs op1) (op_TiledLogs op')"
    "\<forall>op1 \<in> set chrome. \<exists>op'. keptFrom sameTiledLogID tiledLogIdent belowTiledLog (op_TiledLogs ` set apple) (op_TiledLogs op1) (op_TiledLogs op') \<and> (op' \<in> set both \<or> op_TiledLogs op' = [])"
    "\<forall>op \<in> set usable. \<exists>op' \<in> set both. keptFrom sameTiledLogID tiledLogIdent belowTiledLog (op_TiledLogs ` set mozilla) (op_TiledLogs op') (op_TiledLogs op)"
    "\<forall>op' \<in> set both. \<exists>op. keptFrom sameTiledLogID tiledLogIdent belowTiledLog (op_TiledLogs ` set mozilla) (op_TiledLogs op') (op_TiledLogs op) \<and> (op \<in> set usable \<or> op_TiledLogs op = [])"
    using i j unfolding intersectedOp_def noLogs_def by blast+
  have 1: "usableInAll chrome apple mozilla l" if u: "l \<in> set (allLogs usable)" for l
  proof -
    obtain op where "op \<in> set usable" "l \<in> set (op_Logs op)" using u by (auto simp: allLogs_def)
    from rfc6962.kept_twice_operators(1) [OF rfc this] obtain op1 l1 opA a opM m where x:
      "op1 \<in> set chrome" "l1 \<in> set (op_Logs op1)" "logIdent l = logIdent l1" "belowLog l l1"
      "opA \<in> set apple" "a \<in> set (op_Logs opA)" "sameLogID l1 a" "belowLog l a"
      "opM \<in> set mozilla" "m \<in> set (op_Logs opM)" "sameLogID l1 m" "belowLog l m" by blast
    have "log_LogID l = log_LogID l1" "log_URL l = log_URL l1" using logIdent_ids [OF x(3)] by simp_all
    moreover from this have "log_LogID l = log_LogID a" "log_LogID l = log_LogID m" "\<not> strContains (log_URL l1) ''bogus''"
      using x(7,11) by (simp_all add: sameLogID_def)
    ultimately show ?thesis unfolding usableInAll_def
      using x(4,8,12) allLogs_mem(1) [OF x(1,2)] allLogs_mem(1) [OF x(5,6)] allLogs_mem(1) [OF x(9,10)] by blast
  qed
  have 2: "\<exists>l \<in> set (allLogs usable). log_LogID l = x" if u: "x \<in> usableIDs chrome apple mozilla" for x
  proof -
    obtain op1 l1 opA a opM m where x: "op1 \<in> set chrome" "l1 \<in> set (op_Logs op1)" "opA \<in> set apple" "a \<in> set (op_Logs opA)"
      "opM \<in> set mozilla" "m \<in> set (op_Logs opM)" "x = log_LogID l1" "sameLogID l1 a" "sameLogID l1 m"
      using u by (auto simp: usableIDs_def sameLogID_def allLogs_def)
    from rfc6962.kept_twice_operators(2) [OF rfc x(1-4,8,5,6,9)] obtain op l where
      "op \<in> set usable" "l \<in> set (op_Logs op)" "logIdent l = logIdent l1" by blast
    then show ?thesis using x(7) logIdent_ids allLogs_mem(1) by metis
  qed
  have 3: "tiledUsableInAll chrome apple mozilla l" if u: "l \<in> set (allTiledLogs usable)" for l
  proof -
    obtain op where "op \<in> set usable" "l \<in> set (op_TiledLogs op)" using u by (auto simp: allTiledLogs_def)
    from tiled.kept_twice_operators(1) [OF tiled this] obtain op1 l1 opA a opM m where x:
      "op1 \<in> set chrome" "l1 \<in> set (op_TiledLogs op1)" "tiledLogIdent l = tiledLogIdent l1" "belowTiledLog l l1"
      "opA \<in> set apple" "a \<in> set (op_TiledLogs opA)" "sameTiledLogID l1 a" "belowTiledLog l a"
      "opM \<in> set mozilla" "m \<in> set (op_TiledLogs opM)" "sameTiledLogID l1 m" "belowTiledLog l m" by blast
    have "tl_LogID l = tl_LogID l1" "tl_SubmissionURL l = tl_SubmissionURL l1" using tiledLogIdent_ids [OF x(3)] by simp_all
    moreover from this have "tl_LogID l = tl_LogID a" "tl_LogID l = tl_LogID m"
      using x(7,11) by (simp_all add: sameTiledLogID_def)
    ultimately show ?thesis unfolding tiledUsableInAll_def
      using x(4,8,12) allLogs_mem(2) [OF x(1,2)] allLogs_mem(2) [OF x(5,6)] allLogs_mem(2) [OF x(9,10)] by blast
  qed
  have 4: "\<exists>l \<in> set (allTiledLogs usable). tl_LogID l = x" if u: "x \<in> usableTiledIDs chrome apple mozilla" for x
  proof -
    obtain op1 l1 opA a opM m where x: "op1 \<in> set chrome" "l1 \<in> set (op_TiledLogs op1)" "opA \<in> set apple" "a \<in> set (op_TiledLogs opA)"
      "opM \<in> set mozilla" "m \<in> set (op_TiledLogs opM)" "x = tl_LogID l1" "sameTiledLogID l1 a" "sameTiledLogID l1 m"
      using u by (auto simp: usableTiledIDs_def sameTiledLogID_def allTiledLogs_def)
    from tiled.kept_twice_operators(2) [OF tiled x(1-4,8,5,6,9)] obtain op l where
      "op \<in> set usable" "l \<in> set (op_TiledLogs op)" "tiledLogIdent l = tiledLogIdent l1" by blast
    then show ?thesis using x(7) tiledLogIdent_ids allLogs_mem(2) by metis
  qed
  show "list_all (usableInAll chrome apple mozilla) (allLogs ll)"
    unfolding list_all_iff logs using 1 by (auto simp: usableInAll_def)
  show "list_all (tiledUsableInAll chrome apple mozilla) (allTiledLogs ll)"
    unfolding list_all_iff logs using 3 by (auto simp: tiledUsableInAll_def)
  show "log_LogID ` set (allLogs ll) = usableIDs chrome apple mozilla"
    unfolding logs image_image using 1 2 by (auto simp: usableInAll_def usableIDs_def) (metis imageI)+
  show "tl_LogID ` set (allTiledLogs ll) = usableTiledIDs chrome apple mozilla"
    unfolding logs image_image using 3 4 by (auto simp: tiledUsableInAll_def usableTiledIDs_def) (metis imageI)+
qed

section \<open>What a custom list guarantees\<close>

lemma registerSignatureVerifier_facts:
  assumes "registerSignatureVerifier lib key v = (e, v')"
  shows "v \<subseteq> v'" and "e = None \<Longrightarrow> cu_sha256 lib key \<in> v'"
  using assms by (auto simp: registerSignatureVerifier_def Let_def split: if_splits option.splits)

lemma registerKeys_facts:
  "registerKeys lib keys v = (e, v') \<Longrightarrow> v \<subseteq> v' \<and> (e = None \<longrightarrow> (\<forall>(url, key) \<in> set keys. cu_sha256 lib key \<in> v'))"
proof (induction lib keys v rule: registerKeys.induct)
  case (1 lib v)
  then show ?case by simp
next
  case (2 lib url key keys v)
  obtain e1 v1 where r: "registerSignatureVerifier lib key v = (e1, v1)" by fastforce
  note f = registerSignatureVerifier_facts [OF r]
  show ?case
  proof (cases e1)
    case None
    then have "v1 \<subseteq> v' \<and> (e = None \<longrightarrow> (\<forall>(url, key) \<in> set keys. cu_sha256 lib key \<in> v'))"
      using "2.IH" "2.prems" r by simp
    then show ?thesis using f None by auto
  next
    case (Some er)
    then show ?thesis using "2.prems" r f(1) by auto
  qed
qed

definition testLogOK :: "customLib \<Rightarrow> bytes set \<Rightarrow> ctLog \<Rightarrow> bool" where
  "testLogOK lib verifiers l \<longleftrightarrow>
     log_URL l \<noteq> [] \<and> log_Type l = ''test'' \<and> log_LogID l = cu_sha256 lib (log_Key l) \<and> log_LogID l \<in> verifiers"

definition testTiledLogOK :: "customLib \<Rightarrow> bytes set \<Rightarrow> tiledLog \<Rightarrow> bool" where
  "testTiledLogOK lib verifiers l \<longleftrightarrow>
     tl_SubmissionURL l \<noteq> [] \<and> tl_MonitoringURL l \<noteq> [] \<and> tl_Type l = ''test'' \<and>
     tl_LogID l = cu_sha256 lib (tl_Key l) \<and> tl_LogID l \<in> verifiers"

lemma validateLog_None:
  "validateLog lib l = None \<longleftrightarrow> log_URL l \<noteq> [] \<and> log_Type l = ''test'' \<and> log_LogID l = cu_sha256 lib (log_Key l)"
  by (auto simp: validateLog_def validateLogID_def Let_def)

lemma validateTiledLog_None:
  "validateTiledLog lib l = None \<longleftrightarrow>
     tl_SubmissionURL l \<noteq> [] \<and> tl_MonitoringURL l \<noteq> [] \<and> tl_Type l = ''test'' \<and> tl_LogID l = cu_sha256 lib (tl_Key l)"
  by (auto simp: validateTiledLog_def validateLogID_def Let_def)

lemma validateLogList_None:
  "validateLogList lib ll = None \<longleftrightarrow>
     (\<forall>l \<in> set (allLogs ll). validateLog lib l = None) \<and> (\<forall>l \<in> set (allTiledLogs ll). validateTiledLog lib l = None)"
  by (auto simp: validateLogList_def validateOperator_def firstSome_None list_all_iff allLogs_def allTiledLogs_def split: option.split)

lemma listKeys_mem:
  "l \<in> set (allLogs ll) \<Longrightarrow> (log_URL l, log_Key l) \<in> set (listKeys ll)"
  "t \<in> set (allTiledLogs ll) \<Longrightarrow> (tl_SubmissionURL t, tl_Key t) \<in> set (listKeys ll)"
  by (fastforce simp: allLogs_def allTiledLogs_def listKeys_def)+

section \<open>Properties\<close>

definition exListed :: "bytes \<Rightarrow> string \<Rightarrow> time \<Rightarrow> temporalInterval option \<Rightarrow> ctLog" where
  "exListed i url t interval = \<lparr>log_Description = url, log_LogID = i, log_Key = i, log_URL = url, log_MMD = 0, log_Type = ''test'',
     log_State = Some \<lparr>ls_Usable = Some t, ls_ReadOnly = None, ls_Retired = None, ls_Rejected = None\<rparr>,
     log_TemporalInterval = interval\<rparr>"

definition exInterval :: "time \<Rightarrow> time \<Rightarrow> temporalInterval option" where
  "exInterval a b = Some \<lparr>ti_StartInclusive = a, ti_EndExclusive = b\<rparr>"

definition exPrograms :: ctloglists where
  "exPrograms = \<lparr>cl_GstaticV3All = [\<lparr>op_Name = ''G'', op_Logs = [exListed [1] ''g1'' 5 (exInterval 0 9), exListed [2] ''g2'' 5 None], op_TiledLogs = []\<rparr>],
     cl_AppleCurrent = [\<lparr>op_Name = ''A'', op_Logs = [exListed [1] ''a1'' 7 (exInterval 2 9)], op_TiledLogs = []\<rparr>],
     cl_MozillaV3Known = [\<lparr>op_Name = ''M'', op_Logs = [exListed [2] ''m2'' 1 None, exListed [1] ''m1'' 6 (exInterval 1 8)], op_TiledLogs = []\<rparr>],
     cl_BimiV3Approved = [], cl_CrtshV3Active = [],
     cl_CrtshV3All = [\<lparr>op_Name = ''C'', op_Logs = [exListed [1] ''name'' 0 None], op_TiledLogs = []\<rparr>],
     cl_SelectByStatus = (\<lambda>_ ll. ll)\<rparr>"

definition exUsableList :: logList where
  "exUsableList = [\<lparr>op_Name = ''G'', op_Logs = [(exListed [1] ''g1'' 7 (exInterval 2 8))\<lparr>log_Description := ''name''\<rparr>], op_TiledLogs = []\<rparr>]"

lemma exPrograms_usable: "determineUsableTLSLogs exPrograms = Ok exUsableList"
  by code_simp



text \<open>
  C26: A custom test log list is taken over only if every log of it has its URLs, is a test log, has
  the SHA-256 hash of its key as its ID and has a signature verifier; known verifiers are kept. If it
  is not taken over, or none is configured, the test logs stay as they were.
\<close>

theorem custom_list_complete:
  assumes "LoadCustomTestLogList lib filename readFile newFromJSON modTime st = (err, st')"
  shows "lg_verifiers st \<subseteq> lg_verifiers st' \<and>
    (if err = None \<and> filename \<noteq> []
     then lg_customTestLogList st' = Some (lg_TestTLSLogs st') \<and>
       list_all (testLogOK lib (lg_verifiers st')) (allLogs (lg_TestTLSLogs st')) \<and>
       list_all (testTiledLogOK lib (lg_verifiers st')) (allTiledLogs (lg_TestTLSLogs st'))
     else lg_TestTLSLogs st' = lg_TestTLSLogs st \<and> lg_customTestLogList st' = lg_customTestLogList st)"
proof (cases "\<exists>data ll t. filename \<noteq> [] \<and> readFile = Inr data \<and> newFromJSON data = Inr (ll, t) \<and> validateLogList lib ll = None")
  case False
  then have "st' = st \<and> (filename \<noteq> [] \<longrightarrow> err \<noteq> None)"
    using assms by (auto simp: LoadCustomTestLogList_def split: if_splits sum.splits option.splits)
  then show ?thesis by auto
next
  case True
  then obtain data ll t where d: "filename \<noteq> []" "readFile = Inr data" "newFromJSON data = Inr (ll, t)" "validateLogList lib ll = None"
    by blast
  obtain e v where v: "registerSignatureVerifiers lib ll (lg_verifiers st) = (e, v)" by fastforce
  note reg = registerKeys_facts [OF v [unfolded registerSignatureVerifiers_def]]
  show ?thesis
  proof (cases e)
    case (Some er)
    then show ?thesis using assms d v reg by (auto simp: LoadCustomTestLogList_def)
  next
    case None
    then have st': "err = None" "lg_verifiers st' = v" "lg_TestTLSLogs st' = ll" "lg_customTestLogList st' = Some ll"
      using assms d v by (auto simp: LoadCustomTestLogList_def)
    have "testLogOK lib v l" if "l \<in> set (allLogs ll)" for l
    proof -
      have "validateLog lib l = None" "cu_sha256 lib (log_Key l) \<in> v"
        using d(4) that None reg listKeys_mem(1) [OF that] by (auto simp: validateLogList_None)
      then show ?thesis by (simp add: validateLog_None testLogOK_def)
    qed
    moreover have "testTiledLogOK lib v l" if "l \<in> set (allTiledLogs ll)" for l
    proof -
      have "validateTiledLog lib l = None" "cu_sha256 lib (tl_Key l) \<in> v"
        using d(4) that None reg listKeys_mem(2) [OF that] by (auto simp: validateLogList_None)
      then show ?thesis by (simp add: validateTiledLog_None testTiledLogOK_def)
    qed
    ultimately show ?thesis using st' reg d(1) by (simp add: list_all_iff)
  qed
qed

theorem custom_list_complete_witness:
  "\<exists>st'. LoadCustomTestLogList \<lparr>cu_quote = id, cu_sha256 = id, cu_newVerifier = (\<lambda>_. None)\<rparr> ''f'' (Inr ())
      (\<lambda>_. Inr (exUsableList, 0)) None
      \<lparr>lg_TestTLSLogs = [], lg_TestTimestamp = 0, lg_customTestLogList = None, lg_verifiers = {}\<rparr> = (None, st') \<and>
    list_all (testLogOK \<lparr>cu_quote = id, cu_sha256 = id, cu_newVerifier = (\<lambda>_. None)\<rparr> (lg_verifiers st')) (allLogs (lg_TestTLSLogs st'))"
proof -
  let ?load = "LoadCustomTestLogList \<lparr>cu_quote = id, cu_sha256 = id, cu_newVerifier = (\<lambda>_. None)\<rparr> ''f'' (Inr ())
      (\<lambda>_. Inr (exUsableList, 0)) None
      \<lparr>lg_TestTLSLogs = [], lg_TestTimestamp = 0, lg_customTestLogList = None, lg_verifiers = {}\<rparr>"
  have "fst ?load = None" by code_simp
  then obtain st' where st': "?load = (None, st')" by (metis prod.collapse)
  then show ?thesis using custom_list_complete [OF st'] by auto
qed

end
