(* ===== verification/Release_Timestamp.thy ===== *)
theory Release_Timestamp
  imports Prelude
begin

text \<open>
  loglists/filter.go, getCtloglistsReleaseTimestamp: the timestamp of the log lists is read from the
  version of the module that carries them, v1.YYYYMMDD.HHMMSS without the leading zeroes of HHMMSS.
  The parts of the standard library it uses are modelled: strings.SplitN, padding, and time.Parse for
  the layout 20060102.150405. The validity of a version is golang.org/x/mod's, a parameter.
\<close>

section \<open>Dates (package time)\<close>

definition isLeap :: "int \<Rightarrow> bool" where
  "isLeap year \<longleftrightarrow> year mod 4 = 0 \<and> (year mod 100 \<noteq> 0 \<or> year mod 400 = 0)"

definition daysIn :: "nat \<Rightarrow> int \<Rightarrow> nat" where
  "daysIn m year =
     (if m = 2 then (if isLeap year then 29 else 28)
      else if m \<in> {4, 6, 9, 11} then 30
      else 31)"

text \<open>Days from the first of January of the year 1 to the first of January of a year.\<close>

definition daysBeforeYear :: "int \<Rightarrow> int" where
  "daysBeforeYear year = 365 * (year - 1) + (year - 1) div 4 - (year - 1) div 100 + (year - 1) div 400"

definition goDate :: "nat \<Rightarrow> nat \<Rightarrow> nat \<Rightarrow> nat \<Rightarrow> nat \<Rightarrow> nat \<Rightarrow> int \<Rightarrow> time" where
  "goDate year month day hh mm ss nsec =
     (let days = daysBeforeYear (int year) + int (sum_list (map (\<lambda>m. daysIn m (int year)) [1..<month])) + int day - 1
      in (((days * 24 + int hh) * 60 + int mm) * 60 + int ss) * second + nsec)"

text \<open>The time package's readers of numbers; None is a malformed value.\<close>

definition digitOf :: "char \<Rightarrow> nat option" where
  "digitOf c = (let n = (of_char c :: nat) in if 48 \<le> n \<and> n \<le> 57 then Some (n - 48) else None)"

definition digitChar :: "nat \<Rightarrow> char" where
  "digitChar n = char_of (48 + n)"

fun digits :: "string \<Rightarrow> nat option" where
  "digits [] = Some 0"
| "digits (c # cs) =
     (case (digitOf c, digits cs) of (Some d, Some n) \<Rightarrow> Some (d * 10 ^ length cs + n) | _ \<Rightarrow> None)"

fun getnum :: "bool \<Rightarrow> string \<Rightarrow> (nat \<times> string) option" where
  "getnum fixed [] = None"
| "getnum fixed (c # cs) =
     (case digitOf c of
        None \<Rightarrow> None
      | Some d \<Rightarrow>
          (case cs of
             [] \<Rightarrow> if fixed then None else Some (d, cs)
           | c' # cs' \<Rightarrow>
               (case digitOf c' of
                  None \<Rightarrow> if fixed then None else Some (d, cs)
                | Some d' \<Rightarrow> Some (d * 10 + d', cs'))))"

definition inRange :: "nat \<Rightarrow> nat \<Rightarrow> (nat \<times> string) option \<Rightarrow> (nat \<times> string) option" where
  "inRange lo hi r = (case r of Some (n, rest) \<Rightarrow> if lo \<le> n \<and> n \<le> hi then Some (n, rest) else None | None \<Rightarrow> None)"

text \<open>A fractional second is read after the seconds even though the layout has none.\<close>

definition fraction :: "string \<Rightarrow> (int \<times> string) option" where
  "fraction value =
     (case value of
        c # d # cs \<Rightarrow>
          if (c = CHR ''.'' \<or> c = CHR '','') \<and> digitOf d \<noteq> None then
            (let ds = takeWhile (\<lambda>c. digitOf c \<noteq> None) (d # cs) in
             case digits (take 9 ds) of
               Some n \<Rightarrow> Some (int n * 10 ^ (9 - length (take 9 ds)), drop (length ds) (d # cs))
             | None \<Rightarrow> None)
          else Some (0, value)
      | _ \<Rightarrow> Some (0, value))"

definition parseYear :: "string \<Rightarrow> (nat \<times> string) option" where
  "parseYear value =
     (if length value < 4 then None
      else case digits (take 4 value) of Some y \<Rightarrow> Some (y, drop 4 value) | None \<Rightarrow> None)"

definition skipDot :: "string \<Rightarrow> string option" where
  "skipDot value = (case value of c # cs \<Rightarrow> if c = CHR ''.'' then Some cs else None | [] \<Rightarrow> None)"

text \<open>time.Parse with the layout 20060102.150405.\<close>

definition parseRelease :: "string \<Rightarrow> time option" where
  "parseRelease value =
     Option.bind (parseYear value) (\<lambda>(year, v1).
     Option.bind (inRange 1 12 (getnum True v1)) (\<lambda>(month, v2).
     Option.bind (getnum True v2) (\<lambda>(day, v3).
     Option.bind (skipDot v3) (\<lambda>v4.
     Option.bind (inRange 0 23 (getnum False v4)) (\<lambda>(hh, v5).
     Option.bind (inRange 0 59 (getnum True v5)) (\<lambda>(mm, v6).
     Option.bind (inRange 0 59 (getnum True v6)) (\<lambda>(ss, v7).
     Option.bind (fraction v7) (\<lambda>(nsec, v8).
       if v8 \<noteq> [] then None
       else if day < 1 \<or> daysIn month (int year) < day then None
       else Some (goDate year month day hh mm ss nsec)))))))))"

section \<open>The version of the module (filter.go)\<close>

text \<open>strings.SplitN, and fmt's %06s, which pads with zeroes.\<close>

fun SplitN :: "char \<Rightarrow> nat \<Rightarrow> string \<Rightarrow> string list" where
  "SplitN c 0 s = []"
| "SplitN c (Suc 0) s = [s]"
| "SplitN c (Suc (Suc n)) s =
     (case dropWhile (\<lambda>x. x \<noteq> c) s of
        [] \<Rightarrow> [s]
      | _ # rest \<Rightarrow> takeWhile (\<lambda>x. x \<noteq> c) s # SplitN c (Suc n) rest)"

definition pad6 :: "string \<Rightarrow> string" where
  "pad6 s = replicate (6 - length s) (CHR ''0'') @ s"

text \<open>A dependency of the program: its path and its version; no build information is None.\<close>

definition getCtloglistsReleaseTimestamp ::
  "(string \<Rightarrow> bool) \<Rightarrow> (string \<Rightarrow> string) \<Rightarrow> (string \<times> string) list option \<Rightarrow> go_error + time" where
  "getCtloglistsReleaseTimestamp semverIsValid parseError buildDeps =
     (case buildDeps of
        None \<Rightarrow> Inl (Errorf ''failed to read build info'')
      | Some deps \<Rightarrow>
          (case find (\<lambda>dep. fst dep = ''github.com/crtsh/ctloglists'') deps of
             None \<Rightarrow> Inl (Errorf ''ctloglists dependency not found in build info'')
           | Some (path, v) \<Rightarrow>
               if \<not> semverIsValid v then Inl (Errorf (''invalid semver version: '' @ v))
               else
                 let parts = SplitN (CHR ''.'') 3 (drop 1 v) in
                 if length parts \<noteq> 3 then Inl (Errorf (''unexpected version format: '' @ v))
                 else
                   let value = parts ! 1 @ ''.'' @ pad6 (parts ! 2) in
                   (case parseRelease value of
                      None \<Rightarrow> Inl (Errorf (''failed to parse timestamp from version '' @ v @ '': '' @ parseError value))
                    | Some t \<Rightarrow> Inr t)))"

section \<open>Round trip\<close>

text \<open>How a release at a given date and time is versioned.\<close>

definition pad2 :: "nat \<Rightarrow> string" where
  "pad2 n = [digitChar (n div 10), digitChar (n mod 10)]"

definition pad4 :: "nat \<Rightarrow> string" where
  "pad4 n = [digitChar (n div 1000), digitChar (n div 100 mod 10), digitChar (n div 10 mod 10), digitChar (n mod 10)]"

definition stripZeroes :: "string \<Rightarrow> string" where
  "stripZeroes s = (case dropWhile (\<lambda>c. c = CHR ''0'') s of [] \<Rightarrow> ''0'' | s' \<Rightarrow> s')"

definition releaseVersion :: "nat \<Rightarrow> nat \<Rightarrow> nat \<Rightarrow> nat \<Rightarrow> nat \<Rightarrow> nat \<Rightarrow> string" where
  "releaseVersion year month day hh mm ss =
     ''v1.'' @ pad4 year @ pad2 month @ pad2 day @ ''.'' @ stripZeroes (pad2 hh @ pad2 mm @ pad2 ss)"

lemma digit_facts:
  assumes "n < 10"
  shows "digitOf (digitChar n) = Some n" and "digitChar n \<noteq> CHR ''.''" and "digitChar n = CHR ''0'' \<longleftrightarrow> n = 0"
proof -
  have code: "(of_char (digitChar n) :: nat) = 48 + n" using assms by (simp add: digitChar_def)
  then show "digitOf (digitChar n) = Some n" using assms by (simp add: digitOf_def)
  have eq: "digitChar n = c \<longleftrightarrow> 48 + n = (of_char c :: nat)" for c
    unfolding code [symmetric] by simp
  show "digitChar n \<noteq> CHR ''.''" "digitChar n = CHR ''0'' \<longleftrightarrow> n = 0" by (simp_all add: eq)
qed

lemma getnum_pad2: "n < 100 \<Longrightarrow> getnum fixed (pad2 n @ rest) = Some (n, rest)"
  by (simp add: pad2_def digit_facts)

lemma digits_four:
  "digitOf a = Some i \<Longrightarrow> digitOf b = Some j \<Longrightarrow> digitOf c = Some k \<Longrightarrow> digitOf d = Some l \<Longrightarrow>
     digits [a, b, c, d] = Some (i * 1000 + (j * 100 + (k * 10 + l)))"
  by simp

lemma parseYear_pad4:
  assumes "n < 10000"
  shows "parseYear (pad4 n @ rest) = Some (n, rest)"
proof -
  have d: "n div 1000 < 10" "n div 100 mod 10 < 10" "n div 10 mod 10 < 10" "n mod 10 < 10" using assms by simp_all
  have n: "n div 1000 * 1000 + (n div 100 mod 10 * 100 + (n div 10 mod 10 * 10 + n mod 10)) = n"
  proof -
    have horner: "x * 1000 + (y * 100 + (z * 10 + w)) = ((x * 10 + y) * 10 + z) * 10 + w" for x y z w :: nat by simp
    have "n div 100 = n div 10 div 10" "n div 1000 = n div 10 div 10 div 10" by (simp_all add: div_mult2_eq [symmetric])
    then show ?thesis by (simp only: horner div_mult_mod_eq)
  qed
  have "digits (pad4 n) = Some n"
    using digits_four [OF digit_facts(1) [OF d(1)] digit_facts(1) [OF d(2)] digit_facts(1) [OF d(3)] digit_facts(1) [OF d(4)]]
    unfolding n pad4_def .
  moreover have "length (pad4 n) = 4" by (simp add: pad4_def)
  ultimately show ?thesis by (simp add: parseYear_def)
qed

lemma pad6_strip:
  assumes "length s = 6"
  shows "pad6 (stripZeroes s) = s"
proof -
  have split: "replicate (length s - length (dropWhile (\<lambda>x. x = c) s)) c @ dropWhile (\<lambda>x. x = c) s = s" for c and s :: string
    by (induction s) (auto simp: Suc_diff_le length_dropWhile_le)
  show ?thesis
  proof (cases "dropWhile (\<lambda>c. c = CHR ''0'') s")
    case Nil
    have "s = replicate 6 (CHR ''0'')" using split [of s "CHR ''0''"] unfolding Nil assms by simp
    moreover have "pad6 (stripZeroes s) = replicate 6 (CHR ''0'')" unfolding stripZeroes_def Nil by code_simp
    ultimately show ?thesis by simp
  next
    case (Cons a list)
    then show ?thesis using split [of s "CHR ''0''"] assms by (simp add: stripZeroes_def pad6_def)
  qed
qed

lemma SplitN_first: "c \<notin> set s \<Longrightarrow> SplitN c (Suc (Suc n)) (s @ c # rest) = s # SplitN c (Suc n) rest"
  by (simp add: takeWhile_append2 dropWhile_append2) (auto simp: takeWhile_append dropWhile_append)

text \<open>
  C39: A release made at a valid date and time and versioned as releases are gives that very instant as
  the timestamp of the log lists, whichever other modules the program depends on, and whatever
  leading zeroes of the time the version has lost.
\<close>

theorem release_round_trip:
  assumes "year < 10000" and "1 \<le> month" and "month \<le> 12" and "1 \<le> day" and "day \<le> daysIn month (int year)"
    and "hh < 24" and "mm < 60" and "ss < 60" and "v = releaseVersion year month day hh mm ss" and "semverIsValid v"
    and "\<forall>dep \<in> set before. fst dep \<noteq> ''github.com/crtsh/ctloglists''"
  shows "getCtloglistsReleaseTimestamp semverIsValid parseError (Some (before @ (''github.com/crtsh/ctloglists'', v) # after)) =
    Inr (goDate year month day hh mm ss 0)"
proof -
  let ?date = "pad4 year @ pad2 month @ pad2 day" and ?time = "pad2 hh @ pad2 mm @ pad2 ss"
  have "daysIn month (int year) \<le> 31" by (simp add: daysIn_def)
  then have day: "day < 100" using assms(5) by simp
  have nodot: "CHR ''.'' \<notin> set ?date"
    using assms(1,3) day by (simp add: pad4_def pad2_def digit_facts(2) [symmetric])
  have v: "drop 1 v = ''1'' @ CHR ''.'' # ?date @ CHR ''.'' # stripZeroes ?time" by (simp add: assms(9) releaseVersion_def)
  have "SplitN (CHR ''.'') 3 (drop 1 v) = ''1'' # SplitN (CHR ''.'') (Suc (Suc 0)) (?date @ CHR ''.'' # stripZeroes ?time)"
    unfolding v numeral_3_eq_3 by (rule SplitN_first) simp
  also have "\<dots> = [''1'', ?date, stripZeroes ?time]"
    unfolding SplitN_first [OF nodot] by simp
  finally have parts: "SplitN (CHR ''.'') 3 (drop 1 v) = [''1'', ?date, stripZeroes ?time]" .
  have "pad6 (stripZeroes ?time) = ?time" by (rule pad6_strip) (simp add: pad2_def)
  moreover have "parseRelease (?date @ ''.'' @ ?time) = Some (goDate year month day hh mm ss 0)"
    using assms day
    by (simp add: parseRelease_def parseYear_pad4 getnum_pad2 getnum_pad2 [where rest = "[]", simplified] inRange_def skipDot_def fraction_def)
  moreover have "find (\<lambda>dep. fst dep = ''github.com/crtsh/ctloglists'') (before @ (''github.com/crtsh/ctloglists'', v) # after) =
      Some (''github.com/crtsh/ctloglists'', v)"
    using assms(11) by (induction before) auto
  ultimately show ?thesis
    using assms(10) by (simp add: getCtloglistsReleaseTimestamp_def parts [unfolded One_nat_def] Let_def)
qed

theorem release_round_trip_witness:
  "getCtloglistsReleaseTimestamp (\<lambda>v. True) id
      (Some [(''github.com/crtsh/ctlint'', ''v0.0.0''), (''github.com/crtsh/ctloglists'', ''v1.20240229.5'')]) =
    Inr (goDate 2024 2 29 0 0 5 0)"
proof -
  have "releaseVersion 2024 2 29 0 0 5 = ''v1.20240229.5''" "(29::nat) \<le> daysIn 2 (int 2024)" by code_simp+
  then show ?thesis
    using release_round_trip [of 2024 2 29 0 0 5 "''v1.20240229.5''" "\<lambda>v. True" "[(''github.com/crtsh/ctlint'', ''v0.0.0'')]" id "[]"] by simp
qed

end
