(* ===== verification/Server_Metrics.thy ===== *)
theory Server_Metrics
  imports Prelude
begin

text \<open>
  The Prometheus collectors: what the packages register when the program starts (server/metrics.go,
  monitor/metrics.go, request/post.go, loglists/filter.go), and the gauges that server/metrics.go sets
  from the two HTTP servers. The registry is Prometheus': registering two collectors of one name whose
  constant labels have the same values, or whose label names or help texts differ, panics.
\<close>

datatype collectorKind = Gauge | GaugeFunc | Summary | CounterVec | HistogramVec

record collector =
  co_kind :: collectorKind
  co_Subsystem :: string
  co_Name :: string
  co_Help :: string
  co_ConstLabels :: "(string \<times> string) list"
  co_VariableLabels :: "string list"

definition fqName :: "string \<Rightarrow> collector \<Rightarrow> string" where
  "fqName namespace c = joinWith ''_'' (filter (\<lambda>s. s \<noteq> []) [namespace, co_Subsystem c, co_Name c])"

text \<open>The registry's test of a new collector against a registered one.\<close>

definition conflicts :: "string \<Rightarrow> collector \<Rightarrow> collector \<Rightarrow> bool" where
  "conflicts namespace c d \<longleftrightarrow>
     fqName namespace c = fqName namespace d \<and>
     (map snd (co_ConstLabels c) = map snd (co_ConstLabels d) \<or> co_Help c \<noteq> co_Help d \<or>
      map fst (co_ConstLabels c) \<noteq> map fst (co_ConstLabels d) \<or> co_VariableLabels c \<noteq> co_VariableLabels d)"

fun registerAll :: "string \<Rightarrow> collector list \<Rightarrow> collector list \<Rightarrow> collector list outcome" where
  "registerAll namespace [] registered = Ok registered"
| "registerAll namespace (c # cs) registered =
     (if list_ex (conflicts namespace c) registered then Panic else registerAll namespace cs (registered @ [c]))"

section \<open>What the packages register\<close>

definition outcomeCollectors :: "collector list" where
  "outcomeCollectors =
     [\<lparr>co_kind = CounterVec, co_Subsystem = ''submission'', co_Name = ''outcome_total'',
       co_Help = ''Total submission outcomes per log, by outcome.'', co_ConstLabels = [],
       co_VariableLabels = [''url'', ''outcome'']\<rparr>]"

definition responseTimeCollectors :: "collector list" where
  "responseTimeCollectors =
     [\<lparr>co_kind = HistogramVec, co_Subsystem = ''submission'', co_Name = ''response_seconds'',
       co_Help = ''Per-log submission response time in seconds (excludes cancelled submissions).'', co_ConstLabels = [],
       co_VariableLabels = [''url'']\<rparr>]"

definition loglistCollectors :: "collector list" where
  "loglistCollectors =
     [\<lparr>co_kind = GaugeFunc, co_Subsystem = ''loglist'', co_Name = ''oldest_timestamp_age_seconds'',
       co_Help = ''Age in seconds of the oldest log list timestamp among lists with a 70-day enforcement cut-off.'',
       co_ConstLabels = [], co_VariableLabels = []\<rparr>]"

definition endpointCollectors :: "collector list" where
  "endpointCollectors =
     [\<lparr>co_kind = CounterVec, co_Subsystem = ''endpoint'', co_Name = ''requests_total'',
       co_Help = ''Total requests per submission endpoint, by result.'', co_ConstLabels = [],
       co_VariableLabels = [''endpoint'', ''result'']\<rparr>]"

definition requestTypeLabel :: "string list" where
  "requestTypeLabel = [''monitoring'', ''web'']"

definition initResponseLatencyMetrics :: "collector list" where
  "initResponseLatencyMetrics =
     map (\<lambda>label. \<lparr>co_kind = Summary, co_Subsystem = ''request'', co_Name = ''latency'',
        co_Help = ''Number of seconds to handle a request.'', co_ConstLabels = [(''type'', label)], co_VariableLabels = []\<rparr>)
       requestTypeLabel"

definition serverLabel :: "string list" where
  "serverLabel = [''monitoring'', ''web'']"

definition fasthttpGauge :: "string \<Rightarrow> string \<Rightarrow> string \<Rightarrow> collector" where
  "fasthttpGauge label name help =
     \<lparr>co_kind = Gauge, co_Subsystem = ''fasthttp'', co_Name = name, co_Help = help,
      co_ConstLabels = [(''server'', label)], co_VariableLabels = []\<rparr>"

definition initFastHTTPMetrics :: "collector list" where
  "initFastHTTPMetrics =
     concat (map (\<lambda>label.
       [fasthttpGauge label ''concurrency'' ''Number of currently served connections.'',
        fasthttpGauge label ''open'' ''Number of currently open connections.'',
        fasthttpGauge label ''rejected'' ''Number of rejected connections.'',
        fasthttpGauge label ''maxconcurrency'' ''Maximum number of concurrent connections.'',
        fasthttpGauge label ''maxconnsperip'' ''Maximum number of concurrent connections per IP address.'']) serverLabel)"

text \<open>All of them; the packages are initialised before the packages that import them.\<close>

definition allCollectors :: "collector list" where
  "allCollectors = loglistCollectors @ outcomeCollectors @ responseTimeCollectors @ endpointCollectors @
     initResponseLatencyMetrics @ initFastHTTPMetrics"

lemma fqName_eq:
  assumes "co_Subsystem c \<noteq> []" "co_Name c \<noteq> []" "co_Subsystem d \<noteq> []" "co_Name d \<noteq> []"
  shows "fqName namespace c = fqName namespace d \<longleftrightarrow> co_Subsystem c @ ''_'' @ co_Name c = co_Subsystem d @ ''_'' @ co_Name d"
  using assms by (cases "namespace = []") (simp_all add: fqName_def)

text \<open>Two collectors that differ in name, or in a constant label of the same names and the same help, do not conflict.\<close>

definition compatible :: "collector \<Rightarrow> collector \<Rightarrow> bool" where
  "compatible c d \<longleftrightarrow>
     co_Subsystem c \<noteq> [] \<and> co_Name c \<noteq> [] \<and> co_Subsystem d \<noteq> [] \<and> co_Name d \<noteq> [] \<and>
     (co_Subsystem c @ ''_'' @ co_Name c \<noteq> co_Subsystem d @ ''_'' @ co_Name d \<or>
      map snd (co_ConstLabels c) \<noteq> map snd (co_ConstLabels d) \<and> co_Help c = co_Help d \<and>
      map fst (co_ConstLabels c) = map fst (co_ConstLabels d) \<and> co_VariableLabels c = co_VariableLabels d)"

fun allCompatible :: "collector list \<Rightarrow> bool" where
  "allCompatible [] = True"
| "allCompatible (c # cs) = (list_all (\<lambda>d. compatible d c) cs \<and> allCompatible cs)"

lemma compatible_conflicts: "compatible c d \<Longrightarrow> \<not> conflicts namespace c d"
  by (auto simp: compatible_def conflicts_def fqName_eq)

lemma registerAll_compatible:
  "allCompatible cs \<Longrightarrow> list_all (\<lambda>c. list_all (compatible c) registered) cs \<Longrightarrow> registerAll namespace cs registered = Ok (registered @ cs)"
proof (induction cs arbitrary: registered)
  case (Cons c cs)
  have "\<not> list_ex (conflicts namespace c) registered"
    using Cons.prems(2) compatible_conflicts by (fastforce simp: list_ex_iff list_all_iff)
  moreover have "list_all (\<lambda>c'. list_all (compatible c') (registered @ [c])) cs"
    using Cons.prems by (auto simp: list_all_iff)
  ultimately show ?case using Cons.IH [of "registered @ [c]"] Cons.prems(1) by simp
qed simp

lemma allCollectors_compatible: "allCompatible allCollectors"
  by code_simp

text \<open>Whatever the namespace, that is the name of the executable, registering the collectors does not panic.\<close>

lemma register_allCollectors: "registerAll namespace allCollectors [] = Ok allCollectors"
  using registerAll_compatible [OF allCollectors_compatible, of "[]" namespace] by (simp add: list_all_iff)

section \<open>The gauges of the HTTP servers\<close>

text \<open>What the code sets of a fasthttp server, and the counters that it reads of a running one.\<close>

record fhServer =
  sv_ReadTimeout :: duration
  sv_IdleTimeout :: duration
  sv_DisableKeepalive :: bool
  sv_CloseOnShutdown :: bool
  sv_NoDefaultServerHeader :: bool
  sv_Concurrency :: int
  sv_MaxConnsPerIP :: int

record serverCounts =
  sc_CurrentConcurrency :: int
  sc_OpenConnections :: int
  sc_RejectedConnections :: int

text \<open>fasthttp's default concurrency is a constant of the library.\<close>

definition getMaxConcurrency :: "int \<Rightarrow> fhServer \<Rightarrow> int" where
  "getMaxConcurrency defaultConcurrency s =
     (if sv_Concurrency s \<le> 0 then defaultConcurrency else sv_Concurrency s)"

definition serverGauges :: "int \<Rightarrow> string \<Rightarrow> fhServer \<Rightarrow> serverCounts \<Rightarrow> ((string \<times> string) \<times> int) list" where
  "serverGauges defaultConcurrency label s counts =
     [((''concurrency'', label), sc_CurrentConcurrency counts),
      ((''open'', label), sc_OpenConnections counts),
      ((''rejected'', label), sc_RejectedConnections counts),
      ((''maxconcurrency'', label), getMaxConcurrency defaultConcurrency s),
      ((''maxconnsperip'', label), sv_MaxConnsPerIP s)]"

definition getFastHTTPMetrics ::
  "int \<Rightarrow> fhServer \<times> serverCounts \<Rightarrow> fhServer \<times> serverCounts \<Rightarrow> ((string \<times> string) \<rightharpoonup> int) \<Rightarrow> ((string \<times> string) \<rightharpoonup> int)" where
  "getFastHTTPMetrics defaultConcurrency monitoring web gauges =
     fold (\<lambda>(g, v) gs. gs(g \<mapsto> v))
       (serverGauges defaultConcurrency (serverLabel ! 0) (fst monitoring) (snd monitoring) @
        serverGauges defaultConcurrency (serverLabel ! 1) (fst web) (snd web)) gauges"

text \<open>Every gauge that is set was registered: the name and the label are those of a collector.\<close>

lemma gauges_registered:
  "dom (getFastHTTPMetrics n m w Map.empty) = (\<lambda>c. (co_Name c, snd (hd (co_ConstLabels c)))) ` set initFastHTTPMetrics"
  by (simp add: getFastHTTPMetrics_def serverGauges_def initFastHTTPMetrics_def serverLabel_def fasthttpGauge_def insert_commute)

end
