(* ===== verification/Monitor_Correct.thy ===== *)
theory Monitor_Correct
  imports Strategy Uptime Samples
begin

text \<open>
  What the monitor's data and the strategies built on them guarantee. The examples use a monitor with
  the default settings over one RFC 6962 log, and an environment whose clock stands still.
\<close>

definition exURL :: string where "exURL = ''https://log.example/''"

definition exLog :: ctLog where
  "exLog = \<lparr>log_Description = ''Example'', log_LogID = [1], log_Key = [2], log_URL = exURL, log_MMD = 86400,
            log_Type = [], log_State = None, log_TemporalInterval = None\<rparr>"

definition exLogList :: logList where
  "exLogList = [\<lparr>op_Name = ''Op'', op_Logs = [exLog], op_TiledLogs = []\<rparr>]"

definition exMonitor :: Monitor where
  "exMonitor = newMonitor defaultSettings (\<lambda>u. u) (\<lambda>k. True) (\<lambda>n k. True) [exLogList]"

definition exEnv :: "time \<Rightarrow> strategyEnv" where
  "exEnv t =
     \<lparr>sv_joinSlash = (\<lambda>u. u), sv_fmtTime = (\<lambda>t. []), sv_fmtDuration = (\<lambda>d. []), sv_fmtPercent = (\<lambda>p. []), sv_clock = (\<lambda>i k. t),
      sv_rand = (\<lambda>i. 0), sv_sort = insertionSort\<rparr>"

definition exSubmitter :: Submitter where
  "exSubmitter =
     \<lparr>sb_cfg = defaultSettings, sb_clientTimeout = submission_HTTPTimeout defaultSettings,
      sb_excludedURLRegexes = [], sb_preferredURLRegexes = []\<rparr>"


text \<open>A file with two rows for the example log, in percent.\<close>

definition exPercent :: "string \<Rightarrow> float64 option" where
  "exPercent s = (if s = ''99'' then Some (Finite 99) else if s = ''12'' then Some (Finite 12) else None)"

definition exRows :: "string list list" where
  "exRows = [[exURL, ''get-sth'', ''12''], [exURL, ''add-chain'', ''99'']]"

definition exFile :: string where
  "exFile = ''url, endpoint, percent'' @ [CHR 0x0A] @ exURL @ '', get-sth, 12'' @ [CHR 0x0D, CHR 0x0A, CHR 0x0A, CHR 0x22] @
     exURL @ [CHR 0x22] @ '',add-chain,99''"

lemma exFile_rows: "ReadAll uptimeReader exFile = Inr ([''url'', ''endpoint'', ''percent''] # exRows)"
  by code_simp



text \<open>The empty body is one.\<close>

lemma empty_uptime_file_panics:
  "FetchEndpointUptimes joinSlash lls parseFloat (Inr (200, Inr [])) resp90d m = Panic"
  by (simp add: FetchEndpointUptimes_def fetchEndpointUptimes_def ReadAll_def readLines_simps)

text \<open>
  C33: However long the tree head monitor runs and whatever the logs answer, no log appears in or
  disappears from its table, no log's kind, key, name or submission URL changes, and an entry either
  is what it was or stems from a 200 answer from that log's URL that verified under that log's key
  (for a static log also with that log's name as its origin).
\<close>

theorem tree_heads_verified:
  "(mon_sthData (STHMonitor lib events m) u = None \<longleftrightarrow> mon_sthData m u = None) \<and>
   (\<forall>sd sd'. mon_sthData m u = Some sd \<longrightarrow> mon_sthData (STHMonitor lib events m) u = Some sd' \<longrightarrow>
      sameSTHLog sd' sd \<and> (sd' = sd \<or> answeredHead lib (answersOf events) u sd sd'))"
  using fetches_verified [where m = m and u = u and lib = lib and answers = "answersOf events"] unfolding STHMonitor_fold by (auto split: option.splits)

text \<open>A library that takes every tree head, and the example log's answer.\<close>

definition exHeads :: "unit sthLib" where
  "exHeads =
     \<lparr>sl_parseDate = (\<lambda>s. None), sl_unmarshal = (\<lambda>b. Inr \<lparr>gs_TreeSize = length b, gs_Timestamp = 1\<rparr>),
      sl_toSTH = (\<lambda>r. Inr ()), sl_verify = (\<lambda>k s. None), sl_openNote = (\<lambda>k n b. Inl ContextCanceled),
      sl_parseCheckpoint = (\<lambda>s. Inl ContextCanceled), sl_sigTimestamp = (\<lambda>s. Inl ContextCanceled)\<rparr>"

definition exHeadEvents :: "sthAnswer list timerEvent list" where
  "exHeadEvents =
     [TimerFired [(exURL, 5, Some (Inr \<lparr>hr_StatusCode = 200, hr_RetryAfter = [], hr_Body = Inr [1, 2, 3]\<rparr>))], CtxDone]"

theorem tree_heads_verified_witness:
  "\<exists>sd sd'. mon_sthData exMonitor exURL = Some sd \<and> mon_sthData (STHMonitor exHeads exHeadEvents exMonitor) exURL = Some sd' \<and>
     sth_TreeSize sd' = 3 \<and> answeredHead exHeads (answersOf exHeadEvents) exURL sd sd'"
proof -
  have "map_option sth_TreeSize (mon_sthData exMonitor exURL) = Some 0"
    "map_option sth_TreeSize (mon_sthData (STHMonitor exHeads exHeadEvents exMonitor) exURL) = Some 3" by code_simp+
  then obtain sd sd' where s: "mon_sthData exMonitor exURL = Some sd" "sth_TreeSize sd = 0"
    "mon_sthData (STHMonitor exHeads exHeadEvents exMonitor) exURL = Some sd'" "sth_TreeSize sd' = 3" by auto
  then show ?thesis using tree_heads_verified [of exHeads exHeadEvents exMonitor exURL] by auto
qed

definition logIdentity :: "StrategyMember \<Rightarrow> string \<times> string \<times> string \<times> string \<times> LogType \<times> int" where
  "logIdentity sm = (sm_SubmissionURL sm, sm_MonitoringURL sm, sm_Operator sm, sm_LogName sm, sm_LogType sm, sm_MMD sm)"



end
