(* ===== verification/Startup.thy ===== *)
theory Startup
  imports Web_Correct Loglists_Correct Release_Timestamp Server_Metrics Monitor_Correct
begin

text \<open>
  How the process starts and stops: main.go, with the initialisation of the packages it relies on
  (config/config.go and loglists/filter.go), server.Run and server.Shutdown, and the start-up entries of the
  log. The executable's path, viper, zap's constructors, the data of ctloglists and the file system are
  the fields of one environment.
\<close>

section \<open>Names and build metadata (config/config.go, utils/info.go)\<close>

definition ApplicationName :: "string \<Rightarrow> string" where
  "ApplicationName path = (case lastIndexOf (CHR ''/'') path of None \<Rightarrow> path | Some i \<Rightarrow> drop (i + 1) path)"

definition ApplicationNamespace :: "string \<Rightarrow> string" where
  "ApplicationNamespace path =
     toLower (filter (\<lambda>c. c \<noteq> CHR ''_'') (filter (\<lambda>c. c \<noteq> CHR ''-'') (ApplicationName path)))"

record buildMetadata =
  bm_BuildTimestamp :: string
  bm_Vcs :: string
  bm_VcsModified :: string
  bm_VcsRevision :: string
  bm_VcsTimestamp :: string
  bm_CtsubmitVersion :: string

definition applyBuildSetting :: "string \<times> string \<Rightarrow> buildMetadata \<Rightarrow> buildMetadata" where
  "applyBuildSetting setting bm =
     (if fst setting = ''vcs'' then bm\<lparr>bm_Vcs := snd setting\<rparr>
      else if fst setting = ''vcs.modified'' then bm\<lparr>bm_VcsModified := snd setting\<rparr>
      else if fst setting = ''vcs.revision'' then bm\<lparr>bm_VcsRevision := snd setting\<rparr>
      else if fst setting = ''vcs.time'' then bm\<lparr>bm_VcsTimestamp := snd setting\<rparr>
      else bm)"

text \<open>The variables start with what the linker has put into them.\<close>

definition buildMetadataFrom :: "(string \<times> string) list option \<Rightarrow> buildMetadata \<Rightarrow> buildMetadata" where
  "buildMetadataFrom buildSettings ldflags =
     (let bm = (case buildSettings of None \<Rightarrow> ldflags | Some ss \<Rightarrow> fold applyBuildSetting ss ldflags) in
      if bm_CtsubmitVersion bm = [] then bm\<lparr>bm_CtsubmitVersion := bm_VcsRevision bm\<rparr> else bm)"

definition VersionString :: "string \<Rightarrow> string" where
  "VersionString version =
     (if version = ''not installed'' then ''['' @ version @ '']''
      else if strContains version ''-g'' then version
      else if (case lastIndexOf (CHR ''-'') version of None \<Rightarrow> False | Some idx \<Rightarrow> 7 < length version - idx) then version
      else if strContains version ''.'' then (if prefix ''v'' version then version else ''v'' @ version)
      else if 7 \<le> length version then ''g'' @ take 7 version
      else ''('' @ version @ '')'')"

definition GetPackagePath :: "string option \<Rightarrow> string" where
  "GetPackagePath buildPath = (case buildPath of Some path \<Rightarrow> path | None \<Rightarrow> [])"

section \<open>Reading the configuration (config/config.go)\<close>

text \<open>viper looks for the file and merges file, environment and the defaults it was given.\<close>

datatype readError = ConfigFileNotFound | ReadError go_error

record viperLib =
  vi_ReadInConfig :: "readError option"
  vi_Unmarshal :: "Settings \<Rightarrow> go_error + Settings"

definition initViper :: "viperLib \<Rightarrow> go_error + Settings" where
  "initViper viper =
     (case vi_ReadInConfig viper of
        Some (ReadError e) \<Rightarrow> Inl e
      | _ \<Rightarrow> vi_Unmarshal viper defaultSettings)"

definition MustLoad :: "viperLib \<Rightarrow> Settings outcome" where
  "MustLoad viper = (case Load (initViper viper) of Inl e \<Rightarrow> Panic | Inr s \<Rightarrow> Ok s)"

definition infoEntry :: "string \<Rightarrow> zapField list \<Rightarrow> logEntry" where
  "infoEntry msg zf = \<lparr>le_Level = InfoLevel, le_Msg = msg, le_Fields = zf\<rparr>"

definition LogStartupInfo :: "buildMetadata \<Rightarrow> go_error + int \<times> int \<Rightarrow> string \<Rightarrow> logEntry list" where
  "LogStartupInfo bm rlimit gomemlimit =
     [infoEntry ''Build information''
        [(''build_timestamp'', ZString (bm_BuildTimestamp bm)), (''vcs'', ZString (bm_Vcs bm)),
         (''vcs_modified'', ZString (bm_VcsModified bm)), (''vcs_revision'', ZString (bm_VcsRevision bm)),
         (''vcs_timestamp'', ZString (bm_VcsTimestamp bm))],
      (case rlimit of
         Inl e \<Rightarrow> \<lparr>le_Level = ErrorLevel, le_Msg = ''Getrlimit(RLIMIT_NOFILE) error'', le_Fields = [(''error'', ZError e)]\<rparr>
       | Inr (cur, maximum) \<Rightarrow>
           infoEntry ''Resource limits''
             [(''rlimit_nofile_soft'', ZInt cur), (''rlimit_nofile_hard'', ZInt maximum), (''gomemlimit'', ZString gomemlimit)])]"

section \<open>The log lists of the process (loglists/filter.go, init)\<close>

text \<open>The derived lists, and the timestamp they all get if the version of the module has one.\<close>

definition initLoglists :: "go_error option \<Rightarrow> go_error + ctloglists \<Rightarrow> go_error + time \<Rightarrow> (webLists \<times> time option) outcome" where
  "initLoglists acceptedRoots loaded release =
     (case (acceptedRoots, loaded) of
        (None, Inr cl) \<Rightarrow>
          (case determineUsableTLSLogs cl of
             Ok usable \<Rightarrow>
               Ok (\<lparr>wl_UsableTLSLogs = usable, wl_ActiveTLSLogs = determineActiveTLSLogs cl,
                    wl_TestTLSLogs = determineTestTLSLogs cl, wl_UsableBIMILogs = determineUsableBIMILogs cl\<rparr>,
                   case release of Inr t \<Rightarrow> Some t | Inl e \<Rightarrow> None)
           | Err e \<Rightarrow> Err e
           | Panic \<Rightarrow> Panic)
      | _ \<Rightarrow> Panic)"

section \<open>The HTTP servers (server/server.go)\<close>

datatype serverName = WebServer | MonitoringServer

datatype listenAddress = TCP string | UnixSocket string nat

definition newServer :: "Settings \<Rightarrow> fhServer" where
  "newServer cfg =
     \<lparr>sv_ReadTimeout = server_ReadTimeout cfg, sv_IdleTimeout = server_IdleTimeout cfg,
      sv_DisableKeepalive = server_DisableKeepalive cfg, sv_CloseOnShutdown = True, sv_NoDefaultServerHeader = True,
      sv_Concurrency = 0, sv_MaxConnsPerIP = 0\<rparr>"

definition webListeners :: "Settings \<Rightarrow> (serverName \<times> listenAddress) list" where
  "webListeners cfg =
     (if server_WebserverPort cfg \<noteq> 0 then [(WebServer, TCP ('':'' @ showInt (server_WebserverPort cfg)))] else []) @
     (if server_WebserverPath cfg \<noteq> [] then [(WebServer, UnixSocket (server_WebserverPath cfg) (server_SocketPermissions cfg))] else [])"

definition monitoringListenAddr :: "Settings \<Rightarrow> string" where
  "monitoringListenAddr cfg = server_MonitoringAddress cfg @ '':'' @ showInt (server_MonitoringPort cfg)"

definition monitoringListeners :: "Settings \<Rightarrow> (serverName \<times> listenAddress) list" where
  "monitoringListeners cfg =
     (if server_MonitoringPort cfg \<noteq> 0 then [(MonitoringServer, TCP (monitoringListenAddr cfg))] else []) @
     (if server_MonitoringPath cfg \<noteq> [] then [(MonitoringServer, UnixSocket (server_MonitoringPath cfg) (server_SocketPermissions cfg))] else [])"

definition runEntries :: "Settings \<Rightarrow> logEntry list" where
  "runEntries cfg =
     (if server_WebserverPort cfg \<noteq> 0 then [infoEntry ''Starting WebServer'' [(''port'', ZInt (server_WebserverPort cfg))]] else []) @
     (if server_WebserverPath cfg \<noteq> [] then [infoEntry ''Starting WebServer'' [(''path'', ZString (server_WebserverPath cfg))]] else []) @
     (if server_MonitoringPort cfg \<noteq> 0 then
        (if server_MonitoringAddress cfg = [] \<or> server_MonitoringAddress cfg = ''0.0.0.0'' then
           [\<lparr>le_Level = WarnLevel,
             le_Msg = ''MonitoringServer is binding to all interfaces; set server.monitoringAddress (e.g. \"127.0.0.1\") '' @
               ''to restrict access in hardened/sidecar deployments'',
             le_Fields = [(''port'', ZInt (server_MonitoringPort cfg))]\<rparr>]
         else []) @
        [infoEntry ''Starting MonitoringServer'' [(''address'', ZString (monitoringListenAddr cfg))]]
      else []) @
     (if server_MonitoringPath cfg \<noteq> [] then [infoEntry ''Starting MonitoringServer'' [(''path'', ZString (server_MonitoringPath cfg))]] else [])"

text \<open>Run sets up both servers and starts a goroutine per configured address; one that fails ends the process.\<close>

record runningServers =
  run_web :: fhServer
  run_monitoring :: fhServer
  run_listeners :: "(serverName \<times> listenAddress) list"
  run_log :: "logEntry list"

definition Run :: "Settings \<Rightarrow> runningServers" where
  "Run cfg =
     \<lparr>run_web = newServer cfg, run_monitoring = newServer cfg, run_listeners = webListeners cfg @ monitoringListeners cfg,
      run_log = runEntries cfg\<rparr>"

definition shutdownEntries :: "string \<Rightarrow> string \<Rightarrow> go_error option \<Rightarrow> logEntry list" where
  "shutdownEntries server variable err =
     [infoEntry (''Stopping '' @ server @ '' (gracefully)'') []] @
     (case err of
        Some e \<Rightarrow> [\<lparr>le_Level = ErrorLevel, le_Msg = variable @ ''.Shutdown failed'', le_Fields = [(''error'', ZError e)]\<rparr>]
      | None \<Rightarrow> []) @
     [infoEntry (''Stopped '' @ server) []]"

definition Shutdown :: "go_error option \<Rightarrow> go_error option \<Rightarrow> logEntry list" where
  "Shutdown webErr monitoringErr =
     shutdownEntries ''WebServer'' ''webServer'' webErr @ shutdownEntries ''MonitoringServer'' ''monitoringServer'' monitoringErr"

section \<open>The process (main.go)\<close>

record ('lgr, 'data) startupEnv =
  se_viper :: viperLib
  se_zap :: "'lgr zapLib"
  se_metadata :: buildMetadata
  se_rlimit :: "go_error + int \<times> int"
  se_gomemlimit :: string
  se_acceptedRoots :: "go_error option"
  se_ctloglists :: "go_error + ctloglists"
  se_verifiers :: "bytes set"
  se_semverIsValid :: "string \<Rightarrow> bool"
  se_parseError :: "string \<Rightarrow> string"
  se_buildDeps :: "(string \<times> string) list option"
  se_custom :: customLib
  se_readFile :: "string \<Rightarrow> go_error + 'data"
  se_newFromJSON :: "'data \<Rightarrow> go_error + (logList \<times> time)"
  se_modTime :: "string \<Rightarrow> time option"
  se_joinSlash :: "string \<Rightarrow> string"
  se_rfcKeyOK :: "bytes \<Rightarrow> bool"
  se_staticKeyOK :: "string \<Rightarrow> bytes \<Rightarrow> bool"
  se_compile :: "string \<Rightarrow> (string \<Rightarrow> bool) option"

record 'lgr process =
  pr_cfg :: Settings
  pr_lgr :: 'lgr
  pr_XFFUseFirstIPAddress :: bool
  pr_lists :: webLists
  pr_loglists :: loglistsState
  pr_mon :: Monitor
  pr_sub :: Submitter
  pr_health :: Health
  pr_servers :: runningServers
  pr_log :: "logEntry list"

text \<open>A fatal error ends the process with a message; a panic ends it too.\<close>

datatype 'a started = Running 'a | Fatal string | Crashed

definition newFromConfig ::
  "('lgr, 'data) startupEnv \<Rightarrow> ctloglists \<Rightarrow> webLists \<Rightarrow> time option \<Rightarrow> Settings \<Rightarrow> bool \<Rightarrow> 'lgr \<Rightarrow> 'lgr process started" where
  "newFromConfig env cl wl timestamp cfg useFirst lgr =
     (let st0 = \<lparr>lg_TestTLSLogs = wl_TestTLSLogs wl, lg_TestTimestamp = (case timestamp of Some t \<Rightarrow> t | None \<Rightarrow> zeroTime),
                 lg_customTestLogList = None, lg_verifiers = se_verifiers env\<rparr>;
          filename = strategy_TestLogListFilename cfg in
      case LoadCustomTestLogList (se_custom env) filename (se_readFile env filename) (se_newFromJSON env) (se_modTime env filename) st0 of
        (Some e, st) \<Rightarrow> Fatal ''Failed to load custom test log list''
      | (None, st) \<Rightarrow>
          let mon = newMonitor cfg (se_joinSlash env) (se_rfcKeyOK env) (se_staticKeyOK env)
                      (monitoredLogLists (cl_CrtshV3Active cl) (lg_customTestLogList st)) in
          (case newSubmitter (se_compile env) cfg of
             Ok sub \<Rightarrow>
               Running \<lparr>pr_cfg = cfg, pr_lgr = lgr, pr_XFFUseFirstIPAddress = useFirst,
                 pr_lists = wl\<lparr>wl_TestTLSLogs := lg_TestTLSLogs st\<rparr>, pr_loglists = st, pr_mon = mon, pr_sub = sub,
                 pr_health = newHealth, pr_servers = Run cfg,
                 pr_log = LogStartupInfo (se_metadata env) (se_rlimit env) (se_gomemlimit env) @ run_log (Run cfg)\<rparr>
           | _ \<Rightarrow> Crashed))"

definition main :: "('lgr, 'data) startupEnv \<Rightarrow> 'lgr process started" where
  "main env =
     (case initLoglists (se_acceptedRoots env) (se_ctloglists env)
             (getCtloglistsReleaseTimestamp (se_semverIsValid env) (se_parseError env) (se_buildDeps env)) of
        Ok (wl, timestamp) \<Rightarrow>
          (case Load (initViper (se_viper env)) of
             Inl e \<Rightarrow> Fatal (''Failed to load configuration: '' @ errorString e)
           | Inr cfg \<Rightarrow>
               (case InitLogger (se_zap env) cfg of
                  (useFirst, Inl e) \<Rightarrow> Fatal (''Failed to initialize logger: '' @ errorString e)
                | (useFirst, Inr lgr) \<Rightarrow>
                    newFromConfig env (projr (se_ctloglists env)) wl timestamp cfg useFirst lgr))
      | _ \<Rightarrow> Crashed)"

text \<open>
  The goroutine that loads the initial data: the uptimes are fetched, then the fetches of the tree
  heads are started (each a goroutine of its own), then the service counts as ready.
\<close>

definition initialDataFetch ::
  "(string \<Rightarrow> string) \<Rightarrow> logList list \<Rightarrow> (string \<Rightarrow> float64 option) \<Rightarrow>
     go_error + (int \<times> (go_error + string)) \<Rightarrow> go_error + (int \<times> (go_error + string)) \<Rightarrow>
     Monitor \<times> Health \<Rightarrow> (Monitor \<times> Health) outcome" where
  "initialDataFetch joinSlash lls parseFloat resp24h resp90d mh =
     (case FetchEndpointUptimes joinSlash lls parseFloat resp24h resp90d (fst mh) of
        Ok m \<Rightarrow> Ok (m, SetInitialDataReady (snd mh))
      | Err e \<Rightarrow> Err e
      | Panic \<Rightarrow> Panic)"

text \<open>The deferred calls of main, last one first, once a signal has ended its wait.\<close>

datatype exitStep = ShutdownServers "logEntry list" | WaitForGoroutines | LogExit logEntry | StopSignals

definition exitSteps :: "go_error option \<Rightarrow> go_error option \<Rightarrow> exitStep list" where
  "exitSteps webErr monitoringErr =
     [ShutdownServers (Shutdown webErr monitoringErr), WaitForGoroutines, LogExit (infoEntry ''Shutting down'' []), StopSignals]"

section \<open>What the monitor knows at the start\<close>

definition freshlyMonitored :: "Monitor \<Rightarrow> string \<Rightarrow> bool" where
  "freshlyMonitored m u \<longleftrightarrow>
     mon_backoffBadResponse m u = Some emptyBackoff \<and> mon_backoffTimeout m u = Some emptyBackoff \<and>
     mon_backoff5xx m u = Some emptyBackoff \<and> mon_backoff4xx m u = Some emptyBackoff \<and>
     mon_backoffSlowResponse m u = Some emptyBackoff \<and> mon_uptime24h m u = Some None \<and> mon_uptime90d m u = Some None"

lemma fold_initBackoffEntries:
  "mon_backoffBadResponse (fold (\<lambda>u m. initBackoffEntries m u) us m) u = (if u \<in> set us then Some emptyBackoff else mon_backoffBadResponse m u)"
  "mon_backoffTimeout (fold (\<lambda>u m. initBackoffEntries m u) us m) u = (if u \<in> set us then Some emptyBackoff else mon_backoffTimeout m u)"
  "mon_backoff5xx (fold (\<lambda>u m. initBackoffEntries m u) us m) u = (if u \<in> set us then Some emptyBackoff else mon_backoff5xx m u)"
  "mon_backoff4xx (fold (\<lambda>u m. initBackoffEntries m u) us m) u = (if u \<in> set us then Some emptyBackoff else mon_backoff4xx m u)"
  "mon_backoffSlowResponse (fold (\<lambda>u m. initBackoffEntries m u) us m) u = (if u \<in> set us then Some emptyBackoff else mon_backoffSlowResponse m u)"
  by (induction us arbitrary: m) (simp_all add: initBackoffEntries_def)

lemma newMonitor_fresh:
  "u \<in> set (monitoredSubmissionURLs joinSlash lls) \<Longrightarrow> freshlyMonitored (newMonitor cfg joinSlash rfcKeyOK staticKeyOK lls) u"
  by (simp add: freshlyMonitored_def newMonitor_def initUptimeMaps_def initSTHData_def initBackoffMaps_def
      fold_initBackoffEntries initializeUptimeMap_apply)

text \<open>The submission URLs of a list, as the monitor and the strategy know its logs.\<close>

definition submissionURLs :: "(string \<Rightarrow> string) \<Rightarrow> logList \<Rightarrow> string list" where
  "submissionURLs joinSlash ll = map (\<lambda>l. joinSlash (log_URL l)) (allLogs ll) @ map (\<lambda>t. joinSlash (tl_SubmissionURL t)) (allTiledLogs ll)"

lemma monitoredSubmissionURLs_list:
  "ll \<in> set lls \<Longrightarrow> set (submissionURLs joinSlash ll) \<subseteq> set (monitoredSubmissionURLs joinSlash lls)"
  by (fastforce simp: submissionURLs_def monitoredSubmissionURLs_def allLogs_def allTiledLogs_def)

lemma filterOperators_URLs: "set (submissionURLs joinSlash (filterOperators p q ll)) \<subseteq> set (submissionURLs joinSlash ll)"
  by (fastforce simp: submissionURLs_def filterOperators_def allLogs_def allTiledLogs_def)

lemma LoadCustomTestLogList_list:
  "LoadCustomTestLogList lib filename readFile newFromJSON modTime st = (None, st') \<Longrightarrow>
     filename = [] \<and> st' = st \<or> lg_customTestLogList st' = Some (lg_TestTLSLogs st')"
  by (auto simp: LoadCustomTestLogList_def split: if_splits sum.splits option.splits prod.splits)

lemma initLoglists_Ok:
  assumes "initLoglists acceptedRoots loaded release = Ok (wl, timestamp)"
  shows "\<exists>cl. loaded = Inr cl \<and> wl_ActiveTLSLogs wl = determineActiveTLSLogs cl \<and> wl_TestTLSLogs wl = determineTestTLSLogs cl \<and>
    determineUsableTLSLogs cl = Ok (wl_UsableTLSLogs wl)"
  using assms by (auto simp: initLoglists_def split: option.splits sum.splits outcome.splits)

text \<open>What is there once main has started everything.\<close>

lemma main_Running:
  assumes "main env = Running p"
  obtains cl wl timestamp st0 st where "se_ctloglists env = Inr cl"
    "wl_ActiveTLSLogs wl = determineActiveTLSLogs cl" "wl_TestTLSLogs wl = determineTestTLSLogs cl"
    "Load (initViper (se_viper env)) = Inr (pr_cfg p)" "lg_TestTLSLogs st0 = wl_TestTLSLogs wl" "lg_customTestLogList st0 = None"
    "LoadCustomTestLogList (se_custom env) (strategy_TestLogListFilename (pr_cfg p))
       (se_readFile env (strategy_TestLogListFilename (pr_cfg p))) (se_newFromJSON env)
       (se_modTime env (strategy_TestLogListFilename (pr_cfg p))) st0 = (None, st)"
    "pr_mon p = newMonitor (pr_cfg p) (se_joinSlash env) (se_rfcKeyOK env) (se_staticKeyOK env)
       (monitoredLogLists (cl_CrtshV3Active cl) (lg_customTestLogList st))"
    "pr_lists p = wl\<lparr>wl_TestTLSLogs := lg_TestTLSLogs st\<rparr>" "pr_health p = newHealth" "pr_servers p = Run (pr_cfg p)"
    "newSubmitter (se_compile env) (pr_cfg p) = Ok (pr_sub p)"
proof -
  obtain wl timestamp where wl: "initLoglists (se_acceptedRoots env) (se_ctloglists env)
      (getCtloglistsReleaseTimestamp (se_semverIsValid env) (se_parseError env) (se_buildDeps env)) = Ok (wl, timestamp)"
    using assms by (auto simp: main_def split: outcome.splits)
  obtain cl where cl: "se_ctloglists env = Inr cl" "wl_ActiveTLSLogs wl = determineActiveTLSLogs cl" "wl_TestTLSLogs wl = determineTestTLSLogs cl"
    using initLoglists_Ok [OF wl] by blast
  obtain cfg where cfg: "Load (initViper (se_viper env)) = Inr cfg"
    using assms wl by (auto simp: main_def split: sum.splits)
  obtain useFirst lgr where lgr: "InitLogger (se_zap env) cfg = (useFirst, Inr lgr)"
    using assms wl cfg by (auto simp: main_def split: prod.splits sum.splits)
  have p: "newFromConfig env cl wl timestamp cfg useFirst lgr = Running p"
    using assms wl cl(1) cfg lgr by (simp add: main_def)
  let ?st0 = "\<lparr>lg_TestTLSLogs = wl_TestTLSLogs wl, lg_TestTimestamp = (case timestamp of Some t \<Rightarrow> t | None \<Rightarrow> zeroTime),
    lg_customTestLogList = None, lg_verifiers = se_verifiers env\<rparr>"
  let ?f = "strategy_TestLogListFilename cfg"
  obtain err st where st: "LoadCustomTestLogList (se_custom env) ?f (se_readFile env ?f) (se_newFromJSON env) (se_modTime env ?f) ?st0 = (err, st)"
    by fastforce
  have none: "err = None" using p st by (cases err) (auto simp: newFromConfig_def Let_def)
  obtain sub where sub: "newSubmitter (se_compile env) cfg = Ok sub"
    using p st none by (auto simp: newFromConfig_def Let_def split: outcome.splits)
  have "pr_cfg p = cfg" "pr_mon p = newMonitor cfg (se_joinSlash env) (se_rfcKeyOK env) (se_staticKeyOK env)
      (monitoredLogLists (cl_CrtshV3Active cl) (lg_customTestLogList st))"
    "pr_lists p = wl\<lparr>wl_TestTLSLogs := lg_TestTLSLogs st\<rparr>" "pr_health p = newHealth" "pr_servers p = Run cfg" "pr_sub p = sub"
    using p st none sub by (auto simp: newFromConfig_def Let_def)
  then show thesis using that [of cl wl ?st0 st] cl cfg st none sub by simp
qed

text \<open>The lists a request chooses from, except the usable ones, hold monitored logs only.\<close>

lemma started_lists_monitored:
  assumes "main env = Running p" and "ll \<in> {wl_ActiveTLSLogs (pr_lists p), wl_TestTLSLogs (pr_lists p)}"
    and "u \<in> set (submissionURLs (se_joinSlash env) ll)"
  shows "freshlyMonitored (pr_mon p) u"
  using assms(1)
proof (rule main_Running)
  fix cl :: ctloglists and wl :: webLists and st0 st :: loglistsState
  let ?f = "strategy_TestLogListFilename (pr_cfg p)" and ?lls = "monitoredLogLists (cl_CrtshV3Active cl) (lg_customTestLogList st)"
  assume lists: "wl_ActiveTLSLogs wl = determineActiveTLSLogs cl" "wl_TestTLSLogs wl = determineTestTLSLogs cl"
    and st0: "lg_TestTLSLogs st0 = wl_TestTLSLogs wl"
    and load: "LoadCustomTestLogList (se_custom env) ?f (se_readFile env ?f) (se_newFromJSON env) (se_modTime env ?f) st0 = (None, st)"
    and mon: "pr_mon p = newMonitor (pr_cfg p) (se_joinSlash env) (se_rfcKeyOK env) (se_staticKeyOK env) ?lls"
    and pl: "pr_lists p = wl\<lparr>wl_TestTLSLogs := lg_TestTLSLogs st\<rparr>"
  have crtsh: "set (submissionURLs (se_joinSlash env) (cl_CrtshV3Active cl)) \<subseteq> set (monitoredSubmissionURLs (se_joinSlash env) ?lls)"
    by (rule monitoredSubmissionURLs_list) (simp add: monitoredLogLists_def)
  have "ll = determineActiveTLSLogs cl \<or> ll = determineTestTLSLogs cl \<or> lg_customTestLogList st = Some ll"
    using assms(2) LoadCustomTestLogList_list [OF load] by (auto simp: pl lists st0)
  then have "set (submissionURLs (se_joinSlash env) ll) \<subseteq> set (monitoredSubmissionURLs (se_joinSlash env) ?lls)"
  proof (elim disjE)
    assume "lg_customTestLogList st = Some ll"
    then show ?thesis by (intro monitoredSubmissionURLs_list) (simp add: monitoredLogLists_def)
  qed (use crtsh filterOperators_URLs in \<open>unfold determineActiveTLSLogs_def determineTestTLSLogs_def, blast+\<close>)
  then show ?thesis using newMonitor_fresh assms(3) by (auto simp: mon)
qed


text \<open>A start with a custom list of one test log.\<close>

definition exTestList :: logList where
  "exTestList = [\<lparr>op_Name = ''T'', op_Logs = [exListed [9] ''https://test.example/'' 0 None], op_TiledLogs = []\<rparr>]"

definition exStartup :: "(unit, unit) startupEnv" where
  "exStartup =
     \<lparr>se_viper = \<lparr>vi_ReadInConfig = Some ConfigFileNotFound, vi_Unmarshal = (\<lambda>d. Inr (d\<lparr>strategy_TestLogListFilename := ''f''\<rparr>))\<rparr>,
      se_zap = \<lparr>zl_DevelopmentConfig = \<lparr>zc_Level = DebugLevel, zc_DisableCaller = False, zc_Sampling = None, zc_TimeKey = ''ts'',
                  zc_EncodeTime = ISO8601TimeEncoder, zc_EncodeDuration = StringDurationEncoder\<rparr>,
                zl_ProductionConfig = \<lparr>zc_Level = InfoLevel, zc_DisableCaller = False, zc_Sampling = Some (100, 100), zc_TimeKey = ''ts'',
                  zc_EncodeTime = EpochTimeEncoder, zc_EncodeDuration = SecondsDurationEncoder\<rparr>,
                zl_ParseAtomicLevel = (\<lambda>s. Inl (Errorf ''unrecognized level'')), zl_Build = (\<lambda>c. Inr ())\<rparr>,
      se_metadata = \<lparr>bm_BuildTimestamp = [], bm_Vcs = ''git'', bm_VcsModified = [], bm_VcsRevision = [], bm_VcsTimestamp = [], bm_CtsubmitVersion = []\<rparr>,
      se_rlimit = Inr (1024, 4096), se_gomemlimit = [], se_acceptedRoots = None, se_ctloglists = Inr exPrograms, se_verifiers = {},
      se_semverIsValid = (\<lambda>v. True), se_parseError = id, se_buildDeps = None,
      se_custom = \<lparr>cu_quote = id, cu_sha256 = id, cu_newVerifier = (\<lambda>_. None)\<rparr>, se_readFile = (\<lambda>f. Inr ()),
      se_newFromJSON = (\<lambda>d. Inr (exTestList, 5)), se_modTime = (\<lambda>f. None),
      se_joinSlash = id, se_rfcKeyOK = (\<lambda>k. True), se_staticKeyOK = (\<lambda>n k. True), se_compile = (\<lambda>p. None)\<rparr>"


end
