(* ===== verification/Loglists_Store.thy ===== *)
theory Loglists_Store
  imports Startup
begin

text \<open>
  The package loglists with its pointers: a log list holds the addresses of its logs in a store, a
  selection or an intersection of a list shares its logs, and intersect and useCrtshLogNames write
  through the addresses (filter.go, logNames.go). Loglists computes the same lists on copies; that
  the two agree is shown in Loglists_Store_Correct.
\<close>

section \<open>Lists of addresses\<close>

record logStore =
  ms_log :: "nat \<Rightarrow> ctLog"
  ms_tiled :: "nat \<Rightarrow> tiledLog"

record operatorRef =
  or_Name :: string
  or_Logs :: "nat list"
  or_TiledLogs :: "nat list"

type_synonym logListRef = "operatorRef list"

definition derefOperator :: "logStore \<Rightarrow> operatorRef \<Rightarrow> operator" where
  "derefOperator mem op =
     \<lparr>op_Name = or_Name op, op_Logs = map (ms_log mem) (or_Logs op), op_TiledLogs = map (ms_tiled mem) (or_TiledLogs op)\<rparr>"

definition deref :: "logStore \<Rightarrow> logListRef \<Rightarrow> logList" where
  "deref mem ll = map (derefOperator mem) ll"

definition logRefs :: "logListRef \<Rightarrow> nat list" where
  "logRefs ll = concat (map or_Logs ll)"

definition tiledRefs :: "logListRef \<Rightarrow> nat list" where
  "tiledRefs ll = concat (map or_TiledLogs ll)"

section \<open>Intersecting in place (filter.go)\<close>

definition keepMatchRef ::
  "('l \<Rightarrow> 'l \<Rightarrow> bool) \<Rightarrow> ('l \<Rightarrow> 'l \<Rightarrow> 'l outcome) \<Rightarrow> nat list \<Rightarrow> nat \<Rightarrow> (nat \<Rightarrow> 'l) \<times> nat list \<Rightarrow>
     ((nat \<Rightarrow> 'l) \<times> nat list) outcome" where
  "keepMatchRef matches merge refs2 a st =
     (let mem = fst st in
      case find (\<lambda>b. matches (mem a) (mem b)) refs2 of
        None \<Rightarrow> Ok st
      | Some b \<Rightarrow>
          (case merge (mem a) (mem b) of
             Ok lg \<Rightarrow> Ok (mem(a := lg), snd st @ [a])
           | Err e \<Rightarrow> Err e
           | Panic \<Rightarrow> Panic))"

definition intersectLogsRef :: "logListRef \<Rightarrow> nat list \<Rightarrow> (nat \<Rightarrow> ctLog) \<Rightarrow> ((nat \<Rightarrow> ctLog) \<times> nat list) outcome" where
  "intersectLogsRef ll2 refs mem =
     foldO (\<lambda>operator2. foldO (keepMatchRef sameLogID mergeLog (or_Logs operator2)) refs) ll2 (mem, [])"

definition intersectTiledLogsRef :: "logListRef \<Rightarrow> nat list \<Rightarrow> (nat \<Rightarrow> tiledLog) \<Rightarrow> ((nat \<Rightarrow> tiledLog) \<times> nat list) outcome" where
  "intersectTiledLogsRef ll2 refs mem =
     foldO (\<lambda>a. foldO (\<lambda>operator2. keepMatchRef sameTiledLogID mergeTiledLog (or_TiledLogs operator2) a) ll2) refs (mem, [])"

definition intersectOperatorRef :: "logListRef \<Rightarrow> operatorRef \<Rightarrow> logStore \<times> logListRef \<Rightarrow> (logStore \<times> logListRef) outcome" where
  "intersectOperatorRef ll2 operator1 st =
     (case intersectLogsRef ll2 (or_Logs operator1) (ms_log (fst st)) of
        Ok (logs, kept) \<Rightarrow>
          (case intersectTiledLogsRef ll2 (or_TiledLogs operator1) (ms_tiled (fst st)) of
             Ok (tiledLogs, keptTiled) \<Rightarrow>
               let op = operator1\<lparr>or_Logs := kept, or_TiledLogs := keptTiled\<rparr> in
               Ok (\<lparr>ms_log = logs, ms_tiled = tiledLogs\<rparr>,
                   if 0 < length (or_Logs op) \<or> 0 < length (or_TiledLogs op) then snd st @ [op] else snd st)
           | Err e \<Rightarrow> Err e
           | Panic \<Rightarrow> Panic)
      | Err e \<Rightarrow> Err e
      | Panic \<Rightarrow> Panic)"

definition intersectRef :: "logListRef \<Rightarrow> logListRef \<Rightarrow> logStore \<Rightarrow> (logStore \<times> logListRef) outcome" where
  "intersectRef ll1 ll2 mem = foldO (intersectOperatorRef ll2) ll1 (mem, [])"

section \<open>Naming in place (logNames.go)\<close>

definition nameLogRef :: "logListRef \<Rightarrow> nat \<Rightarrow> logStore \<Rightarrow> logStore" where
  "nameLogRef crtsh a mem =
     mem\<lparr>ms_log := (ms_log mem)(a := useCrtshLogNameForRFC6962Log (deref mem crtsh) (ms_log mem a))\<rparr>"

definition nameTiledLogRef :: "logListRef \<Rightarrow> nat \<Rightarrow> logStore \<Rightarrow> logStore" where
  "nameTiledLogRef crtsh a mem =
     mem\<lparr>ms_tiled := (ms_tiled mem)(a := useCrtshLogNameForStaticLog (deref mem crtsh) (ms_tiled mem a))\<rparr>"

definition useCrtshLogNamesRef :: "logListRef \<Rightarrow> logListRef \<Rightarrow> logStore \<Rightarrow> logStore" where
  "useCrtshLogNamesRef crtsh ll mem =
     fold (\<lambda>op mem1. fold (nameTiledLogRef crtsh) (or_TiledLogs op) (fold (nameLogRef crtsh) (or_Logs op) mem1)) ll mem"

section \<open>The derived lists (filter.go)\<close>

text \<open>The lists as ctloglists has loaded them; its selection by status reads the store.\<close>

record ctloglistsRef =
  cr_GstaticV3All :: logListRef
  cr_AppleCurrent :: logListRef
  cr_MozillaV3Known :: logListRef
  cr_BimiV3Approved :: logListRef
  cr_CrtshV3Active :: logListRef
  cr_CrtshV3All :: logListRef
  cr_SelectByStatus :: "logStatus list \<Rightarrow> logStore \<Rightarrow> logListRef \<Rightarrow> logListRef"

definition determineUsableTLSLogsRef :: "ctloglistsRef \<Rightarrow> logStore \<Rightarrow> (logStore \<times> logListRef) outcome" where
  "determineUsableTLSLogsRef cr mem =
     (let chromeUsableLogs = cr_SelectByStatus cr [UsableLogStatus] mem (cr_GstaticV3All cr);
          appleUsableLogs = cr_SelectByStatus cr [UsableLogStatus] mem (cr_AppleCurrent cr);
          mozillaAdmissibleLogs = cr_SelectByStatus cr [QualifiedLogStatus, UsableLogStatus] mem (cr_MozillaV3Known cr)
      in case intersectRef chromeUsableLogs appleUsableLogs mem of
           Ok (mem1, both) \<Rightarrow>
             (case intersectRef both mozillaAdmissibleLogs mem1 of
                Ok (mem2, usable) \<Rightarrow> Ok (useCrtshLogNamesRef (cr_CrtshV3All cr) usable mem2, usable)
              | Err e \<Rightarrow> Err e
              | Panic \<Rightarrow> Panic)
         | Err e \<Rightarrow> Err e
         | Panic \<Rightarrow> Panic)"

definition filterOperatorsRef :: "(ctLog \<Rightarrow> bool) \<Rightarrow> (tiledLog \<Rightarrow> bool) \<Rightarrow> logStore \<Rightarrow> logListRef \<Rightarrow> logListRef" where
  "filterOperatorsRef keepLog keepTiled mem ll =
     filter (\<lambda>op. 0 < length (or_Logs op) \<or> 0 < length (or_TiledLogs op))
       (map (\<lambda>op. op\<lparr>or_Logs := filter (\<lambda>a. keepLog (ms_log mem a)) (or_Logs op),
                       or_TiledLogs := filter (\<lambda>a. keepTiled (ms_tiled mem a)) (or_TiledLogs op)\<rparr>) ll)"

definition determineActiveTLSLogsRef :: "ctloglistsRef \<Rightarrow> logStore \<Rightarrow> logListRef" where
  "determineActiveTLSLogsRef cr mem =
     filterOperatorsRef
       (\<lambda>l. log_Type l \<noteq> ''test'' \<and> FindLogByURL (deref mem (cr_BimiV3Approved cr)) (log_URL l) = None)
       (\<lambda>l. tl_Type l \<noteq> ''test'' \<and> FindTiledLogByURL (deref mem (cr_BimiV3Approved cr)) (tl_SubmissionURL l) = None)
       mem (cr_CrtshV3Active cr)"

definition determineTestTLSLogsRef :: "ctloglistsRef \<Rightarrow> logStore \<Rightarrow> logListRef" where
  "determineTestTLSLogsRef cr mem =
     filterOperatorsRef
       (\<lambda>l. log_Type l = ''test'' \<and> FindLogByURL (deref mem (cr_BimiV3Approved cr)) (log_URL l) = None)
       (\<lambda>l. tl_Type l = ''test'' \<and> FindTiledLogByURL (deref mem (cr_BimiV3Approved cr)) (tl_SubmissionURL l) = None)
       mem (cr_CrtshV3Active cr)"

definition determineUsableBIMILogsRef :: "ctloglistsRef \<Rightarrow> logStore \<Rightarrow> logStore \<times> logListRef" where
  "determineUsableBIMILogsRef cr mem =
     (let usableBimiLogs = cr_SelectByStatus cr [UsableLogStatus] mem (cr_BimiV3Approved cr)
      in (useCrtshLogNamesRef (cr_CrtshV3All cr) usableBimiLogs mem, usableBimiLogs))"

text \<open>The package's init, in its order; its four variables point to lists of shared logs.\<close>

record derivedRefs =
  dr_UsableTLSLogs :: logListRef
  dr_ActiveTLSLogs :: logListRef
  dr_TestTLSLogs :: logListRef
  dr_UsableBIMILogs :: logListRef

definition initLoglistsRef ::
  "go_error option \<Rightarrow> go_error + ctloglistsRef \<Rightarrow> go_error + time \<Rightarrow> logStore \<Rightarrow>
     (logStore \<times> derivedRefs \<times> time option) outcome" where
  "initLoglistsRef acceptedRoots loadLogLists release mem =
     (case (acceptedRoots, loadLogLists) of
        (None, Inr cr) \<Rightarrow>
          (case determineUsableTLSLogsRef cr mem of
             Ok (mem1, usable) \<Rightarrow>
               let active = determineActiveTLSLogsRef cr mem1;
                   test = determineTestTLSLogsRef cr mem1;
                   (mem2, bimi) = determineUsableBIMILogsRef cr mem1
               in Ok (mem2,
                      \<lparr>dr_UsableTLSLogs = usable, dr_ActiveTLSLogs = active, dr_TestTLSLogs = test, dr_UsableBIMILogs = bimi\<rparr>,
                      case release of Inr t \<Rightarrow> Some t | Inl e \<Rightarrow> None)
           | Err e \<Rightarrow> Err e
           | Panic \<Rightarrow> Panic)
      | _ \<Rightarrow> Panic)"

text \<open>The lists as they read from a store.\<close>

definition derefLists :: "logStore \<Rightarrow> derivedRefs \<Rightarrow> webLists" where
  "derefLists mem dr =
     \<lparr>wl_UsableTLSLogs = deref mem (dr_UsableTLSLogs dr), wl_ActiveTLSLogs = deref mem (dr_ActiveTLSLogs dr),
      wl_TestTLSLogs = deref mem (dr_TestTLSLogs dr), wl_UsableBIMILogs = deref mem (dr_UsableBIMILogs dr)\<rparr>"

definition derefLoaded :: "(logStatus list \<Rightarrow> logList \<Rightarrow> logList) \<Rightarrow> logStore \<Rightarrow> ctloglistsRef \<Rightarrow> ctloglists" where
  "derefLoaded select mem cr =
     \<lparr>cl_GstaticV3All = deref mem (cr_GstaticV3All cr), cl_AppleCurrent = deref mem (cr_AppleCurrent cr),
      cl_MozillaV3Known = deref mem (cr_MozillaV3Known cr), cl_BimiV3Approved = deref mem (cr_BimiV3Approved cr),
      cl_CrtshV3Active = deref mem (cr_CrtshV3Active cr), cl_CrtshV3All = deref mem (cr_CrtshV3All cr),
      cl_SelectByStatus = select\<rparr>"

end
