(* ===== verification/Loglists_Store_Correct.thy ===== *)
theory Loglists_Store_Correct
  imports Loglists_Store
begin

text \<open>
  Sharing and writing in place are harmless: the lists that the package derives, read from the store
  at the end of its initialisation, are those that Loglists derives from copies, and the lists that
  it only reads are as they were loaded. The loops on addresses are related to the loops on
  positions in an operator's copied logs, then whole lists by frame conditions on the store.
\<close>

section \<open>The loops on addresses and on copies\<close>

lemma foldO_hom:
  assumes step: "\<And>x s. x \<in> set xs \<Longrightarrow> P s \<Longrightarrow> f' (h x) (g s) = map_outcome g (f x s)"
    and keep: "\<And>x s s'. x \<in> set xs \<Longrightarrow> P s \<Longrightarrow> f x s = Ok s' \<Longrightarrow> P s'"
  shows "P s \<Longrightarrow> foldO f' (map h xs) (g s) = map_outcome g (foldO f xs s)"
  using assms
proof (induction xs arbitrary: s)
  case (Cons x xs)
  have "f' (h x) (g s) = map_outcome g (f x s)" using Cons.prems by simp
  moreover have "foldO f' (map h xs) (g s1) = map_outcome g (foldO f xs s1)" if "f x s = Ok s1" for s1
    by (rule Cons.IH) (use Cons.prems(1) Cons.prems(3) [OF _ _ that] Cons.prems(2,3) in \<open>simp_all, blast\<close>)
  ultimately show ?case by (cases "f x s") auto
qed simp

lemma find_map_refs: "find P (map f xs) = map_option f (find (\<lambda>x. P (f x)) xs)"
  by (induction xs) auto

text \<open>The store in which the logs at \<open>refs\<close> are \<open>logs\<close>.\<close>

definition loaded :: "(nat \<Rightarrow> 'l) \<Rightarrow> nat list \<Rightarrow> 'l list \<Rightarrow> nat \<Rightarrow> 'l" where
  "loaded mem refs logs a = (case map_of (zip refs logs) a of Some l \<Rightarrow> l | None \<Rightarrow> mem a)"

definition refState :: "(nat \<Rightarrow> 'l) \<Rightarrow> nat list \<Rightarrow> 'l list \<times> nat list \<Rightarrow> (nat \<Rightarrow> 'l) \<times> nat list" where
  "refState mem refs st = (loaded mem refs (fst st), map (\<lambda>i. refs ! i) (snd st))"

lemma loaded_outside: "a \<notin> set refs \<Longrightarrow> loaded mem refs logs a = mem a"
  by (auto simp: loaded_def split: option.split dest!: map_of_SomeD set_zip_leftD)

lemma loaded_at: "distinct refs \<Longrightarrow> length logs = length refs \<Longrightarrow> i < length refs \<Longrightarrow> loaded mem refs logs (refs ! i) = logs ! i"
  by (simp add: loaded_def map_of_zip_nth)

lemma loaded_update:
  assumes "distinct refs" "length logs = length refs" "i < length refs"
  shows "(loaded mem refs logs)(refs ! i := l) = loaded mem refs (logs[i := l])"
proof
  fix a
  show "((loaded mem refs logs)(refs ! i := l)) a = loaded mem refs (logs[i := l]) a"
  proof (cases "a \<in> set refs")
    case True
    then obtain j where "j < length refs" "a = refs ! j" by (auto simp: in_set_conv_nth)
    then show ?thesis using assms by (auto simp: loaded_at nth_list_update nth_eq_iff_index_eq)
  qed (use assms(3) in \<open>auto simp: loaded_outside\<close>)
qed

lemma loaded_self: "loaded mem refs (map mem refs) = mem"
proof
  fix a show "loaded mem refs (map mem refs) a = mem a"
    by (auto simp: loaded_def zip_map2 zip_same_conv_map split: option.split dest!: map_of_SomeD)
qed

lemma keepMatch_ref:
  assumes d: "distinct refs" and len: "length (fst st) = length refs" and i: "i < length refs"
    and apart: "set refs2 \<inter> set refs = {}"
  shows "keepMatchRef matches merge refs2 (refs ! i) (refState mem refs st) =
    map_outcome (refState mem refs) (keepMatch matches merge (map mem refs2) i st)"
proof -
  have b: "loaded mem refs (fst st) b = mem b" if "b \<in> set refs2" for b
    using apart that by (intro loaded_outside) auto
  let ?P = "\<lambda>b. matches (fst st ! i) (mem b)"
  have "find (\<lambda>b. matches (loaded mem refs (fst st) (refs ! i)) (loaded mem refs (fst st) b)) refs2 = find ?P refs2"
    using b by (intro find_cong refl) (simp add: loaded_at [OF d len i])
  moreover have "find (matches (fst st ! i)) (map mem refs2) = map_option mem (find ?P refs2)"
    by (rule find_map_refs)
  moreover have "b \<in> set refs2" if "find ?P refs2 = Some b" for b using that by (auto simp: find_Some_iff)
  ultimately show ?thesis
    using b by (cases "find ?P refs2")
      (auto simp: keepMatchRef_def keepMatch_def refState_def loaded_at [OF d len i] loaded_update [OF d len i] split: outcome.split)
qed

lemma foldO_appends:
  assumes step: "\<And>x s s'. x \<in> set xs \<Longrightarrow> I s \<Longrightarrow> f x s = Ok s' \<Longrightarrow> I s' \<and> snd s' = snd s @ e x"
  shows "I s \<Longrightarrow> foldO f xs s = Ok s' \<Longrightarrow> I s' \<and> snd s' = snd s @ concat (map e xs)"
  using step
proof (induction xs arbitrary: s)
  case (Cons x xs)
  from Cons.prems(2) obtain s1 where s1: "f x s = Ok s1" "foldO f xs s1 = Ok s'" by (auto split: outcome.splits)
  have f: "I s1 \<and> snd s1 = snd s @ e x" by (rule Cons.prems(3) [OF _ Cons.prems(1) s1(1)]) simp
  have "I s' \<and> snd s' = snd s1 @ concat (map e xs)"
  proof (rule Cons.IH [OF _ s1(2)])
    show "I s1" using f by (rule conjunct1)
  qed (rule Cons.prems(3) [OF list.set_intros(2)])
  then show ?case using f by simp
qed simp

text \<open>Both nestings of the loops, for one operator's logs.\<close>

context log_merge
begin

lemma operators_first_ref:
  assumes d: "distinct refs" and apart: "\<And>op. op \<in> set ops \<Longrightarrow> set (refsOf op) \<inter> set refs = {}"
    and read: "\<And>op. op \<in> set ops \<Longrightarrow> logsOf (get op) = map mem (refsOf op)"
  shows "foldO (\<lambda>op. foldO (keepMatchRef matches merge (refsOf op)) refs) ops (mem, []) =
    map_outcome (refState mem refs) (foldO (\<lambda>op. foldO (keepMatch matches merge (logsOf op)) [0..<length refs]) (map get ops) (map mem refs, []))"
proof -
  let ?P = "\<lambda>st :: 'l list \<times> nat list. length (fst st) = length refs"
  let ?f = "\<lambda>op. foldO (keepMatch matches merge (map mem (refsOf op))) [0..<length refs]"
  have refs: "map (\<lambda>i. refs ! i) [0..<length refs] = refs" by (simp add: map_nth)
  have keep: "?P st'" if "?P st" "keepMatch matches merge logs2 i st = Ok st'" for logs2 i st st'
    using that by (auto simp: keepMatch_def split: option.splits outcome.splits)
  have inner: "foldO (keepMatchRef matches merge (refsOf op)) refs (refState mem refs st) = map_outcome (refState mem refs) (?f op st)"
    if op: "op \<in> set ops" and st: "?P st" for op st
  proof -
    have "foldO (keepMatchRef matches merge (refsOf op)) (map (\<lambda>i. refs ! i) [0..<length refs]) (refState mem refs st) =
        map_outcome (refState mem refs) (?f op st)"
    proof (rule foldO_hom [where P = ?P, OF _ _ st])
      fix i s assume "i \<in> set [0..<length refs]" "?P s"
      then show "keepMatchRef matches merge (refsOf op) (refs ! i) (refState mem refs s) =
          map_outcome (refState mem refs) (keepMatch matches merge (map mem (refsOf op)) i s)"
        by (intro keepMatch_ref [OF d _ _ apart [OF op]]) simp_all
    qed (rule keep)
    then show ?thesis unfolding refs .
  qed
  have "foldO (\<lambda>op. foldO (keepMatchRef matches merge (refsOf op)) refs) (map id ops) (refState mem refs (map mem refs, [])) =
      map_outcome (refState mem refs) (foldO ?f ops (map mem refs, []))"
  proof (rule foldO_hom [where P = ?P])
    fix op st st' assume "?P st" "?f op st = Ok st'"
    then show "?P st'" by (rule foldO_inv [where P = ?P, rotated]) (rule keep)
  qed (simp_all add: inner)
  moreover have "foldO ?f ops s = foldO (\<lambda>op. foldO (keepMatch matches merge (logsOf op)) [0..<length refs]) (map get ops) s" for s
    using read by (induction ops arbitrary: s) (auto split: outcome.split)
  ultimately show ?thesis by (simp add: refState_def loaded_self)
qed

lemma logs_first_ref:
  assumes d: "distinct refs" and apart: "\<And>op. op \<in> set ops \<Longrightarrow> set (refsOf op) \<inter> set refs = {}"
    and read: "\<And>op. op \<in> set ops \<Longrightarrow> logsOf (get op) = map mem (refsOf op)"
  shows "foldO (\<lambda>a. foldO (\<lambda>op. keepMatchRef matches merge (refsOf op) a) ops) refs (mem, []) =
    map_outcome (refState mem refs) (foldO (\<lambda>i. foldO (\<lambda>op. keepMatch matches merge (logsOf op) i) (map get ops)) [0..<length refs] (map mem refs, []))"
proof -
  let ?P = "\<lambda>st :: 'l list \<times> nat list. length (fst st) = length refs"
  let ?f = "\<lambda>i. foldO (\<lambda>op. keepMatch matches merge (map mem (refsOf op)) i) ops"
  have refs: "map (\<lambda>i. refs ! i) [0..<length refs] = refs" by (simp add: map_nth)
  have keep: "?P st'" if "?P st" "keepMatch matches merge logs2 i st = Ok st'" for logs2 i st st'
    using that by (auto simp: keepMatch_def split: option.splits outcome.splits)
  have inner: "foldO (\<lambda>op. keepMatchRef matches merge (refsOf op) (refs ! i)) ops (refState mem refs st) =
      map_outcome (refState mem refs) (?f i st)" if i: "i < length refs" and st: "?P st" for i st
  proof -
    have "foldO (\<lambda>op. keepMatchRef matches merge (refsOf op) (refs ! i)) (map id ops) (refState mem refs st) =
        map_outcome (refState mem refs) (?f i st)"
    proof (rule foldO_hom [where P = ?P, OF _ _ st])
      fix op s assume "op \<in> set ops" "?P s"
      then show "keepMatchRef matches merge (refsOf (id op)) (refs ! i) (refState mem refs s) =
          map_outcome (refState mem refs) (keepMatch matches merge (map mem (refsOf op)) i s)"
        using keepMatch_ref [OF d _ i apart] by simp
    qed (rule keep)
    then show ?thesis by simp
  qed
  have "foldO (\<lambda>a. foldO (\<lambda>op. keepMatchRef matches merge (refsOf op) a) ops) (map (\<lambda>i. refs ! i) [0..<length refs])
      (refState mem refs (map mem refs, [])) = map_outcome (refState mem refs) (foldO ?f [0..<length refs] (map mem refs, []))"
  proof (rule foldO_hom [where P = ?P])
    fix i st st' assume "?P st" "?f i st = Ok st'"
    then show "?P st'" by (rule foldO_inv [where P = ?P, rotated]) (rule keep)
  qed (simp_all add: inner)
  moreover have "?f = (\<lambda>i. foldO (\<lambda>op. keepMatch matches merge (logsOf op) i) (map get ops))"
  proof (intro ext)
    fix i s show "?f i s = foldO (\<lambda>op. keepMatch matches merge (logsOf op) i) (map get ops) s"
      using read by (induction ops arbitrary: s) (auto split: outcome.split)
  qed
  ultimately show ?thesis unfolding refs by (simp add: refState_def loaded_self)
qed

text \<open>
  A log is kept once for each operator that lists it. So the kept positions are distinct if every log
  is listed at most once.
\<close>

definition hit :: "'l list \<Rightarrow> ('o \<Rightarrow> 'l list) \<Rightarrow> 'o \<Rightarrow> nat \<Rightarrow> bool" where
  "hit logs1 logsOf op i \<longleftrightarrow> find (matches (logs1 ! i)) (logsOf op) \<noteq> None"

definition sameIdents :: "'l list \<Rightarrow> 'l list \<times> nat list \<Rightarrow> bool" where
  "sameIdents logs1 st \<longleftrightarrow> length (fst st) = length logs1 \<and> (\<forall>i < length logs1. ident (fst st ! i) = ident (logs1 ! i))"

lemma keepMatch_appends:
  assumes "sameIdents logs1 st" and i: "i < length logs1" and k: "keepMatch matches merge (logsOf op) i st = Ok st'"
  shows "sameIdents logs1 st' \<and> snd st' = snd st @ (if hit logs1 logsOf op i then [i] else [])"
proof -
  have "matches (fst st ! i) = matches (logs1 ! i)" using assms(1) i by (intro matches_ident) (simp add: sameIdents_def)
  then show ?thesis
    using k assms(1) i
    by (auto simp: keepMatch_def hit_def sameIdents_def nth_list_update split: option.splits outcome.splits dest: merge_ident)
qed

lemma kept_operators_first:
  assumes "foldO (\<lambda>op. foldO (keepMatch matches merge (logsOf op)) [0..<length logs1]) ops (logs1, []) = Ok st"
  shows "sameIdents logs1 st" and "snd st = concat (map (\<lambda>op. filter (hit logs1 logsOf op) [0..<length logs1]) ops)"
proof -
  let ?I = "sameIdents logs1"
  have filt: "concat (map (\<lambda>i. if p i then [i] else []) xs) = filter p xs" for p :: "nat \<Rightarrow> bool" and xs by (induction xs) auto
  have inner: "?I s' \<and> snd s' = snd s @ filter (hit logs1 logsOf op) [0..<length logs1]"
    if "?I s" "foldO (keepMatch matches merge (logsOf op)) [0..<length logs1] s = Ok s'" for op s s'
  proof -
    have "?I s' \<and> snd s' = snd s @ concat (map (\<lambda>i. if hit logs1 logsOf op i then [i] else []) [0..<length logs1])"
      by (rule foldO_appends [where I = ?I, OF _ that]) (rule keepMatch_appends, simp_all)
    then show ?thesis unfolding filt .
  qed
  have "?I st \<and> snd st = snd (logs1, []) @ concat (map (\<lambda>op. filter (hit logs1 logsOf op) [0..<length logs1]) ops)"
    by (rule foldO_appends [where I = ?I, OF _ _ assms], rule inner) (simp_all add: sameIdents_def)
  then show "sameIdents logs1 st" and "snd st = concat (map (\<lambda>op. filter (hit logs1 logsOf op) [0..<length logs1]) ops)"
    by simp_all
qed

lemma kept_logs_first:
  assumes "foldO (\<lambda>i. foldO (\<lambda>op. keepMatch matches merge (logsOf op) i) ops) [0..<length logs1] (logs1, []) = Ok st"
  shows "sameIdents logs1 st" and "snd st = concat (map (\<lambda>i. concat (map (\<lambda>op. if hit logs1 logsOf op i then [i] else []) ops)) [0..<length logs1])"
proof -
  let ?I = "sameIdents logs1"
  have inner: "?I s' \<and> snd s' = snd s @ concat (map (\<lambda>op. if hit logs1 logsOf op i then [i] else []) ops)"
    if "i < length logs1" "?I s" "foldO (\<lambda>op. keepMatch matches merge (logsOf op) i) ops s = Ok s'" for i s s'
    by (rule foldO_appends [where I = ?I, OF _ that(2,3)]) (rule keepMatch_appends [OF _ that(1)])
  have "?I st \<and> snd st = snd (logs1, []) @
      concat (map (\<lambda>i. concat (map (\<lambda>op. if hit logs1 logsOf op i then [i] else []) ops)) [0..<length logs1])"
    by (rule foldO_appends [where I = ?I, OF _ _ assms], rule inner) (simp_all add: sameIdents_def)
  then show "sameIdents logs1 st" and
    "snd st = concat (map (\<lambda>i. concat (map (\<lambda>op. if hit logs1 logsOf op i then [i] else []) ops)) [0..<length logs1])"
    by simp_all
qed

lemma listed_once:
  assumes key: "\<And>l l2. matches l l2 \<Longrightarrow> key l = key l2"
  shows "distinct (concat (map (\<lambda>op. map key (logsOf op)) ops)) \<Longrightarrow> length (filter (\<lambda>op. hit logs1 logsOf op i) ops) \<le> 1"
proof (induction ops)
  case (Cons op ops)
  have listed: "key (logs1 ! i) \<in> key ` set (logsOf op')" if "hit logs1 logsOf op' i" for op'
    using that key by (force simp: hit_def find_None_iff)
  show ?case
  proof (cases "hit logs1 logsOf op i")
    case True
    have "\<not> hit logs1 logsOf op' i" if "op' \<in> set ops" for op'
      using Cons.prems listed [OF True] listed [of op'] that by auto
    then show ?thesis using True by (simp add: filter_False)
  qed (use Cons in simp)
qed simp

lemma distinct_replicate_one: "n \<le> 1 \<Longrightarrow> distinct (replicate n x)"
  by (cases n) auto

lemma distinct_kept:
  assumes once: "\<And>i. length (filter (\<lambda>op. h op i) ops) \<le> 1" and d: "distinct xs"
  shows "distinct (concat (map (\<lambda>op. filter (h op) xs) ops))"
    and "distinct (concat (map (\<lambda>i. concat (map (\<lambda>op. if h op i then [i] else []) ops)) xs))"
proof -
  show "distinct (concat (map (\<lambda>op. filter (h op) xs) ops))"
    using once
  proof (induction ops)
    case (Cons op ops)
    have tl: "length (filter (\<lambda>op. h op i) ops) \<le> 1" for i using Cons.prems [of i] by (simp split: if_splits)
    have "\<not> h op' i" if "h op i" "op' \<in> set ops" for i op'
      using Cons.prems [of i] that by (auto simp: filter_empty_conv)
    then show ?case using Cons.IH [OF tl] d by auto
  qed simp
  have one: "concat (map (\<lambda>op. if h op i then [i] else []) ops) = replicate (length (filter (\<lambda>op. h op i) ops)) i" for i
    by (induction ops) auto
  have "distinct (concat (map (\<lambda>i. replicate (length (filter (\<lambda>op. h op i) ops)) i) xs))"
    using d
  proof (induction xs)
    case (Cons x xs)
    have "distinct (replicate (length (filter (\<lambda>op. h op x) ops)) x)" using once [of x] by (rule distinct_replicate_one)
    then show ?case using Cons by (auto split: if_splits)
  qed simp
  then show "distinct (concat (map (\<lambda>i. concat (map (\<lambda>op. if h op i then [i] else []) ops)) xs))" unfolding one .
qed

end

text \<open>What the loops leave in the store, and the logs at the kept addresses.\<close>

lemma refState_kept:
  assumes "distinct refs" "length (fst st) = length refs" "set (snd st) \<subseteq> {..<length refs}"
  shows "map (fst (refState mem refs st)) (snd (refState mem refs st)) = pickAll st"
    and "set (snd (refState mem refs st)) \<subseteq> set refs"
    and "distinct (snd st) \<Longrightarrow> distinct (snd (refState mem refs st))"
    and "a \<notin> set refs \<Longrightarrow> fst (refState mem refs st) a = mem a"
proof -
  show "map (fst (refState mem refs st)) (snd (refState mem refs st)) = pickAll st"
    using assms by (auto simp: refState_def pickAll_def loaded_at)
  show "set (snd (refState mem refs st)) \<subseteq> set refs" using assms(3) by (auto simp: refState_def)
  show "distinct (snd st) \<Longrightarrow> distinct (snd (refState mem refs st))"
    using assms(1,3) by (auto simp: refState_def distinct_map inj_on_def nth_eq_iff_index_eq subset_iff)
  show "a \<notin> set refs \<Longrightarrow> fst (refState mem refs st) a = mem a" by (simp add: refState_def loaded_outside)
qed

definition apart :: "logListRef \<Rightarrow> logListRef \<Rightarrow> bool" where
  "apart ll ll' \<longleftrightarrow> set (logRefs ll) \<inter> set (logRefs ll') = {} \<and> set (tiledRefs ll) \<inter> set (tiledRefs ll') = {}"

definition separateRefs :: "logListRef \<Rightarrow> bool" where
  "separateRefs ll \<longleftrightarrow> distinct (logRefs ll) \<and> distinct (tiledRefs ll)"

text \<open>No log ID is in a list twice.\<close>

definition uniqueIDs :: "logList \<Rightarrow> bool" where
  "uniqueIDs ll \<longleftrightarrow> distinct (map log_LogID (allLogs ll)) \<and> distinct (map tl_LogID (allTiledLogs ll))"

definition sameOutside :: "logListRef \<Rightarrow> logStore \<Rightarrow> logStore \<Rightarrow> bool" where
  "sameOutside ll mem mem' \<longleftrightarrow>
     (\<forall>a. a \<notin> set (logRefs ll) \<longrightarrow> ms_log mem' a = ms_log mem a) \<and> (\<forall>a. a \<notin> set (tiledRefs ll) \<longrightarrow> ms_tiled mem' a = ms_tiled mem a)"

lemma refs_simps [simp]:
  "logRefs [] = []" "logRefs (op # ll) = or_Logs op @ logRefs ll" "logRefs (ll @ ll') = logRefs ll @ logRefs ll'"
  "tiledRefs [] = []" "tiledRefs (op # ll) = or_TiledLogs op @ tiledRefs ll" "tiledRefs (ll @ ll') = tiledRefs ll @ tiledRefs ll'"
  by (simp_all add: logRefs_def tiledRefs_def)

lemma deref_simps [simp]:
  "deref mem [] = []" "deref mem (op # ll) = derefOperator mem op # deref mem ll" "deref mem (ll @ ll') = deref mem ll @ deref mem ll'"
  "op_Name (derefOperator mem op) = or_Name op" "op_Logs (derefOperator mem op) = map (ms_log mem) (or_Logs op)"
  "op_TiledLogs (derefOperator mem op) = map (ms_tiled mem) (or_TiledLogs op)"
  by (simp_all add: deref_def derefOperator_def)

lemma deref_frame:
  assumes "sameOutside ll mem mem'" and "apart ll ll'"
  shows "deref mem' ll' = deref mem ll'"
  using assms by (induction ll') (auto simp: sameOutside_def apart_def derefOperator_def intro!: map_cong)

lemma intersectLogs_kept:
  assumes "intersectLogs ll2 logs = Ok st"
  shows "length (fst st) = length logs" and "set (snd st) \<subseteq> {..<length logs}" and "uniqueIDs ll2 \<Longrightarrow> distinct (snd st)"
proof -
  note k = rfc6962.kept_operators_first [OF assms [unfolded intersectLogs_def]]
  show "length (fst st) = length logs" using k(1) by (simp add: rfc6962.sameIdents_def)
  show "set (snd st) \<subseteq> {..<length logs}" unfolding k(2) by auto
  show "uniqueIDs ll2 \<Longrightarrow> distinct (snd st)" unfolding k(2)
    by (intro rfc6962.distinct_kept(1) rfc6962.listed_once [where key = log_LogID])
      (simp_all add: sameLogID_def uniqueIDs_def allLogs_def map_concat comp_def)
qed

lemma intersectTiledLogs_kept:
  assumes "intersectTiledLogs ll2 logs = Ok st"
  shows "length (fst st) = length logs" and "set (snd st) \<subseteq> {..<length logs}" and "uniqueIDs ll2 \<Longrightarrow> distinct (snd st)"
proof -
  note k = tiled.kept_logs_first [OF assms [unfolded intersectTiledLogs_def]]
  show "length (fst st) = length logs" using k(1) by (simp add: tiled.sameIdents_def)
  show "set (snd st) \<subseteq> {..<length logs}" unfolding k(2) by (auto split: if_splits)
  show "uniqueIDs ll2 \<Longrightarrow> distinct (snd st)" unfolding k(2)
    by (intro tiled.distinct_kept(2) tiled.listed_once [where key = tl_LogID])
      (simp_all add: sameTiledLogID_def uniqueIDs_def allTiledLogs_def map_concat comp_def)
qed

lemma intersectOperator_ref:
  assumes sep: "separateRefs [op1]" and ap: "apart [op1] ll2" "apart [op1] acc"
  shows "map_outcome (\<lambda>(mem', acc'). deref mem' acc') (intersectOperatorRef ll2 op1 (mem, acc)) =
      intersectOperator (deref mem ll2) (derefOperator mem op1) (deref mem acc)"
    and "intersectOperatorRef ll2 op1 (mem, acc) = Ok (mem', acc') \<Longrightarrow> sameOutside [op1] mem mem' \<and>
      (\<exists>ops. acc' = acc @ ops \<and> set (logRefs ops) \<subseteq> set (or_Logs op1) \<and> set (tiledRefs ops) \<subseteq> set (or_TiledLogs op1) \<and>
        (uniqueIDs (deref mem ll2) \<longrightarrow> separateRefs ops))"
proof -
  let ?logs = "or_Logs op1" and ?tiled = "or_TiledLogs op1"
  let ?L = "intersectLogs (deref mem ll2) (map (ms_log mem) ?logs)"
  let ?T = "intersectTiledLogs (deref mem ll2) (map (ms_tiled mem) ?tiled)"
  have d: "distinct ?logs" "distinct ?tiled" using sep by (auto simp: separateRefs_def)
  have ap2: "op \<in> set ll2 \<Longrightarrow> set (or_Logs op) \<inter> set ?logs = {}" "op \<in> set ll2 \<Longrightarrow> set (or_TiledLogs op) \<inter> set ?tiled = {}" for op
    using ap(1) by (auto simp: apart_def logRefs_def tiledRefs_def)
  have L: "intersectLogsRef ll2 ?logs (ms_log mem) = map_outcome (refState (ms_log mem) ?logs) ?L"
    unfolding intersectLogsRef_def intersectLogs_def length_map deref_def
    by (rule rfc6962.operators_first_ref [OF d(1) ap2(1)]) simp_all
  have T: "intersectTiledLogsRef ll2 ?tiled (ms_tiled mem) = map_outcome (refState (ms_tiled mem) ?tiled) ?T"
    unfolding intersectTiledLogsRef_def intersectTiledLogs_def length_map deref_def
    by (rule tiled.logs_first_ref [OF d(2) ap2(2)]) simp_all
  let ?sound = "\<lambda>r. \<forall>mem' acc'. r = Ok (mem', acc') \<longrightarrow> sameOutside [op1] mem mem' \<and>
      (\<exists>ops. acc' = acc @ ops \<and> set (logRefs ops) \<subseteq> set ?logs \<and> set (tiledRefs ops) \<subseteq> set ?tiled \<and>
        (uniqueIDs (deref mem ll2) \<longrightarrow> separateRefs ops))"
  have "map_outcome (\<lambda>(mem', acc'). deref mem' acc') (intersectOperatorRef ll2 op1 (mem, acc)) =
      intersectOperator (deref mem ll2) (derefOperator mem op1) (deref mem acc) \<and> ?sound (intersectOperatorRef ll2 op1 (mem, acc))"
  proof (cases "\<exists>st st'. ?L = Ok st \<and> ?T = Ok st'")
    case False
    then show ?thesis by (cases ?L; cases ?T) (auto simp: intersectOperatorRef_def intersectOperator_def L T)
  next
    case True
    then obtain st st' where ok: "?L = Ok st" "?T = Ok st'" by blast
    note kl = intersectLogs_kept [OF ok(1), unfolded length_map] and kt = intersectTiledLogs_kept [OF ok(2), unfolded length_map]
    note rl = refState_kept [OF d(1) kl(1,2), where mem = "ms_log mem"] and rt = refState_kept [OF d(2) kt(1,2), where mem = "ms_tiled mem"]
    obtain logs kept tiledLogs keptTiled where r: "refState (ms_log mem) ?logs st = (logs, kept)"
      "refState (ms_tiled mem) ?tiled st' = (tiledLogs, keptTiled)" by fastforce
    let ?mem = "\<lparr>ms_log = logs, ms_tiled = tiledLogs\<rparr>" and ?op = "op1\<lparr>or_Logs := kept, or_TiledLogs := keptTiled\<rparr>"
    have res: "intersectOperatorRef ll2 op1 (mem, acc) =
        Ok (?mem, if 0 < length kept \<or> 0 < length keptTiled then acc @ [?op] else acc)"
      by (simp add: intersectOperatorRef_def L T ok r)
    have same: "sameOutside [op1] mem ?mem" using rl(4) rt(4) r by (simp add: sameOutside_def)
    have acc: "deref ?mem acc = deref mem acc" by (rule deref_frame [OF same ap(2)])
    have "pickAll st = map logs kept" "pickAll st' = map tiledLogs keptTiled" using rl(1) rt(1) r by simp_all
    then have "intersectOperator (deref mem ll2) (derefOperator mem op1) (deref mem acc) =
        Ok (if 0 < length kept \<or> 0 < length keptTiled then deref mem acc @ [derefOperator ?mem ?op] else deref mem acc)"
      by (simp add: intersectOperator_def ok derefOperator_def)
    moreover have "?sound (intersectOperatorRef ll2 op1 (mem, acc))"
    proof -
      have ops: "set kept \<subseteq> set ?logs" "set keptTiled \<subseteq> set ?tiled"
        "uniqueIDs (deref mem ll2) \<Longrightarrow> distinct kept \<and> distinct keptTiled"
        using rl(2,3) rt(2,3) r kl(3) kt(3) by simp_all
      have "\<exists>ops. (if 0 < length kept \<or> 0 < length keptTiled then acc @ [?op] else acc) = acc @ ops \<and>
          set (logRefs ops) \<subseteq> set ?logs \<and> set (tiledRefs ops) \<subseteq> set ?tiled \<and> (uniqueIDs (deref mem ll2) \<longrightarrow> separateRefs ops)"
        by (rule exI [of _ "if 0 < length kept \<or> 0 < length keptTiled then [?op] else []"]) (use ops in \<open>auto simp: separateRefs_def\<close>)
      then show ?thesis using same unfolding res by simp
    qed
    ultimately show ?thesis unfolding res using acc by simp
  qed
  then show "map_outcome (\<lambda>(mem', acc'). deref mem' acc') (intersectOperatorRef ll2 op1 (mem, acc)) =
      intersectOperator (deref mem ll2) (derefOperator mem op1) (deref mem acc)"
    and "intersectOperatorRef ll2 op1 (mem, acc) = Ok (mem', acc') \<Longrightarrow> sameOutside [op1] mem mem' \<and>
      (\<exists>ops. acc' = acc @ ops \<and> set (logRefs ops) \<subseteq> set (or_Logs op1) \<and> set (tiledRefs ops) \<subseteq> set (or_TiledLogs op1) \<and>
        (uniqueIDs (deref mem ll2) \<longrightarrow> separateRefs ops))"
    by blast+
qed

text \<open>Whole lists: the loop over the operators of the first list.\<close>

lemma apart_simps [simp]: "apart [] ll" "apart ll []" "apart ll (l @ l') \<longleftrightarrow> apart ll l \<and> apart ll l'"
  by (auto simp: apart_def)

lemma apart_Cons: "apart (op # ll) ll' \<longleftrightarrow> apart [op] ll' \<and> apart ll ll'"
  by (auto simp: apart_def)

lemma apart_sym: "apart ll ll' \<longleftrightarrow> apart ll' ll"
  by (auto simp: apart_def)

lemma separateRefs_Cons: "separateRefs (op # ll) \<longleftrightarrow> separateRefs [op] \<and> separateRefs ll \<and> apart [op] ll"
  by (auto simp: separateRefs_def apart_def)

lemma separateRefs_append: "separateRefs (ll @ ll') \<longleftrightarrow> separateRefs ll \<and> separateRefs ll' \<and> apart ll ll'"
  by (auto simp: separateRefs_def apart_def)

lemma sameOutside_trans: "sameOutside ll mem mem1 \<Longrightarrow> sameOutside ll' mem1 mem2 \<Longrightarrow> sameOutside (ll @ ll') mem mem2"
  by (simp add: sameOutside_def)

lemma sameOutside_refl: "sameOutside ll mem mem"
  by (simp add: sameOutside_def)

lemma apart_subset: "apart ll ll' \<Longrightarrow> set (logRefs l) \<subseteq> set (logRefs ll) \<Longrightarrow> set (tiledRefs l) \<subseteq> set (tiledRefs ll) \<Longrightarrow> apart l ll'"
  by (auto simp: apart_def)

lemma intersect_loop_ref:
  assumes "separateRefs ll1" "apart ll1 ll2" "apart ll1 acc"
  shows "map_outcome (\<lambda>(mem', acc'). deref mem' acc') (foldO (intersectOperatorRef ll2) ll1 (mem, acc)) =
      foldO (intersectOperator (deref mem ll2)) (deref mem ll1) (deref mem acc)"
    and "foldO (intersectOperatorRef ll2) ll1 (mem, acc) = Ok (mem', acc') \<Longrightarrow> sameOutside ll1 mem mem' \<and>
      (\<exists>ops. acc' = acc @ ops \<and> set (logRefs ops) \<subseteq> set (logRefs ll1) \<and> set (tiledRefs ops) \<subseteq> set (tiledRefs ll1) \<and>
        (uniqueIDs (deref mem ll2) \<longrightarrow> separateRefs ops))"
proof -
  have "map_outcome (\<lambda>(mem', acc'). deref mem' acc') (foldO (intersectOperatorRef ll2) ll1 (mem, acc)) =
      foldO (intersectOperator (deref mem ll2)) (deref mem ll1) (deref mem acc) \<and>
    (\<forall>mem' acc'. foldO (intersectOperatorRef ll2) ll1 (mem, acc) = Ok (mem', acc') \<longrightarrow> sameOutside ll1 mem mem' \<and>
      (\<exists>ops. acc' = acc @ ops \<and> set (logRefs ops) \<subseteq> set (logRefs ll1) \<and> set (tiledRefs ops) \<subseteq> set (tiledRefs ll1) \<and>
        (uniqueIDs (deref mem ll2) \<longrightarrow> separateRefs ops)))"
    using assms
  proof (induction ll1 arbitrary: mem acc)
    case (Cons op1 ll1)
    from Cons.prems have sep: "separateRefs [op1]" "separateRefs ll1" "apart [op1] ll1"
      and ap: "apart [op1] ll2" "apart [op1] acc" "apart ll1 ll2" "apart ll1 acc"
      by (simp_all add: separateRefs_Cons [of op1 ll1] apart_Cons [of op1 ll1])
    note step = intersectOperator_ref [OF sep(1) ap(1,2), of mem]
    show ?case
    proof (cases "\<exists>mem1 acc1. intersectOperatorRef ll2 op1 (mem, acc) = Ok (mem1, acc1)")
      case False
      then show ?thesis
        unfolding foldO.simps deref_simps step(1) [symmetric] by (cases "intersectOperatorRef ll2 op1 (mem, acc)") auto
    next
      case True
      then obtain mem1 acc1 where ok: "intersectOperatorRef ll2 op1 (mem, acc) = Ok (mem1, acc1)" by blast
      from step(2) [OF ok] obtain ops where same: "sameOutside [op1] mem mem1" and ops: "acc1 = acc @ ops"
        "set (logRefs ops) \<subseteq> set (logRefs [op1])" "set (tiledRefs ops) \<subseteq> set (tiledRefs [op1])"
        "uniqueIDs (deref mem ll2) \<Longrightarrow> separateRefs ops" by auto
      have frame: "deref mem1 ll2 = deref mem ll2" "deref mem1 ll1 = deref mem ll1"
        using deref_frame [OF same] ap(1) sep(3) by blast+
      have opsap: "apart ops ll1" by (rule apart_subset [OF sep(3) ops(2,3)])
      then have "apart ll1 acc1" using ap(4) ops(1) by (simp add: apart_sym)
      note IH = Cons.IH [OF sep(2) ap(3) this, of mem1, unfolded frame]
      have copy: "intersectOperator (deref mem ll2) (derefOperator mem op1) (deref mem acc) = Ok (deref mem1 acc1)"
        using step(1) ok by simp
      have "sameOutside (op1 # ll1) mem mem' \<and> (\<exists>ops. acc' = acc @ ops \<and> set (logRefs ops) \<subseteq> set (logRefs (op1 # ll1)) \<and>
          set (tiledRefs ops) \<subseteq> set (tiledRefs (op1 # ll1)) \<and> (uniqueIDs (deref mem ll2) \<longrightarrow> separateRefs ops))"
        if "foldO (intersectOperatorRef ll2) (op1 # ll1) (mem, acc) = Ok (mem', acc')" for mem' acc'
      proof -
        from IH that ok obtain ops' where o: "sameOutside ll1 mem1 mem'" "acc' = acc1 @ ops'"
          "set (logRefs ops') \<subseteq> set (logRefs ll1)" "set (tiledRefs ops') \<subseteq> set (tiledRefs ll1)"
          "uniqueIDs (deref mem ll2) \<Longrightarrow> separateRefs ops'" by auto
        have "apart ops ops'" using apart_subset [OF opsap [unfolded apart_sym [of ops]] o(3,4)] by (simp add: apart_sym)
        then have "uniqueIDs (deref mem ll2) \<longrightarrow> separateRefs (ops @ ops')"
          using ops(4) o(5) by (simp add: separateRefs_append)
        moreover have "sameOutside (op1 # ll1) mem mem'" using sameOutside_trans [OF same o(1)] by simp
        moreover have "acc' = acc @ (ops @ ops')" "set (logRefs (ops @ ops')) \<subseteq> set (logRefs (op1 # ll1))"
          "set (tiledRefs (ops @ ops')) \<subseteq> set (tiledRefs (op1 # ll1))" using o(2-4) ops(1-3) by auto
        ultimately show ?thesis by blast
      qed
      moreover have "map_outcome (\<lambda>(mem', acc'). deref mem' acc') (foldO (intersectOperatorRef ll2) (op1 # ll1) (mem, acc)) =
          foldO (intersectOperator (deref mem ll2)) (deref mem (op1 # ll1)) (deref mem acc)"
        using IH ok copy by simp
      ultimately show ?thesis by blast
    qed
  qed (auto simp: sameOutside_def separateRefs_def)
  then show "map_outcome (\<lambda>(mem', acc'). deref mem' acc') (foldO (intersectOperatorRef ll2) ll1 (mem, acc)) =
      foldO (intersectOperator (deref mem ll2)) (deref mem ll1) (deref mem acc)"
    and "foldO (intersectOperatorRef ll2) ll1 (mem, acc) = Ok (mem', acc') \<Longrightarrow> sameOutside ll1 mem mem' \<and>
      (\<exists>ops. acc' = acc @ ops \<and> set (logRefs ops) \<subseteq> set (logRefs ll1) \<and> set (tiledRefs ops) \<subseteq> set (tiledRefs ll1) \<and>
        (uniqueIDs (deref mem ll2) \<longrightarrow> separateRefs ops))"
    by blast+
qed

lemma intersect_ref:
  assumes "separateRefs ll1" "apart ll1 ll2"
  shows "map_outcome (\<lambda>(mem', ll). deref mem' ll) (intersectRef ll1 ll2 mem) = intersect (deref mem ll1) (deref mem ll2)"
    and "intersectRef ll1 ll2 mem = Ok (mem', ll) \<Longrightarrow> sameOutside ll1 mem mem' \<and>
      set (logRefs ll) \<subseteq> set (logRefs ll1) \<and> set (tiledRefs ll) \<subseteq> set (tiledRefs ll1) \<and> (uniqueIDs (deref mem ll2) \<longrightarrow> separateRefs ll)"
  using intersect_loop_ref [OF assms, of "[]" mem] by (auto simp: intersectRef_def intersect_def)

section \<open>Naming on addresses and on copies\<close>

text \<open>Naming is idempotent, so an address that is in a list twice makes no difference.\<close>

lemma naming_idem:
  "useCrtshLogNameForRFC6962Log crtsh (useCrtshLogNameForRFC6962Log crtsh lg) = useCrtshLogNameForRFC6962Log crtsh lg"
  "useCrtshLogNameForStaticLog crtsh (useCrtshLogNameForStaticLog crtsh tlg) = useCrtshLogNameForStaticLog crtsh tlg"
  by (auto simp: useCrtshLogNameForRFC6962Log_def useCrtshLogNameForStaticLog_def split: option.split)

definition named :: "logListRef \<Rightarrow> nat set \<Rightarrow> nat set \<Rightarrow> logStore \<Rightarrow> logStore" where
  "named crtsh logs tiledLogs mem =
     \<lparr>ms_log = (\<lambda>a. if a \<in> logs then useCrtshLogNameForRFC6962Log (deref mem crtsh) (ms_log mem a) else ms_log mem a),
      ms_tiled = (\<lambda>a. if a \<in> tiledLogs then useCrtshLogNameForStaticLog (deref mem crtsh) (ms_tiled mem a) else ms_tiled mem a)\<rparr>"

lemma deref_cong:
  assumes "\<And>a. a \<in> set (logRefs ll) \<Longrightarrow> ms_log mem' a = ms_log mem a" "\<And>a. a \<in> set (tiledRefs ll) \<Longrightarrow> ms_tiled mem' a = ms_tiled mem a"
  shows "deref mem' ll = deref mem ll"
  using assms by (induction ll) (auto simp: derefOperator_def)

lemma named_crtsh:
  assumes "logs \<inter> set (logRefs crtsh) = {}" "tiledLogs \<inter> set (tiledRefs crtsh) = {}"
  shows "deref (named crtsh logs tiledLogs mem) crtsh = deref mem crtsh"
  by (rule deref_cong) (use assms in \<open>auto simp: named_def\<close>)

lemma named_named:
  assumes "logs \<inter> set (logRefs crtsh) = {}" "tiledLogs \<inter> set (tiledRefs crtsh) = {}"
  shows "named crtsh logs' tiledLogs' (named crtsh logs tiledLogs mem) = named crtsh (logs \<union> logs') (tiledLogs \<union> tiledLogs') mem"
  by (subst named_def, unfold named_crtsh [OF assms]) (auto simp: named_def naming_idem fun_eq_iff)

lemma named_one:
  "nameLogRef crtsh a mem = named crtsh {a} {} mem" "nameTiledLogRef crtsh a mem = named crtsh {} {a} mem"
  by (auto simp: nameLogRef_def nameTiledLogRef_def named_def fun_eq_iff)

lemma named_none [simp]: "named crtsh {} {} mem = mem"
  by (simp add: named_def)

lemma nameLogs_ref:
  "set refs \<inter> set (logRefs crtsh) = {} \<Longrightarrow> fold (nameLogRef crtsh) refs mem = named crtsh (set refs) {} mem"
  "set refs \<inter> set (tiledRefs crtsh) = {} \<Longrightarrow> fold (nameTiledLogRef crtsh) refs mem = named crtsh {} (set refs) mem"
  by (induction refs arbitrary: mem) (simp_all add: named_one named_named)

lemma useCrtshLogNames_named:
  "apart ll crtsh \<Longrightarrow> useCrtshLogNamesRef crtsh ll mem = named crtsh (set (logRefs ll)) (set (tiledRefs ll)) mem"
proof (induction ll arbitrary: mem)
  case (Cons op ll)
  have d: "set (or_Logs op) \<inter> set (logRefs crtsh) = {}" "set (or_TiledLogs op) \<inter> set (tiledRefs crtsh) = {}" "apart ll crtsh"
    using Cons.prems by (auto simp: apart_def)
  have "useCrtshLogNamesRef crtsh (op # ll) mem =
      useCrtshLogNamesRef crtsh ll (fold (nameTiledLogRef crtsh) (or_TiledLogs op) (fold (nameLogRef crtsh) (or_Logs op) mem))"
    by (simp add: useCrtshLogNamesRef_def)
  also have "\<dots> = useCrtshLogNamesRef crtsh ll (named crtsh (set (or_Logs op)) (set (or_TiledLogs op)) mem)"
    using d by (simp add: nameLogs_ref named_named)
  finally show ?case using Cons.IH [OF d(3)] d by (simp add: named_named)
qed (simp add: useCrtshLogNamesRef_def)

lemma useCrtshLogNames_ref:
  assumes "apart ll crtsh"
  shows "deref (useCrtshLogNamesRef crtsh ll mem) ll = useCrtshLogNames (deref mem crtsh) (deref mem ll)"
    and "sameOutside ll mem (useCrtshLogNamesRef crtsh ll mem)"
proof -
  have "deref (named crtsh A B mem) l = useCrtshLogNames (deref mem crtsh) (deref mem l)"
    if "set (logRefs l) \<subseteq> A" "set (tiledRefs l) \<subseteq> B" for A B l
    using that by (induction l) (auto simp: useCrtshLogNames_def derefOperator_def named_def)
  then show "deref (useCrtshLogNamesRef crtsh ll mem) ll = useCrtshLogNames (deref mem crtsh) (deref mem ll)"
    unfolding useCrtshLogNames_named [OF assms] by blast
  show "sameOutside ll mem (useCrtshLogNamesRef crtsh ll mem)"
    unfolding useCrtshLogNames_named [OF assms] by (auto simp: sameOutside_def named_def)
qed

section \<open>The derived lists on addresses and on copies\<close>

text \<open>What is relied on of ctloglists' selection: it reads the statuses and shares the selected logs.\<close>

definition selectShares :: "(logStatus list \<Rightarrow> logList \<Rightarrow> logList) \<Rightarrow> ctloglistsRef \<Rightarrow> bool" where
  "selectShares select cr \<longleftrightarrow>
     (\<forall>statuses mem ll. deref mem (cr_SelectByStatus cr statuses mem ll) = select statuses (deref mem ll) \<and>
        subseq (logRefs (cr_SelectByStatus cr statuses mem ll)) (logRefs ll) \<and>
        subseq (tiledRefs (cr_SelectByStatus cr statuses mem ll)) (tiledRefs ll))"

text \<open>The loaded lists have no log in common, and none twice.\<close>

definition loadedApart :: "ctloglistsRef \<Rightarrow> bool" where
  "loadedApart cr \<longleftrightarrow>
     separateRefs (cr_GstaticV3All cr @ cr_AppleCurrent cr @ cr_MozillaV3Known cr @ cr_BimiV3Approved cr @
       cr_CrtshV3Active cr @ cr_CrtshV3All cr)"

lemma selectSharesD:
  assumes "selectShares select cr"
  defines "sel \<equiv> cr_SelectByStatus cr"
  shows "deref mem (sel statuses mem ll) = select statuses (deref mem ll)"
    and "set (logRefs (sel statuses mem ll)) \<subseteq> set (logRefs ll)" "set (tiledRefs (sel statuses mem ll)) \<subseteq> set (tiledRefs ll)"
    and "separateRefs ll \<Longrightarrow> separateRefs (sel statuses mem ll)"
    and "uniqueIDs (deref mem ll) \<Longrightarrow> uniqueIDs (deref mem (sel statuses mem ll))"
proof -
  have s: "subseq (logRefs (sel statuses mem ll)) (logRefs ll)" "subseq (tiledRefs (sel statuses mem ll)) (tiledRefs ll)"
    and "deref mem (sel statuses mem ll) = select statuses (deref mem ll)"
    using assms by (simp_all add: selectShares_def)
  then show "deref mem (sel statuses mem ll) = select statuses (deref mem ll)" by simp
  show "set (logRefs (sel statuses mem ll)) \<subseteq> set (logRefs ll)" "set (tiledRefs (sel statuses mem ll)) \<subseteq> set (tiledRefs ll)"
    using s by (auto dest: subseq_set)
  show "separateRefs ll \<Longrightarrow> separateRefs (sel statuses mem ll)"
    using s distinct_subseq by (auto simp: separateRefs_def)
  have ids: "map log_LogID (allLogs (deref mem l)) = map (\<lambda>a. log_LogID (ms_log mem a)) (logRefs l)"
    "map tl_LogID (allTiledLogs (deref mem l)) = map (\<lambda>a. tl_LogID (ms_tiled mem a)) (tiledRefs l)" for l
    by (induction l) (simp_all add: allLogs_def allTiledLogs_def)
  show "uniqueIDs (deref mem ll) \<Longrightarrow> uniqueIDs (deref mem (sel statuses mem ll))"
    unfolding uniqueIDs_def ids using s by (blast intro: distinct_subseq subseq_map)
qed

lemma sameOutside_mono:
  "sameOutside ll mem mem' \<Longrightarrow> set (logRefs ll) \<subseteq> set (logRefs l) \<Longrightarrow> set (tiledRefs ll) \<subseteq> set (tiledRefs l) \<Longrightarrow> sameOutside l mem mem'"
  by (auto simp: sameOutside_def)

lemma sameOutside_join: "sameOutside ll mem mem1 \<Longrightarrow> sameOutside ll mem1 mem2 \<Longrightarrow> sameOutside ll mem mem2"
  by (simp add: sameOutside_def)

lemma determineUsable_ref:
  assumes apart: "loadedApart cr" and sel: "selectShares select cr" and uniq: "uniqueIDs (deref mem (cr_AppleCurrent cr))"
  shows "map_outcome (\<lambda>(mem', ll). deref mem' ll) (determineUsableTLSLogsRef cr mem) = determineUsableTLSLogs (derefLoaded select mem cr)"
    and "determineUsableTLSLogsRef cr mem = Ok (mem', ll) \<Longrightarrow> sameOutside (cr_GstaticV3All cr) mem mem' \<and>
      set (logRefs ll) \<subseteq> set (logRefs (cr_GstaticV3All cr)) \<and> set (tiledRefs ll) \<subseteq> set (tiledRefs (cr_GstaticV3All cr))"
proof -
  let ?G = "cr_GstaticV3All cr" and ?A = "cr_AppleCurrent cr" and ?M = "cr_MozillaV3Known cr" and ?N = "cr_CrtshV3All cr"
  let ?C = "cr_SelectByStatus cr [UsableLogStatus] mem ?G" and ?CA = "cr_SelectByStatus cr [UsableLogStatus] mem ?A"
  let ?CM = "cr_SelectByStatus cr [QualifiedLogStatus, UsableLogStatus] mem ?M"
  note s = selectSharesD [OF sel]
  have lists: "separateRefs ?G" "apart ?G ?A" "apart ?G ?M" "apart ?G ?N"
    using apart by (simp_all add: loadedApart_def separateRefs_append)
  have sub: "apart l l'" if "apart ?G g" "set (logRefs l) \<subseteq> set (logRefs ?G)" "set (tiledRefs l) \<subseteq> set (tiledRefs ?G)"
    "set (logRefs l') \<subseteq> set (logRefs g)" "set (tiledRefs l') \<subseteq> set (tiledRefs g)" for g l l'
    using that unfolding apart_def by blast
  have C: "separateRefs ?C" "apart ?C ?CA" by (rule s(4) [OF lists(1)], rule sub [OF lists(2) s(2,3) s(2,3)])
  note first = intersect_ref [OF C, of mem]
  have copies: "determineUsableTLSLogs (derefLoaded select mem cr) =
      (case intersect (deref mem ?C) (deref mem ?CA) of
         Ok both \<Rightarrow> (case intersect both (deref mem ?CM) of
             Ok usable \<Rightarrow> Ok (useCrtshLogNames (deref mem ?N) usable) | Err e \<Rightarrow> Err e | Panic \<Rightarrow> Panic)
       | Err e \<Rightarrow> Err e | Panic \<Rightarrow> Panic)"
    by (simp add: determineUsableTLSLogs_def derefLoaded_def s(1) cong: outcome.case_cong)
  have "map_outcome (\<lambda>(mem', ll). deref mem' ll) (determineUsableTLSLogsRef cr mem) = determineUsableTLSLogs (derefLoaded select mem cr) \<and>
    (\<forall>mem' ll. determineUsableTLSLogsRef cr mem = Ok (mem', ll) \<longrightarrow> sameOutside ?G mem mem' \<and>
      set (logRefs ll) \<subseteq> set (logRefs ?G) \<and> set (tiledRefs ll) \<subseteq> set (tiledRefs ?G))"
  proof (cases "\<exists>mem1 both. intersectRef ?C ?CA mem = Ok (mem1, both)")
    case False
    then show ?thesis using first(1) [symmetric] unfolding copies
      by (cases "intersectRef ?C ?CA mem") (auto simp: determineUsableTLSLogsRef_def)
  next
    case True
    then obtain mem1 both where one: "intersectRef ?C ?CA mem = Ok (mem1, both)" by blast
    from first(2) [OF one] have b: "sameOutside ?C mem mem1" "set (logRefs both) \<subseteq> set (logRefs ?C)"
      "set (tiledRefs both) \<subseteq> set (tiledRefs ?C)" "separateRefs both" using s(5) [OF uniq] by auto
    have both: "set (logRefs both) \<subseteq> set (logRefs ?G)" "set (tiledRefs both) \<subseteq> set (tiledRefs ?G)"
      using b(2,3) s(2,3) by blast+
    have same1: "sameOutside ?G mem mem1" by (rule sameOutside_mono [OF b(1) s(2,3)])
    have "apart both ?CM" "apart ?C ?CM" by (rule sub [OF lists(3) both s(2,3)], rule sub [OF lists(3) s(2,3) s(2,3)])
    note second = intersect_ref [OF b(4) this(1), of mem1, unfolded deref_frame [OF b(1) this(2)]]
    have copy1: "intersect (deref mem ?C) (deref mem ?CA) = Ok (deref mem1 both)" using first(1) one by simp
    show ?thesis
    proof (cases "\<exists>mem2 usable. intersectRef both ?CM mem1 = Ok (mem2, usable)")
      case False
      then show ?thesis using second(1) [symmetric] copy1 one unfolding copies
        by (cases "intersectRef both ?CM mem1") (auto simp: determineUsableTLSLogsRef_def)
    next
      case True
      then obtain mem2 usable where two: "intersectRef both ?CM mem1 = Ok (mem2, usable)" by blast
      from second(2) [OF two] have u: "sameOutside both mem1 mem2" "set (logRefs usable) \<subseteq> set (logRefs both)"
        "set (tiledRefs usable) \<subseteq> set (tiledRefs both)" by auto
      have usable: "set (logRefs usable) \<subseteq> set (logRefs ?G)" "set (tiledRefs usable) \<subseteq> set (tiledRefs ?G)"
        using both u(2,3) by blast+
      have same2: "sameOutside ?G mem mem2"
        using same1 sameOutside_mono [OF u(1) both] by (rule sameOutside_join)
      have "apart usable ?N" by (rule sub [OF lists(4) usable order.refl order.refl])
      note names = useCrtshLogNames_ref [OF this, of mem2, unfolded deref_frame [OF same2 lists(4)]]
      let ?mem = "useCrtshLogNamesRef ?N usable mem2"
      have res: "determineUsableTLSLogsRef cr mem = Ok (?mem, usable)"
        by (simp add: determineUsableTLSLogsRef_def one two)
      have "intersect (deref mem1 both) (deref mem ?CM) = Ok (deref mem2 usable)" using second(1) two by simp
      then have "determineUsableTLSLogs (derefLoaded select mem cr) = Ok (deref ?mem usable)"
        unfolding copies copy1 by (simp add: names(1))
      moreover have "sameOutside ?G mem ?mem"
        using same2 sameOutside_mono [OF names(2) usable] by (rule sameOutside_join)
      ultimately show ?thesis using usable by (simp add: res)
    qed
  qed
  then show "map_outcome (\<lambda>(mem', ll). deref mem' ll) (determineUsableTLSLogsRef cr mem) = determineUsableTLSLogs (derefLoaded select mem cr)"
    and "determineUsableTLSLogsRef cr mem = Ok (mem', ll) \<Longrightarrow> sameOutside ?G mem mem' \<and>
      set (logRefs ll) \<subseteq> set (logRefs ?G) \<and> set (tiledRefs ll) \<subseteq> set (tiledRefs ?G)"
    by blast+
qed

lemma filterOperators_ref:
  "deref mem (filterOperatorsRef keepLog keepTiled mem ll) = filterOperators keepLog keepTiled (deref mem ll)"
  "set (logRefs (filterOperatorsRef keepLog keepTiled mem ll)) \<subseteq> set (logRefs ll)"
  "set (tiledRefs (filterOperatorsRef keepLog keepTiled mem ll)) \<subseteq> set (tiledRefs ll)"
  by (induction ll) (auto simp: filterOperatorsRef_def filterOperators_def derefOperator_def filter_map comp_def)

lemma initLoglists_ref:
  assumes apart: "loadedApart cr" and sel: "selectShares select cr" and uniq: "uniqueIDs (deref mem (cr_AppleCurrent cr))"
  shows "map_outcome (\<lambda>(mem', dr, t). (derefLists mem' dr, t)) (initLoglistsRef acceptedRoots (Inr cr) release mem) =
      initLoglists acceptedRoots (Inr (derefLoaded select mem cr)) release"
    and "initLoglistsRef acceptedRoots (Inr cr) release mem = Ok (mem', dr, t) \<Longrightarrow>
      sameOutside (cr_GstaticV3All cr @ cr_BimiV3Approved cr) mem mem'"
proof -
  let ?G = "cr_GstaticV3All cr" and ?B = "cr_BimiV3Approved cr" and ?V = "cr_CrtshV3Active cr" and ?N = "cr_CrtshV3All cr"
  have lists: "apart ?G ?B" "apart ?G ?V" "apart ?G ?N" "apart ?B ?V" "apart ?B ?N" "apart ?B ?G"
    using apart by (simp_all add: loadedApart_def separateRefs_append apart_sym [of ?B ?G])
  note s = selectSharesD [OF sel] and u = determineUsable_ref [OF assms]
  have cl: "cl_BimiV3Approved (derefLoaded select mem cr) = deref mem ?B" "cl_CrtshV3Active (derefLoaded select mem cr) = deref mem ?V"
    "cl_CrtshV3All (derefLoaded select mem cr) = deref mem ?N" "cl_SelectByStatus (derefLoaded select mem cr) = select"
    by (simp_all add: derefLoaded_def)
  have "map_outcome (\<lambda>(mem', dr, t). (derefLists mem' dr, t)) (initLoglistsRef acceptedRoots (Inr cr) release mem) =
      initLoglists acceptedRoots (Inr (derefLoaded select mem cr)) release \<and>
    (\<forall>mem' dr t. initLoglistsRef acceptedRoots (Inr cr) release mem = Ok (mem', dr, t) \<longrightarrow> sameOutside (?G @ ?B) mem mem')"
  proof (cases "acceptedRoots = None \<and> (\<exists>mem1 usable. determineUsableTLSLogsRef cr mem = Ok (mem1, usable))")
    case False
    then show ?thesis using u(1) [symmetric]
      by (cases acceptedRoots; cases "determineUsableTLSLogsRef cr mem") (auto simp: initLoglists_def initLoglistsRef_def)
  next
    case True
    then obtain mem1 usable where none: "acceptedRoots = None" and one: "determineUsableTLSLogsRef cr mem = Ok (mem1, usable)" by blast
    have copy: "determineUsableTLSLogs (derefLoaded select mem cr) = Ok (deref mem1 usable)" using u(1) one by simp
    from u(2) [OF one] have same: "sameOutside ?G mem mem1"
      and usable: "set (logRefs usable) \<subseteq> set (logRefs ?G)" "set (tiledRefs usable) \<subseteq> set (tiledRefs ?G)" by auto
    note frame = deref_frame [OF same lists(1)] deref_frame [OF same lists(2)] deref_frame [OF same lists(3)]
    let ?A = "determineActiveTLSLogsRef cr mem1" and ?T = "determineTestTLSLogsRef cr mem1"
    let ?S = "cr_SelectByStatus cr [UsableLogStatus] mem1 ?B"
    let ?mem = "useCrtshLogNamesRef ?N ?S mem1"
    have "apart ?S ?N" by (rule apart_subset [OF lists(5) s(2,3)])
    note names = useCrtshLogNames_ref [OF this, of mem1, unfolded frame s(1)]
    have same2: "sameOutside ?B mem1 ?mem" by (rule sameOutside_mono [OF names(2) s(2,3)])
    have sub: "apart ?B l" if "apart ?B g" "set (logRefs l) \<subseteq> set (logRefs g)" "set (tiledRefs l) \<subseteq> set (tiledRefs g)" for g l
      using that unfolding apart_def by blast
    have reads: "deref ?mem usable = deref mem1 usable" by (rule deref_frame [OF same2 sub [OF lists(6) usable]])
    have "set (logRefs ?A) \<subseteq> set (logRefs ?V)" "set (tiledRefs ?A) \<subseteq> set (tiledRefs ?V)"
      unfolding determineActiveTLSLogsRef_def by (rule filterOperators_ref(2,3))+
    from deref_frame [OF same2 sub [OF lists(4) this]]
    have active: "deref ?mem ?A = determineActiveTLSLogs (derefLoaded select mem cr)"
      by (simp add: determineActiveTLSLogsRef_def determineActiveTLSLogs_def filterOperators_ref(1) frame cl)
    have "set (logRefs ?T) \<subseteq> set (logRefs ?V)" "set (tiledRefs ?T) \<subseteq> set (tiledRefs ?V)"
      unfolding determineTestTLSLogsRef_def by (rule filterOperators_ref(2,3))+
    from deref_frame [OF same2 sub [OF lists(4) this]]
    have test: "deref ?mem ?T = determineTestTLSLogs (derefLoaded select mem cr)"
      by (simp add: determineTestTLSLogsRef_def determineTestTLSLogs_def filterOperators_ref(1) frame cl)
    have bimi: "deref ?mem ?S = determineUsableBIMILogs (derefLoaded select mem cr)"
      using names(1) by (simp add: determineUsableBIMILogs_def cl)
    have "sameOutside (?G @ ?B) mem ?mem" by (rule sameOutside_trans [OF same same2])
    then show ?thesis
      by (simp add: initLoglists_def initLoglistsRef_def none one copy determineUsableBIMILogsRef_def derefLists_def Let_def
          reads active test bimi)
  qed
  then show "map_outcome (\<lambda>(mem', dr, t). (derefLists mem' dr, t)) (initLoglistsRef acceptedRoots (Inr cr) release mem) =
      initLoglists acceptedRoots (Inr (derefLoaded select mem cr)) release"
    and "initLoglistsRef acceptedRoots (Inr cr) release mem = Ok (mem', dr, t) \<Longrightarrow> sameOutside (?G @ ?B) mem mem'"
    by blast+
qed

section \<open>Property\<close>

text \<open>The lists of exPrograms in a store: the logs of the four lists follow each other.\<close>

definition exLoaded :: ctloglistsRef where
  "exLoaded = \<lparr>cr_GstaticV3All = [\<lparr>or_Name = ''G'', or_Logs = [0, 1], or_TiledLogs = []\<rparr>],
     cr_AppleCurrent = [\<lparr>or_Name = ''A'', or_Logs = [2], or_TiledLogs = []\<rparr>],
     cr_MozillaV3Known = [\<lparr>or_Name = ''M'', or_Logs = [3, 4], or_TiledLogs = []\<rparr>],
     cr_BimiV3Approved = [], cr_CrtshV3Active = [],
     cr_CrtshV3All = [\<lparr>or_Name = ''C'', or_Logs = [5], or_TiledLogs = []\<rparr>], cr_SelectByStatus = (\<lambda>_ _ ll. ll)\<rparr>"

definition exStore :: logStore where
  "exStore = \<lparr>ms_log = (\<lambda>a. (allLogs (cl_GstaticV3All exPrograms) @ allLogs (cl_AppleCurrent exPrograms) @
       allLogs (cl_MozillaV3Known exPrograms) @ allLogs (cl_CrtshV3All exPrograms)) ! a), ms_tiled = (\<lambda>a. undefined)\<rparr>"

lemma exLoaded_exPrograms: "derefLoaded (\<lambda>_ ll. ll) exStore exLoaded = exPrograms"
  by (simp add: derefLoaded_def exLoaded_def exStore_def exPrograms_def deref_def derefOperator_def allLogs_def)

text \<open>
  C25: Sharing logs between the lists and writing to them in place makes no difference: what the four
  lists of the package hold after its init, read through the pointers, is what they would hold if
  every step worked on copies, panics and timestamp included, and the lists that are only read
  (Apple's, Mozilla's and crt.sh's) are as they were loaded. This needs that the loaded lists have no
  log in common and that no log ID is in Apple's list twice.
\<close>

theorem log_sharing_harmless:
  assumes "loadedApart cr" and "selectShares select cr" and "uniqueIDs (deref mem (cr_AppleCurrent cr))"
  shows "map_outcome (\<lambda>(mem', dr, t). (derefLists mem' dr, t)) (initLoglistsRef acceptedRoots (Inr cr) release mem) =
      initLoglists acceptedRoots (Inr (derefLoaded select mem cr)) release \<and>
    (\<forall>mem' dr t. initLoglistsRef acceptedRoots (Inr cr) release mem = Ok (mem', dr, t) \<longrightarrow>
      list_all (\<lambda>ll. deref mem' ll = deref mem ll)
        [cr_AppleCurrent cr, cr_MozillaV3Known cr, cr_CrtshV3Active cr, cr_CrtshV3All cr])"
proof -
  have "list_all (apart (cr_GstaticV3All cr @ cr_BimiV3Approved cr))
      [cr_AppleCurrent cr, cr_MozillaV3Known cr, cr_CrtshV3Active cr, cr_CrtshV3All cr]"
    using assms(1) by (auto simp: loadedApart_def separateRefs_append apart_def)
  then have "list_all (\<lambda>ll. deref mem' ll = deref mem ll)
      [cr_AppleCurrent cr, cr_MozillaV3Known cr, cr_CrtshV3Active cr, cr_CrtshV3All cr]"
    if "sameOutside (cr_GstaticV3All cr @ cr_BimiV3Approved cr) mem mem'" for mem'
    unfolding list_all_iff using deref_frame [OF that] by blast
  then show ?thesis using initLoglists_ref [OF assms] by blast
qed

theorem log_sharing_harmless_witness:
  "\<exists>mem' dr t. initLoglistsRef None (Inr exLoaded) (Inl QuorumMetCause) exStore = Ok (mem', dr, t) \<and>
     deref mem' (dr_UsableTLSLogs dr) = exUsableList \<and> ms_log mem' 2 = exListed [1] ''a1'' 7 (exInterval 2 9)"
proof -
  have "loadedApart exLoaded" "selectShares (\<lambda>_ ll. ll) exLoaded"
    by (auto simp: loadedApart_def exLoaded_def separateRefs_def selectShares_def logRefs_def tiledRefs_def)
  moreover have "uniqueIDs (deref exStore (cr_AppleCurrent exLoaded))"
    by (simp add: exLoaded_def uniqueIDs_def allLogs_def allTiledLogs_def)
  ultimately have h: "map_outcome (\<lambda>(mem', dr, t). (derefLists mem' dr, t)) (initLoglistsRef None (Inr exLoaded) (Inl QuorumMetCause) exStore) =
      initLoglists None (Inr exPrograms) (Inl QuorumMetCause)"
    "\<And>mem' dr t. initLoglistsRef None (Inr exLoaded) (Inl QuorumMetCause) exStore = Ok (mem', dr, t) \<Longrightarrow>
      deref mem' (cr_AppleCurrent exLoaded) = deref exStore (cr_AppleCurrent exLoaded)"
    using log_sharing_harmless [of exLoaded "\<lambda>_ ll. ll" exStore None "Inl QuorumMetCause"] by (simp_all add: exLoaded_exPrograms)
  obtain wl where wl: "initLoglists None (Inr exPrograms) (Inl QuorumMetCause) = Ok (wl, None)" "wl_UsableTLSLogs wl = exUsableList"
    by (simp add: initLoglists_def exPrograms_usable)
  then obtain mem' dr t where r: "initLoglistsRef None (Inr exLoaded) (Inl QuorumMetCause) exStore = Ok (mem', dr, t)"
    "derefLists mem' dr = wl"
    using h(1) by (cases "initLoglistsRef None (Inr exLoaded) (Inl QuorumMetCause) exStore") auto
  have "deref mem' (dr_UsableTLSLogs dr) = exUsableList" using wl(2) r(2) by (auto simp: derefLists_def)
  moreover have "ms_log mem' 2 = exListed [1] ''a1'' 7 (exInterval 2 9)"
    using h(2) [OF r(1)] by (simp add: exLoaded_def exStore_def exPrograms_def allLogs_def derefOperator_def)
  ultimately show ?thesis using r(1) by blast
qed

end
