(* ===== verification/Examples.thy ===== *)
theory Examples
  imports Submit_System
begin

text \<open>
  Concrete data at which the properties are evaluated: three logs of three operators, a library
  that accepts one known log's SCTs, and the schedule of a submission that meets its quorum.
\<close>

definition exMember :: "string \<Rightarrow> string \<Rightarrow> LogType \<Rightarrow> Bucket \<Rightarrow> StrategyMember" where
  "exMember u oper lt b =
     \<lparr>sm_SubmissionURL = u, sm_MonitoringURL = u, sm_Operator = oper, sm_LogName = u, sm_LogType = lt,
      sm_MMD = 86400, sm_Bucket = b, sm_DispreferredDetail = [], sm_RandomWeight = 0, sm_Outcome = [],
      sm_BeganAfter = 0, sm_TimeTaken = 0\<rparr>"

definition exStrategy :: "StrategyMember list" where
  "exStrategy =
     [exMember ''a'' ''A'' LOGTYPE_RFC6962 NEUTRAL, exMember ''x'' ''X'' LOGTYPE_RFC6962 EXCLUDED,
      exMember ''b'' ''B'' LOGTYPE_STATIC NEUTRAL]"

definition exRequest :: SubmissionRequest where
  "exRequest = NewSubmissionRequest\<lparr>sr_SCTs := 1, sr_RequireAtLeastOneRFC6962SCT := True\<rparr>"

definition exResponse :: addChainResponse where
  "exResponse = zeroResponse"

definition exLib :: ctLib where
  "exLib = \<lparr>lib_unmarshal = (\<lambda>b. if b = [] then Inl (Errorf ''EOF'') else Inr exResponse),
            lib_toSCT = (\<lambda>r. Inr zeroSCT), lib_verifiers = (\<lambda>k. Some (\<lambda>s l. None))\<rparr>"

definition exEntry :: submittedEntry where
  "exEntry = \<lparr>se_sha256IssuerSPKI = Some [1], se_entryType = PrecertLogEntryType, se_entryData = [2]\<rparr>"

definition exMarshal :: "bytes list \<Rightarrow> go_error + bytes" where
  "exMarshal chain = Inr (concat chain)"

definition exElapsed :: "nat \<Rightarrow> duration" where
  "exElapsed n = int n + 1"

definition exSub :: submission where
  "exSub = submissionOf exRequest exElapsed exStrategy exLib exEntry"

definition exStart :: system where
  "exStart = submitSystem exMarshal exRequest exElapsed exStrategy exEntry"

definition exNow :: time where
  "exNow = unixMilli 0"

text \<open>The first log answers in time.\<close>

definition exAnswer :: httpExchange where
  "exAnswer = Inr \<lparr>hr_StatusCode = 200, hr_RetryAfter = [], hr_Body = Inr [7]\<rparr>"

definition exSchedule :: "choice list" where
  "exSchedule = [ChWake 0 (WakeStart None None), ChWake 0 (WakeHTTP exNow 5 exAnswer), ChPerform 0, ChPerform 0, ChReceive]"

definition exEnd :: system where
  "exEnd = the (sysExec exSub exSchedule exStart)"

text \<open>Both logs are unreachable.\<close>

definition exRefused :: httpExchange where
  "exRefused = Inl \<lparr>ce_Text = ''connection refused'', ce_Chain = [None]\<rparr>"

definition exBadSchedule :: "choice list" where
  "exBadSchedule =
     [ChWake 0 (WakeStart None None), ChWake 0 (WakeHTTP exNow 5 exRefused), ChPerform 0, ChPerform 0, ChPerform 0,
      ChReceive,
      ChWake 1 (WakeStart None None), ChWake 1 (WakeHTTP exNow 5 exRefused), ChPerform 1, ChPerform 1, ChPerform 1,
      ChReceive]"

definition exBadEnd :: system where
  "exBadEnd = the (sysExec exSub exBadSchedule exStart)"

definition exReason :: string where
  "exReason = ''quorum not achieved: need 1 SCTs but got 0; need 1 distinct operators but got 0; '' @
     ''require at least one RFC6962 SCT but got none''"

lemmas ex_defs = exSub_def exStart_def exEnd_def exBadEnd_def

lemma ex_fresh: "freshStrategy exStrategy"
  by code_simp

lemma ex_requirements: "requirementsOK exRequest"
  by code_simp

lemma ex_elapsed: "\<forall>n. 0 < exElapsed n"
  by (simp add: exElapsed_def)

lemma ex_issuer: "issuerKnown exEntry"
  by code_simp

lemma ex_returned_some:
  "map_option (\<lambda>y. st_control (sys_co y)) (sysExec exSub exSchedule exStart) = Some (Returned (Ok ([exResponse], [zeroSCT])))"
  by code_simp

lemma ex_failed_some:
  "map_option (\<lambda>y. st_control (sys_co y)) (sysExec exSub exBadSchedule exStart) = Some (Returned (Err (Errorf exReason)))"
  by code_simp

lemma ex_end: "sysExec exSub exSchedule exStart = Some exEnd" "st_control (sys_co exEnd) = Returned (Ok ([exResponse], [zeroSCT]))"
  using ex_returned_some by (auto simp: exEnd_def)

lemma ex_bad_end: "sysExec exSub exBadSchedule exStart = Some exBadEnd" "st_control (sys_co exBadEnd) = Returned (Err (Errorf exReason))"
  using ex_failed_some by (auto simp: exBadEnd_def)

lemma ex_reach:
  "sysReach (submissionOf exRequest exElapsed exStrategy exLib exEntry)
     (submitSystem exMarshal exRequest exElapsed exStrategy exEntry) exEnd"
  using sysExec_reach [OF ex_end(1)] by (simp add: exSub_def exStart_def)

lemma ex_bad_reach:
  "sysReach (submissionOf exRequest exElapsed exStrategy exLib exEntry)
     (submitSystem exMarshal exRequest exElapsed exStrategy exEntry) exBadEnd"
  using sysExec_reach [OF ex_bad_end(1)] by (simp add: exSub_def exStart_def)

end
