(* ===== verification/Handler_Examples.thy ===== *)
theory Handler_Examples
  imports Handler Examples Monitor_Correct
begin

text \<open>
  A policy-compliant request for a certificate of 90 days over two operators with one usable log
  each, both of which answer; and a precertificate whose linter result is too short.
\<close>

definition exTwoOperators :: logList where
  "exTwoOperators =
     [\<lparr>op_Name = ''A'', op_Logs = [exUsable\<lparr>log_URL := ''https://a.example/''\<rparr>], op_TiledLogs = []\<rparr>,
      \<lparr>op_Name = ''B'', op_Logs = [exUsable\<lparr>log_URL := ''https://b.example/''\<rparr>], op_TiledLogs = []\<rparr>]"

definition exHandlerLib :: "(bytes, unit, bytes) handlerLib" where
  "exHandlerLib =
     \<lparr>hl_parse = (\<lambda>b. Inr (exCert\<lparr>cert_Raw := b\<rparr>)), hl_asn1 = exASN1, hl_oidBIMI = [1], hl_baseList = (\<lambda>l. exTwoOperators),
      hl_discovery = exDiscovery, hl_compat = exCompat, hl_sha256 = (\<lambda>b. b), hl_issuerSPKIByKeyIdentifier = (\<lambda>k. None),
      hl_mimic = \<lparr>ml_serialize = (\<lambda>s h t. Inr []), ml_sign = (\<lambda>k b. Inr [1])\<rparr>, hl_marshalSignature = Inr,
      hl_marshalSCTs = (\<lambda>s. Inr []), hl_tlsMarshal = Inr, hl_makeDummy = (\<lambda>b. Inr exCert), hl_checkCertificate = (\<lambda>c h. [])\<rparr>"

definition exHandlerEnv :: "Settings \<Rightarrow> handlerEnv" where
  "exHandlerEnv cfg =
     \<lparr>he_now = 1, he_strategyEnv = exEnv 1, he_submitter = exSubmitter\<lparr>sb_cfg := cfg\<rparr>,
      he_monitor = newMonitor defaultSettings (\<lambda>u. u) (\<lambda>k. True) (\<lambda>n k. True) [exTwoOperators], he_mimicTimestamp = 0\<rparr>"

definition exVerbose :: SubmissionRequest where
  "exVerbose = exAsk\<lparr>sr_Verbose := True, sr_Mimics := True\<rparr>"

text \<open>Preparing a request that is not refused, and the run in which both logs answer.\<close>

definition preparedOf :: "'r handlerStage outcome \<times> chainCache \<Rightarrow> 'r prepared option" where
  "preparedOf stage = (case fst stage of Ok (Prepared p) \<Rightarrow> Some p | _ \<Rightarrow> None)"

lemma preparedOf_Some: "preparedOf stage = Some p \<Longrightarrow> stage = (Ok (Prepared p), snd stage)"
  by (cases stage) (auto simp: preparedOf_def split: outcome.splits handlerStage.splits)

definition exBothAnswer :: "choice list" where
  "exBothAnswer =
     [ChWake 0 (WakeStart None None), ChWake 1 (WakeStart None None),
      ChWake 0 (WakeHTTP exNow 5 exAnswer), ChPerform 0, ChPerform 0,
      ChWake 1 (WakeHTTP exNow 6 exAnswer), ChPerform 1, ChPerform 1, ChReceive, ChReceive]"

definition endOf :: "'r prepared \<Rightarrow> system option" where
  "endOf p = sysExec (submissionOf (pr_request p) exElapsed (pr_strategy p) exLib (pr_entry p)) exBothAnswer
     (submitSystem exMarshal (pr_request p) exElapsed (pr_strategy p) (pr_entry p))"

lemma endOf_ends:
  assumes "endOf p = Some y" and "\<not> sys_panicked y" and "st_control (sys_co y) = Returned submitted"
  shows "submissionEnds exMarshal exElapsed exLib p submitted (st_strategy (sys_co y))"
  unfolding submissionEnds_def
  using sysExec_reach [OF assms(1) [unfolded endOf_def]] assms(2,3) by auto

definition exPrepared :: "bytes prepared" where
  "exPrepared = the (preparedOf (handlePrepare exHandlerLib (exHandlerEnv defaultSettings) ENDPOINT_ADDCHAIN exVerbose (initChainCache exChainLib)))"

definition exFinal :: system where "exFinal = the (endOf exPrepared)"

lemma exPrepared_Some: "preparedOf (handlePrepare exHandlerLib (exHandlerEnv defaultSettings) ENDPOINT_ADDCHAIN exVerbose (initChainCache exChainLib)) \<noteq> None"
  by code_simp

lemma exFinal_facts: "endOf exPrepared \<noteq> None" "\<not> sys_panicked exFinal"
  "st_control (sys_co exFinal) = Returned (Ok ([exResponse, exResponse], [zeroSCT, zeroSCT]))"
  by code_simp+

definition exAnswered :: "handlerResult outcome" where
  "exAnswered = handleFinish exHandlerLib (exHandlerEnv defaultSettings) exPrepared
     (Ok ([exResponse, exResponse], [zeroSCT, zeroSCT])) (st_strategy (sys_co exFinal))"

definition exAnswer2 :: SubmissionResponse where
  "exAnswer2 = (case exAnswered of Ok (Some resp, None) \<Rightarrow> resp | _ \<Rightarrow> emptyResponse)"

lemma exPrepared_facts: "se_entryType (pr_entry exPrepared) = X509LogEntryType" "se_sha256IssuerSPKI (pr_entry exPrepared) = Some [9]"
  "sr_Mimics (pr_request exPrepared)"
  by code_simp+

lemma exAnswered_ok: "exAnswered = Ok (Some exAnswer2, None)"
proof -
  have "\<exists>resp. exAnswered = Ok (Some resp, None)"
    unfolding exAnswered_def handleFinish_def addMimics_def Let_def
    by (simp add: exPrepared_facts exHandlerLib_def GenerateMimicSCTs_def buildMimicSCT_def MarshalSCTList_def)
  then obtain resp where r: "exAnswered = Ok (Some resp, None)" by blast
  show ?thesis by (simp add: exAnswer2_def r)
qed

lemma ex_handled:
  "\<exists>cache'. Handle exHandlerLib (exHandlerEnv defaultSettings) exMarshal exElapsed exLib ENDPOINT_ADDCHAIN exVerbose
     (initChainCache exChainLib) (Ok (Some exAnswer2, None)) cache'"
proof -
  let ?stage = "handlePrepare exHandlerLib (exHandlerEnv defaultSettings) ENDPOINT_ADDCHAIN exVerbose (initChainCache exChainLib)"
  have p: "?stage = (Ok (Prepared exPrepared), snd ?stage)"
    using preparedOf_Some exPrepared_Some unfolding exPrepared_def by (metis option.collapse)
  have "endOf exPrepared = Some exFinal" using exFinal_facts(1) by (simp add: exFinal_def)
  from endOf_ends [OF this exFinal_facts(2,3)] show ?thesis
    using Handle.submitted [OF p, of exMarshal exElapsed exLib] exAnswered_ok unfolding exAnswered_def by metis
qed

text \<open>The final certificate of a precertificate is asked for, and the linter answers with one byte.\<close>

definition exLintLib :: "(bytes, unit, bytes) handlerLib" where
  "exLintLib = exHandlerLib\<lparr>hl_parse := (\<lambda>b. Inr (exCert\<lparr>cert_Raw := b, cert_IsPrecertificate := True\<rparr>)),
     hl_checkCertificate := (\<lambda>c h. [''x''])\<rparr>"

definition exLintEnv :: handlerEnv where
  "exLintEnv = exHandlerEnv (defaultSettings\<lparr>response_ProduceFinalTBSCert := True\<rparr>)"

definition exLintPrepared :: "bytes prepared" where
  "exLintPrepared = the (preparedOf (handlePrepare exLintLib exLintEnv ENDPOINT_ADDPRECHAIN exAsk (initChainCache exChainLib)))"

definition exLintFinal :: system where "exLintFinal = the (endOf exLintPrepared)"

lemma exLintPrepared_Some: "preparedOf (handlePrepare exLintLib exLintEnv ENDPOINT_ADDPRECHAIN exAsk (initChainCache exChainLib)) \<noteq> None"
  by code_simp

lemma exLintFinal_facts: "endOf exLintPrepared \<noteq> None" "\<not> sys_panicked exLintFinal"
  "st_control (sys_co exLintFinal) = Returned (Ok ([exResponse, exResponse], [zeroSCT, zeroSCT]))"
  "se_entryType (pr_entry exLintPrepared) = PrecertLogEntryType" "pr_detoxed exLintPrepared \<noteq> None"
  "\<not> sr_Mimics (pr_request exLintPrepared)"
  by code_simp+

lemma ex_lint_panic:
  "\<exists>cache'. Handle exLintLib exLintEnv exMarshal exElapsed exLib ENDPOINT_ADDPRECHAIN exAsk (initChainCache exChainLib) Panic cache'"
proof -
  let ?stage = "handlePrepare exLintLib exLintEnv ENDPOINT_ADDPRECHAIN exAsk (initChainCache exChainLib)"
  have p: "?stage = (Ok (Prepared exLintPrepared), snd ?stage)"
    using preparedOf_Some exLintPrepared_Some unfolding exLintPrepared_def by (metis option.collapse)
  have "endOf exLintPrepared = Some exLintFinal" using exLintFinal_facts(1) by (simp add: exLintFinal_def)
  from endOf_ends [OF this exLintFinal_facts(2,3)]
  have "submissionEnds exMarshal exElapsed exLib exLintPrepared (Ok ([exResponse, exResponse], [zeroSCT, zeroSCT]))
    (st_strategy (sys_co exLintFinal))" .
  moreover have "handleFinish exLintLib exLintEnv exLintPrepared (Ok ([exResponse, exResponse], [zeroSCT, zeroSCT]))
      (st_strategy (sys_co exLintFinal)) = Panic"
    using exLintFinal_facts(4-6)
    by (auto simp: handleFinish_def addMimics_def embedSCTs_def exLintLib_def exLintEnv_def exHandlerEnv_def exHandlerLib_def
        MarshalSCTList_def ProduceFinalTBSCertificate_def exASN1_def runCTLint_def Let_def)
  ultimately show ?thesis using Handle.submitted [OF p, of exMarshal exElapsed exLib] by metis
qed

end
