(* ===== verification/Feedback.thy ===== *)
theory Feedback
  imports Submit_Log Monitor_Correct Examples
begin

text \<open>
  From submissions back to strategies: a goroutine's calls to the monitor (submitToLog.go,
  backoffHandler.go) and the strategies devised afterwards (strategy.go). The calls of all
  goroutines are interleaved in some order; a call is its clock reading, its log and what it records.
\<close>

section \<open>Sequences of calls to the monitor\<close>

type_synonym timedCall = "time \<times> string \<times> monCall"

definition runCalls :: "(string \<Rightarrow> time option) \<Rightarrow> timedCall list \<Rightarrow> Monitor \<Rightarrow> Monitor" where
  "runCalls parseDate calls m = fold (\<lambda>(now, u, c). applyMonCall parseDate now u c) calls m"

text \<open>The calls of a goroutine's queued actions, all made for one log at one time.\<close>

fun monCallsOf :: "time \<Rightarrow> string \<Rightarrow> action list \<Rightarrow> timedCall list" where
  "monCallsOf now u [] = []"
| "monCallsOf now u (MonCall c # acts) = (now, u, c) # monCallsOf now u acts"
| "monCallsOf now u (SendEvent ev # acts) = monCallsOf now u acts"

lemma applyMonCall_cfg [simp]: "mon_cfg (applyMonCall parseDate now u c m) = mon_cfg m"
  by (cases c)
    (simp_all add: RecordTimeout_def RecordBadResponse_def Record5xxResponse_def Record4xxResponse_def
      RecordSubmissionResponseTime_def recordResponseTimeSample_def RecordSubmissionOutcome_def
      recordOutcomeSample_def Let_def)

lemma sampling_keeps_backoffs [simp]:
  "mon_backoffBadResponse (RecordSubmissionResponseTime now u d m) = mon_backoffBadResponse m"
  "mon_backoffTimeout (RecordSubmissionResponseTime now u d m) = mon_backoffTimeout m"
  "mon_backoff5xx (RecordSubmissionResponseTime now u d m) = mon_backoff5xx m"
  "mon_backoff4xx (RecordSubmissionResponseTime now u d m) = mon_backoff4xx m"
  "mon_backoffBadResponse (RecordSubmissionOutcome now u oc m) = mon_backoffBadResponse m"
  "mon_backoffTimeout (RecordSubmissionOutcome now u oc m) = mon_backoffTimeout m"
  "mon_backoff5xx (RecordSubmissionOutcome now u oc m) = mon_backoff5xx m"
  "mon_backoff4xx (RecordSubmissionOutcome now u oc m) = mon_backoff4xx m"
  by (simp_all add: RecordSubmissionResponseTime_def recordResponseTimeSample_def RecordSubmissionOutcome_def
      recordOutcomeSample_def Let_def)

lemma recording_keeps_other_backoffs [simp]:
  "mon_backoffBadResponse (RecordTimeout now u m) = mon_backoffBadResponse m"
  "mon_backoffBadResponse (Record5xxResponse pd r n now u m) = mon_backoffBadResponse m"
  "mon_backoffBadResponse (Record4xxResponse pd r n now u m) = mon_backoffBadResponse m"
  "mon_backoffTimeout (RecordBadResponse now u m) = mon_backoffTimeout m"
  "mon_backoffTimeout (Record5xxResponse pd r n now u m) = mon_backoffTimeout m"
  "mon_backoffTimeout (Record4xxResponse pd r n now u m) = mon_backoffTimeout m"
  "mon_backoff5xx (RecordBadResponse now u m) = mon_backoff5xx m"
  "mon_backoff5xx (RecordTimeout now u m) = mon_backoff5xx m"
  "mon_backoff5xx (Record4xxResponse pd r n now u m) = mon_backoff5xx m"
  "mon_backoff4xx (RecordBadResponse now u m) = mon_backoff4xx m"
  "mon_backoff4xx (RecordTimeout now u m) = mon_backoff4xx m"
  "mon_backoff4xx (Record5xxResponse pd r n now u m) = mon_backoff4xx m"
  by (simp_all add: RecordTimeout_def RecordBadResponse_def Record5xxResponse_def Record4xxResponse_def Let_def)

section \<open>Back-offs outlast every later call\<close>

lemma call_keeps:
  "0 < fst (GetBadResponseBackoff fmt t t' m v) \<Longrightarrow>
     0 < fst (GetBadResponseBackoff fmt t t' (applyMonCall parseDate now u c m) v)"
  "0 < fst (GetTimeoutBackoff fmt t t' m v) \<Longrightarrow>
     0 < fst (GetTimeoutBackoff fmt t t' (applyMonCall parseDate now u c m) v)"
  "0 < fst (Get5xxBackoff fmt t t' m v) \<Longrightarrow>
     0 < fst (Get5xxBackoff fmt t t' (applyMonCall parseDate now u c m) v)"
  "0 < fst (Get4xxBackoff fmt t t' m v) \<Longrightarrow>
     0 < fst (Get4xxBackoff fmt t t' (applyMonCall parseDate now u c m) v)"
proof -
  have other:
    "c \<noteq> CallBadResponse \<Longrightarrow> GetBadResponseBackoff fmt t t' (applyMonCall parseDate now u c m) v = GetBadResponseBackoff fmt t t' m v"
    "c \<noteq> CallTimeout \<Longrightarrow> GetTimeoutBackoff fmt t t' (applyMonCall parseDate now u c m) v = GetTimeoutBackoff fmt t t' m v"
    "\<forall>r. c \<noteq> Call5xx r \<Longrightarrow> Get5xxBackoff fmt t t' (applyMonCall parseDate now u c m) v = Get5xxBackoff fmt t t' m v"
    "\<forall>r. c \<noteq> Call4xx r \<Longrightarrow> Get4xxBackoff fmt t t' (applyMonCall parseDate now u c m) v = Get4xxBackoff fmt t t' m v"
    by (cases c; simp add: GetBadResponseBackoff_def GetTimeoutBackoff_def Get5xxBackoff_def Get4xxBackoff_def)+
  show "0 < fst (GetBadResponseBackoff fmt t t' m v) \<Longrightarrow>
     0 < fst (GetBadResponseBackoff fmt t t' (applyMonCall parseDate now u c m) v)"
    using other(1) badResponse.in_force_stays by (cases "c = CallBadResponse") simp_all
  show "0 < fst (GetTimeoutBackoff fmt t t' m v) \<Longrightarrow>
     0 < fst (GetTimeoutBackoff fmt t t' (applyMonCall parseDate now u c m) v)"
    using other(2) timeout.in_force_stays by (cases "c = CallTimeout") simp_all
  show "0 < fst (Get5xxBackoff fmt t t' m v) \<Longrightarrow>
     0 < fst (Get5xxBackoff fmt t t' (applyMonCall parseDate now u c m) v)"
    using other(3) http5xx.in_force_stays [of fmt t t' m v parseDate "(r, now)" now u for r] by (cases "\<exists>r. c = Call5xx r") auto
  show "0 < fst (Get4xxBackoff fmt t t' m v) \<Longrightarrow>
     0 < fst (Get4xxBackoff fmt t t' (applyMonCall parseDate now u c m) v)"
    using other(4) http4xx.in_force_stays [of fmt t t' m v parseDate "(r, now)" now u for r] by (cases "\<exists>r. c = Call4xx r") auto
qed

text \<open>The four back-offs a strategy reads for a member, at its clock readings.\<close>

definition backedOff :: "(time \<Rightarrow> string) \<Rightarrow> (nat \<Rightarrow> time) \<Rightarrow> Bucket \<Rightarrow> Monitor \<Rightarrow> string \<Rightarrow> bool" where
  "backedOff fmt t b m u \<longleftrightarrow>
     (b = DISPREFERRED_RECENTBADRESPONSE \<and> 0 < fst (GetBadResponseBackoff fmt (t 1) (t 2) m u) \<or>
      b = DISPREFERRED_RECENTTIMEOUT \<and> 0 < fst (GetTimeoutBackoff fmt (t 3) (t 4) m u) \<or>
      b = DISPREFERRED_RECENT5XX \<and> 0 < fst (Get5xxBackoff fmt (t 5) (t 6) m u) \<or>
      b = DISPREFERRED_RECENT4XX \<and> 0 < fst (Get4xxBackoff fmt (t 7) (t 8) m u))"

lemma backedOff_calls:
  "backedOff fmt t b m v \<Longrightarrow> backedOff fmt t b (runCalls parseDate calls m) v"
proof (induction calls arbitrary: m)
  case Nil
  then show ?case by (simp add: runCalls_def)
next
  case (Cons call calls)
  obtain now u c where call: "call = (now, u, c)" by (cases call) auto
  have "backedOff fmt t b (applyMonCall parseDate now u c m) v"
    using Cons.prems unfolding backedOff_def by (elim disjE conjE) (simp_all add: call_keeps)
  then show ?case using Cons.IH call by (simp add: runCalls_def)
qed

lemma backedOff_bucket:
  assumes "backedOff (sv_fmtTime env) (sv_clock env i) b mon (sm_SubmissionURL sm)"
  shows "bucketOf env sub mon entryType i sm \<le> b" and "b < NEUTRAL"
  using assms
  by (auto simp: backedOff_def bucketOf_def Let_def less_eq_Bucket_def less_Bucket_def split: option.split)

section \<open>What a failure costs\<close>

text \<open>The bucket a recorded failure leads to, and for how long.\<close>

fun penalty :: "(string \<Rightarrow> time option) \<Rightarrow> time \<Rightarrow> Monitor \<Rightarrow> monCall \<Rightarrow> (Bucket \<times> duration) option" where
  "penalty parseDate now m CallTimeout = Some (DISPREFERRED_RECENTTIMEOUT, backoff_TimeoutPeriod (mon_cfg m))"
| "penalty parseDate now m CallBadResponse = Some (DISPREFERRED_RECENTBADRESPONSE, backoff_BadResponsePeriod (mon_cfg m))"
| "penalty parseDate now m (Call5xx r) = Some (DISPREFERRED_RECENT5XX, backoff5xxDuration parseDate now m r)"
| "penalty parseDate now m (Call4xx r) = Some (DISPREFERRED_RECENT4XX, backoff4xxDuration parseDate now m r)"
| "penalty parseDate now m c = None"

lemma penalty_cfg: "mon_cfg m' = mon_cfg m \<Longrightarrow> penalty parseDate now m' c = penalty parseDate now m c"
  by (cases c) (simp_all add: backoff5xxDuration_def backoff4xxDuration_def Let_def)

lemma penalty_backedOff:
  assumes "penalty parseDate now m c = Some (b, d)" and "\<forall>k. t k < now + d"
  shows "backedOff fmt t b (applyMonCall parseDate now u c m) u"
proof -
  have t: "t k \<le> now + d \<and> t k < now + d" for k using assms(2) by (simp add: less_imp_le)
  show ?thesis
    using assms(1) t badResponse.in_force_after_put [where fmtTime = fmt]
      timeout.in_force_after_put [where fmtTime = fmt]
      http5xx.in_force_after_put [where r = "(r, now)" and fmtTime = fmt and parseDate = parseDate for r]
      http4xx.in_force_after_put [where r = "(r, now)" and fmtTime = fmt and parseDate = parseDate for r]
    by (cases c) (auto simp: backedOff_def)
qed

lemma runCalls_cfg [simp]: "mon_cfg (runCalls parseDate calls m) = mon_cfg m"
  by (induction calls arbitrary: m) (auto simp: runCalls_def)

lemma penalty_runCalls:
  assumes "(now, u, c) \<in> set calls" and "penalty parseDate now m c = Some (b, d)" and "\<forall>k. t k < now + d"
  shows "backedOff fmt t b (runCalls parseDate calls m) u"
proof -
  obtain xs ys where calls: "calls = xs @ (now, u, c) # ys" using assms(1) by (meson split_list)
  let ?m = "runCalls parseDate xs m"
  have "penalty parseDate now ?m c = Some (b, d)" using assms(2) penalty_cfg [of ?m m] by simp
  from penalty_backedOff [OF this assms(3)] have "backedOff fmt t b (applyMonCall parseDate now u c ?m) u" .
  then have "backedOff fmt t b (runCalls parseDate ys (applyMonCall parseDate now u c ?m)) u" by (rule backedOff_calls)
  then show ?thesis by (simp add: calls runCalls_def)
qed

lemma penaltyCall_Some: "penalty parseDate now m (penaltyCall exchange) \<noteq> None"
  by (auto simp: penaltyCall_def split: sum.split)

text \<open>
  C17: A log whose answer was a failure is tried after every neutral log. Whatever the other
  goroutines record before and after, while the back-off of that kind of failure runs (for 4xx and
  5xx answers the usable Retry-After, else the configured default) a strategy puts the log into the
  bucket of that failure or a lower one, even when the configuration prefers the log.
\<close>

theorem failed_log_dispreferred:
  assumes "processHTTPResponse lib now idx exchange se d = Ok acts"
    and "\<forall>ev. SendEvent ev \<in> set acts \<longrightarrow> ev_eventType ev = eventFailure"
    and "set (monCallsOf now (sm_SubmissionURL sm) acts) \<subseteq> set calls"
    and "penalty parseDate now m (penaltyCall exchange) = Some (b, period)"
    and "\<forall>k. sv_clock env i k < now + period"
    and "sm_Bucket sm = NEUTRAL \<or> sm_Bucket sm = EXCLUDED"
  shows "sm_Bucket (assignBucket env sub (runCalls parseDate calls m) entryType i sm) \<le> b \<and> b < NEUTRAL"
proof -
  have "(now, sm_SubmissionURL sm, penaltyCall exchange) \<in> set calls"
  proof (cases rule: processHTTPResponse_cases [OF assms(1), case_names fail success])
    case (fail call oc counter)
    then show ?thesis using assms(3) by (auto simp: failWith_def)
  next
    case (success resp body r s)
    then show ?thesis using assms(2) by force
  qed
  from penalty_runCalls [OF this assms(4,5)]
  have "backedOff (sv_fmtTime env) (sv_clock env i) b (runCalls parseDate calls m) (sm_SubmissionURL sm)" .
  from backedOff_bucket [OF this] show ?thesis using assignBucket_bucket [OF assms(6)] by metis
qed

text \<open>The example log answers 503 and asks for two minutes.\<close>

definition exBusy :: httpExchange where
  "exBusy = Inr \<lparr>hr_StatusCode = 503, hr_RetryAfter = ''120'', hr_Body = Inr [7]\<rparr>"

definition exBusyActs :: "action list" where
  "exBusyActs = [MonCall (CallResponseTime 5),
     MonCall (Call5xx \<lparr>hh_StatusCode = 503, hh_RetryAfter = ''120''\<rparr>),
     SendEvent (failureEvent 0 ''Failed: HTTP 503'' 5), MonCall (CallOutcome ''5xx'')]"

definition exCandidate :: StrategyMember where
  "exCandidate = hd (populateStrategy (exEnv 0) defaultSettings exLogList)"

theorem failed_log_dispreferred_witness:
  "sm_Bucket (assignBucket (exEnv (exNow + 119 * second)) exSubmitter
     (runCalls (\<lambda>s. None) (monCallsOf exNow (sm_SubmissionURL exCandidate) exBusyActs) exMonitor) X509LogEntryType 0 exCandidate)
     \<le> DISPREFERRED_RECENT5XX"
proof -
  have acts: "processHTTPResponse exLib exNow 0 exBusy exEntry 5 = Ok exBusyActs" by code_simp
  have fails: "\<forall>ev. SendEvent ev \<in> set exBusyActs \<longrightarrow> ev_eventType ev = eventFailure"
    by (simp add: exBusyActs_def)
  have "penalty (\<lambda>s. None) exNow exMonitor (penaltyCall exBusy) = Some (DISPREFERRED_RECENT5XX, 120 * second)"
    by code_simp
  moreover have "\<forall>k. sv_clock (exEnv (exNow + 119 * second)) 0 k < exNow + 120 * second"
    by (simp add: exEnv_def second_def)
  moreover have "sm_Bucket exCandidate = NEUTRAL" by code_simp
  ultimately show ?thesis
    using failed_log_dispreferred [OF acts fails subset_refl] by blast
qed

text \<open>
  C35: A log that answers 4xx or 5xx with a Retry-After of n seconds stays in back-off for those n
  seconds after any further calls, even when the configured default is shorter or another answer
  asks for less, as long as n seconds fit into a duration.
\<close>

theorem retry_after_honoured:
  assumes "atoi (hh_RetryAfter r) = Some n" and "0 < n" and "n * second < 2 ^ 63"
    and "t < now + n * second"
  shows "((now, u, Call5xx r) \<in> set calls \<longrightarrow> 0 < fst (Get5xxBackoff fmt t t (runCalls parseDate calls m) u)) \<and>
    ((now, u, Call4xx r) \<in> set calls \<longrightarrow> 0 < fst (Get4xxBackoff fmt t t (runCalls parseDate calls m) u))"
proof -
  have "hh_RetryAfter r \<noteq> []" using assms(1) by (auto simp: atoi_def)
  then have p: "parseRetryAfter parseDate now (hh_RetryAfter r) = n * second"
    by (rule parseRetryAfter_seconds [OF _ assms(1-3)])
  have pos: "0 < n * second" using assms(2) by (simp add: second_def)
  have "backedOff fmt (\<lambda>k. t) b (runCalls parseDate calls m) u"
    if "(now, u, c) \<in> set calls" "penalty parseDate now m c = Some (b, n * second)" for b c
    by (rule penalty_runCalls [OF that]) (simp add: assms(4))
  from this [of "Call5xx r" DISPREFERRED_RECENT5XX] this [of "Call4xx r" DISPREFERRED_RECENT4XX]
  show ?thesis using p pos by (auto simp: backedOff_def backoff5xxDuration_def backoff4xxDuration_def)
qed

theorem retry_after_honoured_witness:
  "0 < fst (Get5xxBackoff (\<lambda>t. []) (exNow + 119 * second) (exNow + 119 * second)
     (runCalls (\<lambda>s. None) [(exNow, exURL, Call5xx \<lparr>hh_StatusCode = 503, hh_RetryAfter = ''120''\<rparr>),
        (exNow + second, exURL, Call5xx \<lparr>hh_StatusCode = 503, hh_RetryAfter = ''1''\<rparr>)] exMonitor) exURL)"
proof -
  have "atoi ''120'' = Some 120" by code_simp
  then show ?thesis
    using retry_after_honoured [of "\<lparr>hh_StatusCode = 503, hh_RetryAfter = ''120''\<rparr>" 120 "exNow + 119 * second" exNow]
    by (simp add: second_def)
qed

text \<open>
  Longer Retry-After values wrap around: 18446744074 seconds (584 years) count as 0.29 seconds,
  and 9223372037 seconds as a negative time, for which the default period is taken.
\<close>

theorem retry_after_overflow:
  "parseRetryAfter parseDate now ''18446744074'' = 290448384 \<and>
   parseRetryAfter parseDate now ''9223372037'' = - 9223372036709551616 \<and>
   backoff5xxDuration parseDate now m \<lparr>hh_StatusCode = 503, hh_RetryAfter = ''9223372037''\<rparr> =
     backoff_Default5xxPeriod (mon_cfg m)"
proof -
  have "atoi ''18446744074'' = Some 18446744074" "atoi ''9223372037'' = Some 9223372037" by code_simp+
  then show ?thesis
    by (simp add: parseRetryAfter_def backoff5xxDuration_def second_def wrap64_def)
qed

section \<open>The sliding windows\<close>

text \<open>RecordSubmissionOutcome calls of all goroutines: clock reading, log, outcome label.\<close>

definition recordOutcomes :: "(time \<times> string \<times> string) list \<Rightarrow> Monitor \<Rightarrow> Monitor" where
  "recordOutcomes calls m = fold (\<lambda>(now, u, oc). RecordSubmissionOutcome now u oc) calls m"

text \<open>The samples the calls record for one log: cancellations are no samples.\<close>

definition outcomesFor :: "string \<Rightarrow> (time \<times> string \<times> string) list \<Rightarrow> outcomeSample list" where
  "outcomesFor u calls =
     map (\<lambda>(now, v, oc). \<lparr>os_at = now, os_success = (oc = ''success'')\<rparr>)
       (filter (\<lambda>(now, v, oc). v = u \<and> oc \<noteq> ''cancelled'') calls)"

lemma recordOutcome_put:
  "oc \<noteq> ''cancelled'' \<Longrightarrow> RecordSubmissionOutcome now u oc m = putOutcome u \<lparr>os_at = now, os_success = (oc = ''success'')\<rparr> m"
  by (simp add: RecordSubmissionOutcome_def putOutcome_def recordOutcomeSample_def Let_def)

lemma recordOutcomes_samples:
  "samplesOf (mon_outcomeSamples (recordOutcomes calls m)) u =
     samplesOf (mon_outcomeSamples (fold (putOutcome u) (outcomesFor u calls) m)) u"
proof (induction calls rule: rev_induct)
  case Nil
  then show ?case by (simp add: recordOutcomes_def outcomesFor_def)
next
  case (snoc call calls)
  obtain now v oc where call: "call = (now, v, oc)" by (cases call) auto
  have step: "recordOutcomes (calls @ [call]) m = RecordSubmissionOutcome now v oc (recordOutcomes calls m)"
    by (simp add: recordOutcomes_def call)
  have samples: "outcomesFor u (calls @ [call]) = outcomesFor u calls @
      (if v = u \<and> oc \<noteq> ''cancelled'' then [\<lparr>os_at = now, os_success = (oc = ''success'')\<rparr>] else [])"
    by (simp add: outcomesFor_def call)
  show ?case
  proof (cases "v = u \<and> oc \<noteq> ''cancelled''")
    case True
    then show ?thesis using snoc.IH unfolding step samples by (simp add: recordOutcome_put outcomes.put_stored)
  next
    case False
    then have "samplesOf (mon_outcomeSamples (RecordSubmissionOutcome now v oc m')) u = samplesOf (mon_outcomeSamples m') u" for m'
      by (auto simp: RecordSubmissionOutcome_def recordOutcomeSample_def samplesOf_def Let_def)
    then show ?thesis using snoc.IH False unfolding step samples by auto
  qed
qed

lemma recordOutcomes_recent:
  assumes "sorted (map fst calls)" and "\<forall>call \<in> set calls. fst call \<le> now" and "mon_outcomeSamples m u = None"
  shows "dropWhile (\<lambda>s. os_at s < now - responseTimeWindow) (samplesOf (mon_outcomeSamples (recordOutcomes calls m)) u) =
    filter (\<lambda>s. now - responseTimeWindow \<le> os_at s) (outcomesFor u calls)"
proof -
  have "map os_at (outcomesFor u calls) = map fst (filter (\<lambda>(now, v, oc). v = u \<and> oc \<noteq> ''cancelled'') calls)"
    by (induction calls) (auto simp: outcomesFor_def)
  then have "sorted (map os_at (outcomesFor u calls))" using assms(1) by (simp add: sorted_filter)
  moreover have "\<forall>s \<in> set (outcomesFor u calls). os_at s \<le> now" using assms(2) by (auto simp: outcomesFor_def)
  moreover have "samplesOf (mon_outcomeSamples m) u = []" using assms(3) by (simp add: samplesOf_def)
  ultimately show ?thesis
    using outcomes.recent_history [of "outcomesFor u calls" m u now] recordOutcomes_samples [of calls m u]
    by (simp add: outcomes.recent_def outcomes.window_def)
qed

text \<open>
  C36: As long as the clock does not go back, GetRecentOutcomeCounts returns exactly the numbers of
  successes and failures recorded for the log in the last 30 seconds, whatever was recorded for
  other logs in between; cancelled submissions count as neither.
\<close>

theorem recent_outcomes_exact:
  assumes "sorted (map fst calls)" and "\<forall>call \<in> set calls. fst call \<le> now" and "mon_outcomeSamples m u = None"
  shows "fst (GetRecentOutcomeCounts now u (recordOutcomes calls m)) =
    (length (filter (\<lambda>(t, v, oc). v = u \<and> oc = ''success'' \<and> now - 30 * second \<le> t) calls),
     length (filter (\<lambda>(t, v, oc). v = u \<and> oc \<noteq> ''success'' \<and> oc \<noteq> ''cancelled'' \<and> now - 30 * second \<le> t) calls))"
proof -
  have "length (filter (\<lambda>s. P (os_success s)) (filter (\<lambda>s. now - responseTimeWindow \<le> os_at s) (outcomesFor u calls))) =
      length (filter (\<lambda>(t, v, oc). v = u \<and> oc \<noteq> ''cancelled'' \<and> P (oc = ''success'') \<and> now - 30 * second \<le> t) calls)" for P
    unfolding responseTimeWindow_def by (induction calls) (auto simp: outcomesFor_def)
  from this [of "\<lambda>b. b"] this [of Not] show ?thesis
    using recordOutcomes_recent [OF assms] unfolding GetRecentOutcomeCounts_def Let_def
    by (auto intro!: arg_cong [where f = length] filter_cong)
qed

theorem recent_outcomes_exact_witness:
  "fst (GetRecentOutcomeCounts (100 * second) exURL (recordOutcomes
     [(60 * second, exURL, ''success''), (75 * second, exURL, ''timeout''), (80 * second, ''other'', ''success''),
      (90 * second, exURL, ''cancelled''), (95 * second, exURL, ''success'')] exMonitor)) = (1, 1)"
proof -
  have "mon_outcomeSamples exMonitor exURL = None" by code_simp
  then show ?thesis by (subst recent_outcomes_exact) (simp_all add: second_def exURL_def)
qed

text \<open>RecordSubmissionResponseTime calls, and those for one log.\<close>

definition recordTimes :: "(time \<times> string \<times> duration) list \<Rightarrow> Monitor \<Rightarrow> Monitor" where
  "recordTimes calls m = fold (\<lambda>(now, u, d). RecordSubmissionResponseTime now u d) calls m"

definition timesFor :: "string \<Rightarrow> (time \<times> string \<times> duration) list \<Rightarrow> responseTimeSample list" where
  "timesFor u calls = map (\<lambda>(now, v, d). \<lparr>rs_at = now, rs_duration = d\<rparr>) (filter (\<lambda>(now, v, d). v = u) calls)"

lemma recordTimes_samples:
  "samplesOf (mon_responseTimeSamples (recordTimes calls m)) u =
     samplesOf (mon_responseTimeSamples (fold (putResponseTime u) (timesFor u calls) m)) u"
proof (induction calls rule: rev_induct)
  case Nil
  then show ?case by (simp add: recordTimes_def timesFor_def)
next
  case (snoc call calls)
  obtain now v d where call: "call = (now, v, d)" by (cases call) auto
  have step: "recordTimes (calls @ [call]) m = putResponseTime v \<lparr>rs_at = now, rs_duration = d\<rparr> (recordTimes calls m)"
    by (simp add: recordTimes_def call RecordSubmissionResponseTime_def putResponseTime_def)
  have samples: "timesFor u (calls @ [call]) = timesFor u calls @ (if v = u then [\<lparr>rs_at = now, rs_duration = d\<rparr>] else [])"
    by (simp add: timesFor_def call)
  show ?case
    using snoc.IH unfolding step samples
    by (cases "v = u") (simp_all add: responseTimes.put_stored responseTimes.put_other)
qed

text \<open>
  With the same clock, GetAvgResponseTime is the truncated mean of the response times recorded
  for the log in the last 30 seconds, and says there is none exactly when none was; the sum does
  not overflow as long as the number of samples times the longest of them fits into a duration.
\<close>

theorem average_response_exact:
  assumes "sorted (map fst calls)" and "\<forall>call \<in> set calls. fst call \<le> now" and "mon_responseTimeSamples m u = None"
    and "\<forall>(t, v, d) \<in> set calls. 0 \<le> d \<and> d \<le> D" and "0 \<le> D" and "D * int (length calls) < 2 ^ 63"
    and "ds = map (\<lambda>(t, v, d). d) (filter (\<lambda>(t, v, d). v = u \<and> now - 30 * second \<le> t) calls)"
  shows "fst (GetAvgResponseTime now u (recordTimes calls m)) =
    (if ds = [] then (0, False) else (sum_list ds div int (length ds), True))"
proof -
  let ?w = "filter (\<lambda>s. now - responseTimeWindow \<le> rs_at s) (timesFor u calls)"
  have "map rs_at (timesFor u calls) = map fst (filter (\<lambda>(now, v, d). v = u) calls)"
    by (induction calls) (auto simp: timesFor_def)
  then have "sorted (map rs_at (timesFor u calls))" using assms(1) by (simp add: sorted_filter)
  moreover have "\<forall>s \<in> set (timesFor u calls). rs_at s \<le> now" using assms(2) by (auto simp: timesFor_def)
  moreover have "samplesOf (mon_responseTimeSamples m) u = []" using assms(3) by (simp add: samplesOf_def)
  ultimately have recent: "dropWhile (\<lambda>s. rs_at s < now - responseTimeWindow)
      (samplesOf (mon_responseTimeSamples (recordTimes calls m)) u) = ?w"
    using responseTimes.recent_history [of "timesFor u calls" m u now] recordTimes_samples [of calls m u]
    by (simp add: responseTimes.recent_def responseTimes.window_def)
  have ds: "map rs_duration ?w = ds"
    unfolding assms(7) responseTimeWindow_def by (induction calls) (auto simp: timesFor_def)
  have empty: "?w = [] \<longleftrightarrow> ds = []" and len: "length ?w = length ds"
    using ds by (metis map_is_Nil_conv, metis length_map)
  have "length ?w \<le> length calls"
    by (rule order_trans [OF length_filter_le]) (simp add: timesFor_def)
  then have "D * int (length ?w) \<le> D * int (length calls)" using assms(5) by (simp add: mult_left_mono)
  then have fits: "D * int (length ?w) < 2 ^ 63" using assms(6) by linarith
  have range: "\<forall>s \<in> set ?w. 0 \<le> rs_duration s \<and> rs_duration s \<le> D"
    using assms(4) by (auto simp: timesFor_def)
  note total = totalDuration_exact [OF range assms(5) fits]
  have "0 < int (length ds)" if "ds \<noteq> []" using that by simp
  then have "goDiv (totalDuration ?w) (int (length ds)) = sum_list ds div int (length ds)" if "ds \<noteq> []"
    using total(1,3) that unfolding ds goDiv_def by (auto simp: sgn_if)
  then show ?thesis
    unfolding GetAvgResponseTime_def Let_def recent empty len by simp
qed

theorem average_response_exact_witness:
  "fst (GetAvgResponseTime (100 * second) exURL (recordTimes
     [(60 * second, exURL, 1000), (75 * second, exURL, 7), (80 * second, ''other'', 9), (95 * second, exURL, 4)] exMonitor)) =
   (5, True)"
proof -
  have "mon_responseTimeSamples exMonitor exURL = None" by code_simp
  then show ?thesis
    by (subst average_response_exact [where D = 1000, OF _ _ _ _ _ _ refl]) (simp_all add: second_def exURL_def)
qed

end
