(* ===== verification/Mimic_Init.thy ===== *)
theory Mimic_Init
  imports TBS Loglists
begin

text \<open>
  What package pki sets up for the mimic logs before main runs (mimics.go): the parsed private keys,
  whose scalars TBS signs with, and the names of the two logs in the registry of loglists.
\<close>

section \<open>The private keys\<close>

text \<open>ecdsa.ParseRawPrivateKey for P-256: 32 bytes, big-endian, a scalar below the order of the group and not 0.\<close>

definition p256Order :: nat where
  "p256Order = 0xFFFFFFFF00000000FFFFFFFFFFFFFFFFBCE6FAADA7179E84F3B9CAC2FC632551"

definition bigEndian :: "bytes \<Rightarrow> nat" where
  "bigEndian bs = foldl (\<lambda>n b. 256 * n + unat b) 0 bs"

definition ParseRawPrivateKey :: "bytes \<Rightarrow> nat option" where
  "ParseRawPrivateKey raw =
     (if length raw = 32 \<and> 0 < bigEndian raw \<and> bigEndian raw < p256Order then Some (bigEndian raw) else None)"

definition mustParsePrivateKey :: "string \<Rightarrow> nat outcome" where
  "mustParsePrivateKey hexD =
     (case hexDecode hexD of
        None \<Rightarrow> Panic
      | Some raw \<Rightarrow> (case ParseRawPrivateKey raw of None \<Rightarrow> Panic | Some key \<Rightarrow> Ok key))"

definition mimic1PrivateKey :: "nat outcome" where
  "mimic1PrivateKey = mustParsePrivateKey ''777B0EF312E25246B4B155DC4D80C75FF5A437DC84EDA21A67C0F9A55C769620''"

definition mimic2PrivateKey :: "nat outcome" where
  "mimic2PrivateKey = mustParsePrivateKey ''6A88796F01A7682CE40DBBDD45F6C24ED02B0EEA13E659EF6704A227F963FF86''"

text \<open>The start of the process never panics here, and the keys are the scalars of TBS.\<close>

lemma mimic_keys_parse: "mimic1PrivateKey = Ok mimic1Key" "mimic2PrivateKey = Ok mimic2Key"
  by (simp_all add: mimic1PrivateKey_def mimic2PrivateKey_def mustParsePrivateKey_def hexValue_def ParseRawPrivateKey_def
      bigEndian_def p256Order_def mimic1Key_def mimic2Key_def)

section \<open>The names\<close>

definition registerMimics :: "(bytes \<Rightarrow> (string \<times> string) option) \<Rightarrow> bytes \<Rightarrow> (string \<times> string) option" where
  "registerMimics extra = RegisterLogName mimic2LogID [] ''Mimic 2'' (RegisterLogName mimic1LogID [] ''Mimic 1'' extra)"

text \<open>A mimic log is found under its name exactly as long as no list has a log with its ID.\<close>

lemma mimic_names:
  assumes "\<forall>ops. Some ops \<in> set lls \<longrightarrow> (\<forall>op \<in> set ops. operatorLogName logID op = None)"
  shows "logID = mimic1LogID \<Longrightarrow> GetLogName lls (registerMimics extra) logID = ([], ''Mimic 1'')"
    and "logID = mimic2LogID \<Longrightarrow> GetLogName lls (registerMimics extra) logID = ([], ''Mimic 2'')"
    and "logID \<noteq> mimic1LogID \<Longrightarrow> logID \<noteq> mimic2LogID \<Longrightarrow> GetLogName lls (registerMimics extra) logID = GetLogName lls extra logID"
proof -
  have none: "firstSome (\<lambda>ll. case ll of None \<Rightarrow> None | Some ops \<Rightarrow> firstSome (operatorLogName logID) ops) lls = None"
    using assms by (auto simp: firstSome_None list_all_iff split: option.split)
  have ids: "length mimic1LogID = 32" "length mimic2LogID = 32" "mimic1LogID \<noteq> mimic2LogID" by code_simp+
  show "logID = mimic1LogID \<Longrightarrow> GetLogName lls (registerMimics extra) logID = ([], ''Mimic 1'')"
    and "logID = mimic2LogID \<Longrightarrow> GetLogName lls (registerMimics extra) logID = ([], ''Mimic 2'')"
    and "logID \<noteq> mimic1LogID \<Longrightarrow> logID \<noteq> mimic2LogID \<Longrightarrow> GetLogName lls (registerMimics extra) logID = GetLogName lls extra logID"
    unfolding GetLogName_def none by (simp_all add: registerMimics_def RegisterLogName_def ids)
qed

end
