(* ===== verification/Spec2Isabelle.thy ===== *)
theory Spec2Isabelle
  imports Submission_Spec Optimal_Parents Startup Web_Correct Loglists_Correct Loglists_Store_Correct Examples Handler_Examples Feedback Strategy Compatible_Logs Discovery TBS Mimic_Init Uptime Samples STH_Monitor
begin

text \<open>
  ctsubmit is a proxy for certificate submission to Certificate Transparency logs. A client posts a
  certificate chain; ctsubmit works out how many SCTs the chain needs, picks the logs that accept
  it, orders them, submits to several of them at once, stops as soon as the SCTs it has make a
  quorum, and answers with the SCTs (and, if asked to, with the final certificate to be signed).
  In the background it fetches tree heads and uptimes of the logs, from which, together with the
  recent outcomes of its own submissions, the next request's order is made.

  \<^bold>\<open>How the parts interact.\<close> A request enters at server/server.go (webHandler) and request/post.go
  (POST), which hand it to submitter/handler.go (Handle). Handle validates, derives the requirements
  (request.go), asks compatibleLogs.go for the logs (which asks pki/chain.go, the cache of chain
  validations), asks strategy.go for their order (which asks the monitor), and runs the submission
  (orchestrate.go), one goroutine per log (submitToLog.go), which records what it sees in the monitor
  (backoffHandler.go, metrics.go). The response is built from the coordinator's result.

  \<^bold>\<open>Theories.\<close> Each opens with the files it models; definitions have the names of the code's
  functions, record fields the names of its fields behind a short prefix.
    \<^item> Prelude: durations as wrapped 64-bit integers, instants, float64 with NaN, errors, strings.
      CSV: what the code uses of encoding/csv, and that its reader reads what its writer writes.
    \<^item> Config: config/config.go. CT_Types: the data of a submission, its logs, response and buckets.
    \<^item> Quorum, Quorum_Correct: submitter/quorum.go, the quorum test and trimToQuorum.
    \<^item> Requirements: submitter/request.go, the number and the kind of SCTs a chain needs.
    \<^item> Orchestrate, Orchestrate_Correct: submitter/orchestrate.go, the coordinator, one definition
      per handler of its select loop.
    \<^item> Submit_Log: submitter/submitToLog.go, one goroutine and the checks of a response.
    \<^item> Submit_System: the coordinator, all its goroutines, the channel between them and the two
      contexts as one step relation (\<open>sysStep\<close>), with its invariant.
    \<^item> Submission_Spec: what a submission is meant to be, a collection of SCTs with nine kinds of step
      (\<open>specStep\<close>), and the simulation by which \<open>sysStep\<close> implements it.
    \<^item> Monitor_State, Backoff, Samples, Uptime, STH_Monitor: the monitor package, one theory per file;
      Feedback: what the next strategy sees of a response; Monitor_Correct: what the monitor promises.
    \<^item> Strategy: submitter/strategy.go and submitter.go. Compatible_Logs: submitter/compatibleLogs.go.
    \<^item> Chain_Cache: pki/chain.go. Discovery: pki/discovery.go. TBS: the rest of pki and ctlint.go.
      Mimic_Init: the keys and names of the mimic logs.
    \<^item> Base64: utils/base64.go. Handler: submitter/handler.go. Examples, Handler_Examples: the concrete
      requests and logs on which the witnesses evaluate the definitions.
    \<^item> Request_Log: logger/logger.go. Health: health/health.go. Web: server and request packages, both
      HTTP servers with their log entries; Web_Correct: what they answer and log.
    \<^item> Loglists, Loglists_Correct: the loglists package, on copies of the logs. Loglists_Store,
      Loglists_Store_Correct: the same with logs shared between lists and written in place, and that
      it makes no difference. Release_Timestamp: the timestamp of its lists.
    \<^item> Server_Metrics: the Prometheus collectors. Startup: main.go and what it starts: configuration,
      package initialisation, servers, and the way out.
    \<^item> Parents_Search, Optimal_Parents: cmd/optimalparents, which computes the table that
      Discovery extends chains with.
    \<^item> Spec2Isabelle, this theory: the properties of a whole submission and of a whole request.

  \<^bold>\<open>Concurrency.\<close> A submission is a step relation: an event of the coordinator's select (a result, a
  timer, the end of the request) or a step of one goroutine (its timer, the answer of its log, its
  cancellation) happens at any time at which the code allows it. The properties hold for every
  interleaving. A probe that misses its deadline races with the time-out handler for one response;
  Web shuffles their writes. State behind a mutex changes in one step.

  \<^bold>\<open>Bounds.\<close> Nothing here has fuel. A goroutine makes at most 10 steps and a submission to n logs at
  most 21 n + 3, which \<open>submission_bounded\<close> proves from a measure; no step relation is ever stuck
  before the submission has returned (\<open>submission_never_stuck\<close>). Loops over lists are recursive
  functions or folds; the loops that are not structural (the breadth-first search, chain extension,
  decimal printing) are functions with a termination proof.

  \<^bold>\<open>Interfaces.\<close> Each locale states what a client relies on and is interpreted on the model:
  \<open>backoff_cache\<close> (Backoff, once per cache of the monitor), \<open>sliding_window\<close> (Samples, twice),
  \<open>result_cache\<close> (Chain_Cache), \<open>log_merge\<close> (Loglists_Correct, for RFC 6962 and for tiled logs),
  \<open>event_source\<close> (the timer loops), \<open>sort_function\<close> (Strategy, what is used of the library's sort) and
  \<open>simulation\<close> (Submission_Spec, between the system and the collection).

  \<^bold>\<open>What the properties show.\<close> A submission that succeeds carries exactly a quorum of SCTs that its logs
  signed; one that fails says why; in every interleaving it implements the collection of Submission_Spec; it always returns, within a bounded number of steps, contacts each
  log once, leaves no goroutine or timer behind, and panics only for a known input. A whole request refines
  its parts. The strategy is ordered by the monitor's state, only compatible logs are in it, and a log
  that fails is no longer preferred. The monitor's tree heads are verified, its windows and back-offs
  exact. The derived log lists, the table of parents (down to the text of its file) and the chains built from it, the final
  certificate and the answers of the HTTP servers are what they should be; every request is logged once. The
  process serves only with validated settings and monitored logs. The sharing of logs between lists makes no difference. Some
  properties show where the code does less than its comments say; the manifest lists them as findings.

  \<^bold>\<open>Parameters.\<close> Code outside the repository is an argument of the definitions that use it: X.509, ASN.1
  and TLS parsing and encoding, signature verification and hashing, the HTTP client, JSON, viper,
  ctlint, ctloglists' data, regular expressions, and Go's sort where only its contract matters.
  Assumptions about them are hypotheses of the theorems.

  \<^bold>\<open>Not modelled.\<close> What pages and templates look like, log messages other than those of the requests
  and of the start-up, what the counters and summaries of Prometheus count, the profiler's routes and
  output, where cmd/optimalparents finds its data and what it prints, the positions in the errors of
  the CSV reader, and the generated templates, which are not in the repository. A log of Loglists_Store
  is one cell, which holds its State.Usable and its TemporalInterval, as the decoder makes them afresh
  for each log.
\<close>

section \<open>One submission\<close>

text \<open>A state of the running system together with its invariant, from the start of a submission.\<close>

lemma reachable_state:
  assumes "freshStrategy strategy" and "requirementsOK sr" and "\<forall>n. 0 < elapsed n"
    and "sysReach (submissionOf sr elapsed strategy lib se) (submitSystem marshal sr elapsed strategy se) y"
  obtains (early) e where "sys_co y = (initState strategy)\<lparr>st_control := Returned (Err e)\<rparr>" "sys_gos y = []" "sys_chan y = []"
  | (running) "sysInv (submissionOf sr elapsed strategy lib se) strategy y"
proof (cases rule: submitSystem_cases [OF assms(1-3), where marshal = marshal and se = se and lib = lib, case_names early running])
  case (early e)
  have "sys_co y = sys_co (submitSystem marshal sr elapsed strategy se) \<and> sys_gos y = [] \<and> sys_chan y = []"
    by (rule early_stuck [OF assms(4) early(2,3)]) (simp add: early(1))
  then show ?thesis using early(1) by (intro that(1) [of e]) simp_all
next
  case running
  have "sysInv (submissionOf sr elapsed strategy lib se) strategy y"
    by (rule sysReach_sysInv [OF assms(4) running]) (simp_all add: submissionOf_def assms(2,3))
  then show ?thesis by (rule that(2))
qed

text \<open>What the invariant says of the logs that have been contacted.\<close>

lemma sysInv_logs:
  assumes "sysInv (submissionOf sr elapsed strategy lib se) strategy y"
  shows "map g_idx (sys_gos y) = st_spawned (sys_co y)" and "distinct (st_spawned (sys_co y))"
    and "set (st_spawned (sys_co y)) \<subseteq> set (eligibleLogs strategy)"
    and "frameOK strategy (st_strategy (sys_co y))"
proof -
  show "map g_idx (sys_gos y) = st_spawned (sys_co y)" using assms by (simp add: sysInv_def)
  have "coInv (accepts (submissionOf sr elapsed strategy lib se)) sr (eligibleLogs strategy) strategy
      (outSet (sys_gos y) (sys_chan y)) (sys_co y)"
    using assms by (simp add: sysInv_def submissionOf_def)
  from coInv_spawned [OF this]
  show "distinct (st_spawned (sys_co y))" "set (st_spawned (sys_co y)) \<subseteq> set (eligibleLogs strategy)"
    "frameOK strategy (st_strategy (sys_co y))" by auto
qed

text \<open>The collected SCTs of a submission that has returned them.\<close>

lemma submitted_quorum:
  assumes "freshStrategy strategy" and "requirementsOK sr" and "\<forall>n. 0 < elapsed n"
    and "sysReach (submissionOf sr elapsed strategy lib se) (submitSystem marshal sr elapsed strategy se) y"
    and "st_control (sys_co y) = Returned (Ok (responses, scts))"
  obtains idxs where "distinct idxs" "set idxs \<subseteq> set (eligibleLogs strategy)" "int (length idxs) = sr_SCTs sr"
    "length responses = length idxs" "length scts = length idxs"
    "\<forall>k < length idxs. \<exists>now. acceptedSCT lib se now (responses ! k) (scts ! k)"
    "sr_Operators sr \<le> int (card ((\<lambda>i. sm_Operator (strategy ! i)) ` set idxs))"
    "sr_RequireAtLeastOneRFC6962SCT sr \<longrightarrow> (\<exists>i \<in> set idxs. sm_LogType (strategy ! i) = LOGTYPE_RFC6962)"
proof (cases rule: reachable_state [OF assms(1-4), case_names early running])
  case (early e)
  then show ?thesis using assms(5) by simp
next
  case running
  let ?qs = "st_qs (sys_co y)"
  note logs = sysInv_logs [OF running]
  have r: "resultOK (accepts (submissionOf sr elapsed strategy lib se)) sr (eligibleLogs strategy) (sys_co y) (Ok (responses, scts))"
    using returned_quiet(3) [OF running assms(5)] by (simp add: submissionOf_def)
  then have c: "collectedOK (accepts (submissionOf sr elapsed strategy lib se)) (set (st_spawned (sys_co y))) ?qs"
    "responses = qs_responses ?qs" "scts = qs_scts ?qs" by (auto simp: resultOK_def)
  let ?ix = "qs_strategyIndices ?qs"
  have sub: "set ?ix \<subseteq> set (eligibleLogs strategy)" using c(1) logs(3) by (auto simp: collectedOK_def)
  have acc: "\<exists>now. acceptedSCT lib se now (responses ! k) (scts ! k)" if "k < length ?ix" for k
    using c that by (auto simp: collectedOK_def list_all_length accepts_def submissionOf_def)
  have same: "sm_Operator (st_strategy (sys_co y) ! i) = sm_Operator (strategy ! i) \<and>
      sm_LogType (st_strategy (sys_co y) ! i) = sm_LogType (strategy ! i)" if "i \<in> set ?ix" for i
    using logs(4) sub that by (auto simp: frameOK_def sameLog_def eligibleLogs_def)
  have ops: "(\<lambda>i. sm_Operator (st_strategy (sys_co y) ! i)) ` set ?ix = (\<lambda>i. sm_Operator (strategy ! i)) ` set ?ix"
    using same by (intro image_cong) auto
  show ?thesis
    by (rule that [of ?ix]) (use r c sub acc same ops in \<open>auto simp: resultOK_def collectedOK_def\<close>)
qed





text \<open>
  C3: When submit returns an error after it has contacted logs, either the request's own context
  was done, with that error, or the quorum is not met and no eligible log that has not been
  contacted would bring it closer. Otherwise it failed before contacting any log, with its
  strategy untouched.
\<close>

theorem submission_fails_only_if:
  assumes "freshStrategy strategy" and "requirementsOK sr" and "\<forall>n. 0 < elapsed n"
    and "sysReach (submissionOf sr elapsed strategy lib se) (submitSystem marshal sr elapsed strategy se) y"
    and "st_control (sys_co y) = Returned (Err e)"
  shows "sys_ctx y = Some e \<or>
    e = Errorf (''quorum not achieved: '' @ quorumFailureReason (st_qs (sys_co y)) sr) \<and>
      \<not> isQuorumMet (st_qs (sys_co y)) sr \<and> exhausted sr (eligibleLogs strategy) (sys_co y) \<or>
    sys_gos y = [] \<and> st_strategy (sys_co y) = strategy"
proof (cases rule: reachable_state [OF assms(1-4), case_names early running])
  case (early e')
  then show ?thesis by (simp add: initState_def)
next
  case running
  have "resultOK (accepts (submissionOf sr elapsed strategy lib se)) sr (eligibleLogs strategy) (sys_co y) (Err e)"
    using returned_quiet(3) [OF running assms(5)] by (simp add: submissionOf_def)
  moreover have "causeOK y" by (rule sysReach_causeOK [OF assms(4) submitSystem_causeOK])
  ultimately show ?thesis by (auto simp: resultOK_def causeOK_def)
qed

theorem submission_fails_only_if_witness:
  "sys_ctx exBadEnd = Some (Errorf exReason) \<or>
    Errorf exReason = Errorf (''quorum not achieved: '' @ quorumFailureReason (st_qs (sys_co exBadEnd)) exRequest) \<and>
      \<not> isQuorumMet (st_qs (sys_co exBadEnd)) exRequest \<and> exhausted exRequest (eligibleLogs exStrategy) (sys_co exBadEnd) \<or>
    sys_gos exBadEnd = [] \<and> st_strategy (sys_co exBadEnd) = exStrategy"
  by (rule submission_fails_only_if [OF ex_fresh ex_requirements ex_elapsed ex_bad_reach ex_bad_end(2)])

text \<open>
  C4: Every run of a submission is finite: the number of steps the coordinator, its goroutines and
  the request's context can take together is bounded by a number fixed at the start, so no
  scheduling of them goes on for ever.
\<close>

theorem submission_bounded:
  assumes "freshStrategy strategy" and "requirementsOK sr" and "\<forall>n. 0 < elapsed n"
    and "sysRuns (submissionOf sr elapsed strategy lib se) (submitSystem marshal sr elapsed strategy se # ys)"
  shows "length ys \<le> 21 * length (eligibleLogs strategy) + 3"
proof -
  let ?sub = "submissionOf sr elapsed strategy lib se"
  let ?y = "submitSystem marshal sr elapsed strategy se"
  show ?thesis
  proof (cases rule: submitSystem_cases [OF assms(1-3), where marshal = marshal and se = se and lib = lib, case_names early running])
    case (early e)
    then have "length ys \<le> 1" using early_runs [OF assms(4)] by simp
    then show ?thesis by simp
  next
    case running
    have "length ys \<le> sysMeasure ?sub ?y"
      using sysRuns_bounded [OF running _ _ assms(4)] assms(2,3) by (simp add: submissionOf_def)
    also have "sysMeasure ?sub ?y \<le> 21 * length (eligibleLogs strategy) + 3"
      using start_measure [OF running] by simp
    finally show ?thesis .
  qed
qed

theorem submission_bounded_witness:
  "length (tl (sysTrace exSub exSchedule exStart)) \<le> 21 * length (eligibleLogs exStrategy) + 3"
proof -
  have "sysRuns exSub (exStart # tl (sysTrace exSub exSchedule exStart))"
    using sysTrace_runs [of exSub exSchedule exStart] by (simp only: sysTrace_Cons [symmetric])
  then show ?thesis
    unfolding exSub_def exStart_def by (rule submission_bounded [OF ex_fresh ex_requirements ex_elapsed])
qed

text \<open>
  C5: A submission never gets stuck: as long as submit has not returned (and the process has not
  panicked), some party can take a step. With C3, every submission returns.
\<close>

theorem submission_never_stuck:
  assumes "freshStrategy strategy" and "requirementsOK sr" and "\<forall>n. 0 < elapsed n"
    and "sysReach (submissionOf sr elapsed strategy lib se) (submitSystem marshal sr elapsed strategy se) y"
    and "\<not> sys_panicked y" and "\<not> isReturned (st_control (sys_co y))"
  shows "\<exists>y'. sysStep (submissionOf sr elapsed strategy lib se) y y'"
proof (cases rule: reachable_state [OF assms(1-4), case_names early running])
  case (early e)
  then show ?thesis using assms(6) by (simp add: isReturned_def)
next
  case running
  show ?thesis by (rule progress [OF running assms(5,6)])
qed

theorem submission_never_stuck_witness:
  "\<exists>y'. sysStep (submissionOf exRequest exElapsed exStrategy exLib exEntry)
     (submitSystem exMarshal exRequest exElapsed exStrategy exEntry) y'"
  by (rule submission_never_stuck [OF ex_fresh ex_requirements ex_elapsed sysReach.start]; code_simp)

text \<open>
  C6: When submit returns, no goroutine of the submission still has an event to send and the event
  channel is empty: nothing is left blocked on the channel and no answer is lost unread.
\<close>

theorem submission_leaves_nothing_behind:
  assumes "freshStrategy strategy" and "requirementsOK sr" and "\<forall>n. 0 < elapsed n"
    and "sysReach (submissionOf sr elapsed strategy lib se) (submitSystem marshal sr elapsed strategy se) y"
    and "st_control (sys_co y) = Returned res"
  shows "sys_chan y = [] \<and> (\<forall>g \<in> set (sys_gos y). g_phase g = GDone \<and> sends (g_pending g) = [])"
proof (cases rule: reachable_state [OF assms(1-4), case_names early running])
  case (early e)
  then show ?thesis by simp
next
  case running
  show ?thesis using returned_quiet(1,2) [OF running assms(5)] by (auto simp: goOwed_def split: if_splits)
qed

theorem submission_leaves_nothing_behind_witness:
  "sys_chan exEnd = [] \<and> list_all (\<lambda>g. g_phase g = GDone \<and> sends (g_pending g) = []) (sys_gos exEnd)"
  using submission_leaves_nothing_behind [OF ex_fresh ex_requirements ex_elapsed ex_reach ex_end(2)]
  by (simp add: list_all_iff)

text \<open>
  C7: Whatever happens, a log is contacted at most once in a submission, and an excluded log never
  is. The identity and the bucket of every strategy member stay what the strategy said.
\<close>

theorem logs_contacted_once:
  assumes "freshStrategy strategy" and "requirementsOK sr" and "\<forall>n. 0 < elapsed n"
    and "sysReach (submissionOf sr elapsed strategy lib se) (submitSystem marshal sr elapsed strategy se) y"
  shows "distinct (map g_idx (sys_gos y)) \<and>
    (\<forall>g \<in> set (sys_gos y). g_idx g < length strategy \<and> sm_Bucket (strategy ! g_idx g) \<noteq> EXCLUDED) \<and>
    length (st_strategy (sys_co y)) = length strategy \<and>
    (\<forall>i < length strategy. sameLog (st_strategy (sys_co y) ! i) (strategy ! i) \<and>
       sm_Bucket (st_strategy (sys_co y) ! i) = sm_Bucket (strategy ! i))"
proof (cases rule: reachable_state [OF assms(1-4), case_names early running])
  case (early e)
  then show ?thesis by (simp add: initState_def)
next
  case running
  note logs = sysInv_logs [OF running]
  have "g_idx ` set (sys_gos y) \<subseteq> set (eligibleLogs strategy)" using logs(1,3) by (metis set_map)
  then have "\<forall>g \<in> set (sys_gos y). g_idx g < length strategy \<and> sm_Bucket (strategy ! g_idx g) \<noteq> EXCLUDED"
    by (auto simp: eligibleLogs_def)
  moreover have "distinct (map g_idx (sys_gos y))" using logs(1,2) by simp
  ultimately show ?thesis using logs(4) unfolding frameOK_def by blast
qed

theorem logs_contacted_once_witness:
  "distinct (map g_idx (sys_gos exBadEnd)) \<and>
    list_all (\<lambda>g. g_idx g < length exStrategy \<and> sm_Bucket (exStrategy ! g_idx g) \<noteq> EXCLUDED) (sys_gos exBadEnd) \<and>
    length (st_strategy (sys_co exBadEnd)) = length exStrategy"
  using logs_contacted_once [OF ex_fresh ex_requirements ex_elapsed ex_bad_reach]
  by (simp add: list_all_iff)

text \<open>
  C8: A goroutine never panics when the issuer's key hash is known or the entry is not a
  precertificate. (Without it, the first verified answer for a precertificate would dereference nil.)
\<close>

theorem submission_no_panic:
  assumes "sysReach (submissionOf sr elapsed strategy lib se) (submitSystem marshal sr elapsed strategy se) y"
    and "se_entryType se = PrecertLogEntryType \<Longrightarrow> se_sha256IssuerSPKI se \<noteq> None"
  shows "\<not> sys_panicked y"
  by (rule sysReach_no_panic [OF assms(1)])
    (use assms(2) in \<open>auto simp: issuerKnown_def submissionOf_def submitSystem_def sysStart_def\<close>)

theorem submission_no_panic_witness: "\<not> sys_panicked exEnd"
  by (rule submission_no_panic [OF ex_reach]) (simp add: exEntry_def)



text \<open>
  C16: A goroutine that has run to its end, with any answers, timers and cancellation, has sent
  exactly one final event, success or failure, after all others, all for its own log, and took
  at most ten steps.
\<close>

theorem goroutine_reports_once:
  assumes "goRuns lib se (newGoroutine i) es g'" and "g_phase g' = GDone" and "g_pending g' = []"
  shows "\<exists>evs ev. map the (filter (\<lambda>e. e \<noteq> None) (map snd es)) = evs @ [ev] \<and> isFinal ev \<and>
    (\<forall>e \<in> set evs. \<not> isFinal e) \<and> (\<forall>e \<in> set (evs @ [ev]). ev_strategyIdx e = i) \<and> length es \<le> 10"
proof -
  note r = goRuns_any [OF assms(1)]
  have "goOwed g' = 0" using assms(2,3) by (simp add: goOwed_def)
  then obtain evs ev where "anyCause.sent (map snd es) = evs @ [ev]" "isFinal ev" "\<forall>e \<in> set evs. \<not> isFinal e"
    "\<forall>e \<in> set (anyCause.sent (map snd es)). ev_strategyIdx e = i"
    using anyCause.runs_one_final [OF newGoroutine_start(1,2) r] newGoroutine_start(4) by metis
  moreover have "length es \<le> 10"
    using anyCause.runs_bounded [OF newGoroutine_start(1) r] by (simp add: newGoroutine_start(3))
  ultimately show ?thesis unfolding anyCause.sent_def by metis
qed

text \<open>The first log of the example exceeds the try-next threshold and is then refused.\<close>

definition exGoRun :: "((go_error option \<times> submissionEvent option) list \<times> goroutine) option" where
  "exGoRun = goExec exLib exEntry (newGoroutine 0)
     [(None, Some (WakeStart None None)), (None, Some WakeTryNext), (None, None),
      (None, Some (WakeHTTP exNow 5 exRefused)), (None, None), (None, None), (None, None), (None, None)]"

theorem goroutine_reports_once_witness:
  "\<exists>evs ev. map the (filter (\<lambda>e. e \<noteq> None) (map snd (fst (the exGoRun)))) = evs @ [ev] \<and> isFinal ev \<and>
    \<not> list_ex isFinal evs \<and> length (fst (the exGoRun)) \<le> 10"
proof -
  have "map_option (\<lambda>(es, g). (g_phase g, g_pending g)) exGoRun = Some (GDone, [])" by code_simp
  then obtain es g where e: "exGoRun = Some (es, g)" "g_phase g = GDone" "g_pending g = []" by auto
  have "goRuns exLib exEntry (newGoroutine 0) es g" by (rule goExec_runs [OF e(1) [unfolded exGoRun_def]])
  from goroutine_reports_once [OF this e(2,3)] show ?thesis
    unfolding e(1) option.sel fst_conv list_ex_iff by blast
qed



text \<open>
  C40: The check that rejects SCT timestamps in the future reads the unsigned timestamp as a signed
  number, so a timestamp of 2^63 milliseconds or more, hundreds of millions of years ahead, passes
  it at any time since 1970.
\<close>

theorem far_future_passes:
  assumes "2 ^ 63 \<le> unat (sct_Timestamp s)" and "unixMilli 0 \<le> now"
  shows "\<not> inTheFuture now s"
proof -
  let ?x = "uint (sct_Timestamp s)"
  have lo: "2 ^ 63 \<le> ?x" using of_nat_mono [OF assms(1), where 'a = int] by simp
  have hi: "?x < 2 ^ 64" using unsigned_less [of "sct_Timestamp s"] by simp
  have "(x + 2 ^ 63) mod 2 ^ 64 = x - 2 ^ 63" if "2 ^ 63 \<le> x" "x < 2 ^ 64" for x :: int
  proof -
    have "x + 2 ^ 63 = (x - 2 ^ 63) + 2 ^ 64" by simp
    moreover have "(x - 2 ^ 63) mod 2 ^ 64 = x - 2 ^ 63" by (rule mod_pos_pos_trivial) (use that in simp_all)
    ultimately show ?thesis using mod_add_self2 by metis
  qed
  from this [OF lo hi] have "sint (sct_Timestamp s) = ?x - 2 ^ 64"
    by (simp add: sint_uint signed_take_bit_eq_take_bit_shift take_bit_eq_mod)
  then have "sint (sct_Timestamp s) \<le> -1" using hi by simp
  then show ?thesis using assms(2)
    by (simp add: inTheFuture_def unixMilli_def second_def millisecond_def)
qed

theorem far_future_passes_witness: "\<not> inTheFuture exNow (zeroSCT\<lparr>sct_Timestamp := 2 ^ 63\<rparr>)"
  by (rule far_future_passes) (simp_all add: exNow_def)

section \<open>One request\<close>







end
